(* ===== verification/Prelude.thy ===== *)
theory Prelude
  imports Main "HOL-Library.Word"
begin

text \<open>
  Shared vocabulary of the development: the machine types, the outcome type of kernel
  code with its sequencing combinator, and the generic lemmas on folds, searches and
  pointwise updates of tables that the component theories use.
\<close>

unbundle bit_operations_syntax

section \<open>Machine types\<close>

text \<open>\<open>uchar\<close>, \<open>uint\<close> and kernel addresses (\<open>types.h\<close>): C's unsigned integers wrap around.\<close>

type_synonym byte = "8 word"
type_synonym uint = "32 word"
type_synonym addr = "32 word"

section \<open>Outcomes of kernel code\<close>

text \<open>
  A call into the kernel, run on one CPU from a state, ends in one of five ways:
  \<^item> \<open>Ret v s\<close>: it returns \<open>v\<close> and leaves the state \<open>s\<close>;
  \<^item> \<open>Panic m\<close>: it calls \<open>panic(m)\<close>, which never returns;
  \<^item> \<open>Asleep s\<close>: the calling process went to sleep in \<open>sched\<close>; \<open>s\<close> is the state the
    scheduler continues from. What the call does when it is woken is a definition of its own;
  \<^item> \<open>Spins s\<close>: it spins on a lock that another CPU holds;
  \<^item> \<open>Undef\<close>: it performs an access that C leaves undefined (a null dereference, an index
    outside an array), so nothing can be said of it.
\<close>

datatype ('a, 's) kres = Ret 'a 's | Panic string | Asleep 's | Spins 's | Undef

fun bind :: "('a, 's) kres \<Rightarrow> ('a \<Rightarrow> 's \<Rightarrow> ('b, 's) kres) \<Rightarrow> ('b, 's) kres" where
  "bind (Ret v s) f = f v s"
| "bind (Panic m) f = Panic m"
| "bind (Asleep s) f = Asleep s"
| "bind (Spins s) f = Spins s"
| "bind Undef f = Undef"

lemma bind_cong [fundef_cong]:
  assumes "m = m'" and "\<And>v s. m' = Ret v s \<Longrightarrow> f v s = g v s"
  shows "bind m f = bind m' g"
  using assms by (cases m') auto

lemma bind_assoc [simp]: "bind (bind m f) g = bind m (\<lambda>v s. bind (f v s) g)"
  by (cases m) auto

lemma bind_Ret_iff: "bind m f = Ret v s \<longleftrightarrow> (\<exists>u t. m = Ret u t \<and> f u t = Ret v s)"
  by (cases m) auto

lemma bind_RetE [elim!]:
  assumes "bind m f = Ret v s"
  obtains u t where "m = Ret u t" and "f u t = Ret v s"
  using assms by (cases m) auto

lemma bind_if [simp]: "bind (if b then m else m') f = (if b then bind m f else bind m' f)"
  by simp

section \<open>Postconditions\<close>

text \<open>
  \<open>returns m Q\<close>: the call does return, and with \<open>Q\<close> (total correctness). \<open>on_ret m Q\<close>: if it
  returns, then with \<open>Q\<close>. \<open>keeps m I\<close>: every state the call can leave behind, also when it
  sleeps or spins, satisfies \<open>I\<close>.
\<close>

definition returns :: "('a, 's) kres \<Rightarrow> ('a \<Rightarrow> 's \<Rightarrow> bool) \<Rightarrow> bool" where
  "returns m Q \<longleftrightarrow> (case m of Ret v s \<Rightarrow> Q v s | _ \<Rightarrow> False)"

definition on_ret :: "('a, 's) kres \<Rightarrow> ('a \<Rightarrow> 's \<Rightarrow> bool) \<Rightarrow> bool" where
  "on_ret m Q \<longleftrightarrow> (case m of Ret v s \<Rightarrow> Q v s | _ \<Rightarrow> True)"

definition keeps :: "('a, 's) kres \<Rightarrow> ('s \<Rightarrow> bool) \<Rightarrow> bool" where
  "keeps m I \<longleftrightarrow> (case m of Ret v s \<Rightarrow> I s | Asleep s \<Rightarrow> I s | Spins s \<Rightarrow> I s | _ \<Rightarrow> True)"

definition panics :: "('a, 's) kres \<Rightarrow> bool" where
  "panics m \<longleftrightarrow> (\<exists>msg. m = Panic msg)"

named_theorems outcome \<open>rules that compute postconditions of outcomes\<close>

lemma returns_simps [simp, outcome]:
  "returns (Ret v s) Q = Q v s"
  "returns (Panic msg) Q = False"
  "returns (Asleep s) Q = False"
  "returns (Spins s) Q = False"
  "returns Undef Q = False"
  by (simp_all add: returns_def)

lemma on_ret_simps [simp, outcome]:
  "on_ret (Ret v s) Q = Q v s"
  "on_ret (Panic msg) Q = True"
  "on_ret (Asleep s) Q = True"
  "on_ret (Spins s) Q = True"
  "on_ret Undef Q = True"
  by (simp_all add: on_ret_def)

lemma keeps_simps [simp, outcome]:
  "keeps (Ret v s) I = I s"
  "keeps (Panic msg) I = True"
  "keeps (Asleep s) I = I s"
  "keeps (Spins s) I = I s"
  "keeps Undef I = True"
  by (simp_all add: keeps_def)

lemma panics_simps [simp]:
  "\<not> panics (Ret v s)"
  "panics (Panic msg)"
  "\<not> panics (Asleep s)"
  "\<not> panics (Spins s)"
  "\<not> panics Undef"
  by (simp_all add: panics_def)

lemma returns_iff: "returns m Q \<longleftrightarrow> (\<exists>v s. m = Ret v s \<and> Q v s)"
  by (cases m) auto

lemma returns_bind: "returns (bind m f) Q \<longleftrightarrow> returns m (\<lambda>v s. returns (f v s) Q)"
  by (cases m) auto

lemma on_ret_bind: "on_ret (bind m f) Q \<longleftrightarrow> on_ret m (\<lambda>v s. on_ret (f v s) Q)"
  by (cases m) auto

lemma returns_mono: "returns m Q \<Longrightarrow> (\<And>v s. Q v s \<Longrightarrow> R v s) \<Longrightarrow> returns m R"
  by (cases m) auto

lemma on_ret_mono: "on_ret m Q \<Longrightarrow> (\<And>v s. Q v s \<Longrightarrow> R v s) \<Longrightarrow> on_ret m R"
  by (cases m) auto

lemma on_retI: "(\<And>v s. m = Ret v s \<Longrightarrow> Q v s) \<Longrightarrow> on_ret m Q"
  by (cases m) auto

lemma on_retD: "on_ret m Q \<Longrightarrow> m = Ret v s \<Longrightarrow> Q v s"
  by simp

lemma keeps_bind:
  "keeps m I \<Longrightarrow> (\<And>v s. m = Ret v s \<Longrightarrow> I s \<Longrightarrow> keeps (f v s) J) \<Longrightarrow>
   (\<And>s. I s \<Longrightarrow> J s) \<Longrightarrow> keeps (bind m f) J"
  by (cases m) auto

section \<open>Loops over a table\<close>

text \<open>A \<open>for\<close> loop whose body may fail: it stops at the first outcome that is not a return.\<close>

fun kfor :: "('i \<Rightarrow> 's \<Rightarrow> (unit, 's) kres) \<Rightarrow> 'i list \<Rightarrow> 's \<Rightarrow> (unit, 's) kres" where
  "kfor body [] s = Ret () s"
| "kfor body (i # is) s = bind (body i s) (\<lambda>_ s. kfor body is s)"

lemma kfor_append: "kfor body (xs @ ys) s = bind (kfor body xs s) (\<lambda>_ s. kfor body ys s)"
  by (induction xs arbitrary: s) (auto intro: bind_cong)

lemma kfor_pure:
  "(\<And>i s. i \<in> set xs \<Longrightarrow> body i s = Ret () (g i s)) \<Longrightarrow> kfor body xs s = Ret () (fold g xs s)"
  by (induction xs arbitrary: s) auto

lemma kfor_keeps:
  assumes "\<And>i s. i \<in> set xs \<Longrightarrow> I s \<Longrightarrow> on_ret (body i s) (\<lambda>_ s'. I s')" and "I s"
  shows "on_ret (kfor body xs s) (\<lambda>_ s'. I s')"
  using assms
proof (induction xs arbitrary: s)
  case Nil
  then show ?case by simp
next
  case (Cons x xs)
  have "on_ret (body x s) (\<lambda>_ s'. I s')"
    using Cons.prems by simp
  then show ?case
    unfolding kfor.simps on_ret_bind
    by (rule on_ret_mono) (use Cons in auto)
qed

text \<open>
  The first index of a table with a property: the search loop
  \<open>for(p = tab; p < &tab[N]; p++) if(...) goto found\<close>.
\<close>

definition first_index :: "nat \<Rightarrow> (nat \<Rightarrow> bool) \<Rightarrow> nat option" where
  "first_index n P = List.find P [0..<n]"

lemma first_index_Some: "first_index n P = Some i \<Longrightarrow> i < n \<and> P i \<and> (\<forall>j<i. \<not> P j)"
proof -
  assume "first_index n P = Some i"
  then obtain k where "k < length [0..<n]" "P ([0..<n] ! k)" "i = [0..<n] ! k"
    "\<forall>j<k. \<not> P ([0..<n] ! j)"
    by (auto simp: first_index_def find_Some_iff)
  then show ?thesis by simp
qed

lemma first_index_None: "first_index n P = None \<longleftrightarrow> (\<forall>i<n. \<not> P i)"
  by (auto simp: first_index_def find_None_iff)

lemma first_indexI: "i < n \<Longrightarrow> P i \<Longrightarrow> (\<forall>j<i. \<not> P j) \<Longrightarrow> first_index n P = Some i"
  by (auto simp: first_index_def find_Some_iff intro!: exI [of _ i])

lemma first_index_exists: "i < n \<Longrightarrow> P i \<Longrightarrow> \<exists>j. first_index n P = Some j"
  using first_index_None [of n P] by (cases "first_index n P") auto

text \<open>A loop that updates each entry of a table on its own is a pointwise update.\<close>

lemma fold_pointwise:
  "distinct xs \<Longrightarrow>
   fold (\<lambda>i f. f(i := g i (f i))) xs f = (\<lambda>i. if i \<in> set xs then g i (f i) else f i)"
  by (induction xs arbitrary: f) (auto simp: fun_eq_iff)

section \<open>Words\<close>

lemma unat_add_no_wrap:
  fixes a b :: "'a::len word"
  shows "unat a + unat b < 2 ^ LENGTH('a) \<Longrightarrow> unat (a + b) = unat a + unat b"
  by (simp add: unat_word_ariths)

lemma word_add_no_wrap_le:
  fixes a b :: uint
  shows "unat a + unat b < 2 ^ 32 \<Longrightarrow> a \<le> a + b"
  by (simp add: word_le_nat_alt unat_word_ariths)

end
