(* ===== verification/Spinlock.thy ===== *)
theory Spinlock
  imports Prelude
begin

text \<open>
  Spin locks and the interrupt-disable depth (\<open>spinlock.c\<close>, \<open>spinlock.h\<close>, the fields of
  \<open>struct cpu\<close> they use). The state is what the executing CPU sees: its own \<open>struct cpu\<close>
  (the \<open>%gs\<close> variable \<open>cpu\<close>) and every lock of the kernel. The debugging array \<open>pcs\<close> of a
  lock is left out. The last section runs several CPUs against the same locks.
\<close>

section \<open>State\<close>

text \<open>One name per spin lock of the kernel; locks kept in an array carry their index.\<close>

datatype lockid =
    Ptable_lock | Semtable_lock | Sem_lock nat | Kmem_lock | Bcache_lock | Ide_lock
  | Log_lock | Icache_lock | Ftable_lock | Pipe_lock addr | Ticks_lock | Cons_lock | Input_lock

record spinlock =
  lk_locked :: bool
  lk_name :: string
  lk_cpu :: "nat option"

text \<open>
  \<open>struct cpu\<close>: its number, the depth of \<open>pushcli\<close> nesting, whether interrupts were on
  before the outermost \<open>pushcli\<close>, and the process it runs. \<open>c_if\<close> is the \<open>FL_IF\<close> bit of
  the processor's flags register, \<open>c_cr3\<close> its page table register and \<open>c_esp0\<close> the kernel stack
  pointer in its task state (\<open>ts.esp0\<close>).
\<close>

record cpu =
  c_id :: nat
  c_ncli :: int
  c_intena :: bool
  c_if :: bool
  c_proc :: "nat option"
  c_cr3 :: addr
  c_esp0 :: addr

record machine =
  cpu :: cpu
  locks :: "lockid \<Rightarrow> spinlock"

section \<open>Operations\<close>

definition initlock :: "lockid \<Rightarrow> string \<Rightarrow> 'm machine_scheme \<Rightarrow> 'm machine_scheme" where
  "initlock l name s =
     s\<lparr>locks := (locks s)(l := \<lparr>lk_locked = False, lk_name = name, lk_cpu = None\<rparr>)\<rparr>"

definition holding :: "lockid \<Rightarrow> 'm machine_scheme \<Rightarrow> bool" where
  "holding l s \<longleftrightarrow> lk_locked (locks s l) \<and> lk_cpu (locks s l) = Some (c_id (cpu s))"

definition pushcli :: "'m machine_scheme \<Rightarrow> 'm machine_scheme" where
  "pushcli s =
     (let eflags = c_if (cpu s);
          c = (cpu s)\<lparr>c_if := False\<rparr>;
          c' = c\<lparr>c_ncli := c_ncli c + 1\<rparr>
      in s\<lparr>cpu := (if c_ncli c = 0 then c'\<lparr>c_intena := eflags\<rparr> else c')\<rparr>)"

definition popcli :: "'m machine_scheme \<Rightarrow> (unit, 'm machine_scheme) kres" where
  "popcli s =
     (if c_if (cpu s) then Panic ''popcli - interruptible''
      else let c = (cpu s)\<lparr>c_ncli := c_ncli (cpu s) - 1\<rparr>
           in if c_ncli c < 0 then Panic ''popcli''
              else if c_ncli c = 0 \<and> c_intena c then Ret () (s\<lparr>cpu := c\<lparr>c_if := True\<rparr>\<rparr>)
              else Ret () (s\<lparr>cpu := c\<rparr>))"

text \<open>
  \<open>acquire\<close> disables interrupts first. The loop \<open>while(xchg(&lk->locked, 1) != 0)\<close> leaves
  at once when the lock is free; when another CPU has it, this CPU spins.
\<close>

definition acquire :: "lockid \<Rightarrow> 'm machine_scheme \<Rightarrow> (unit, 'm machine_scheme) kres" where
  "acquire l s =
     (let s = pushcli s
      in if holding l s then Panic ''acquire''
         else if lk_locked (locks s l) then Spins s
         else Ret () (s\<lparr>locks := (locks s)(l := (locks s l)\<lparr>lk_locked := True,
                                               lk_cpu := Some (c_id (cpu s))\<rparr>)\<rparr>))"

definition release :: "lockid \<Rightarrow> 'm machine_scheme \<Rightarrow> (unit, 'm machine_scheme) kres" where
  "release l s =
     (if \<not> holding l s then Panic ''release''
      else popcli (s\<lparr>locks := (locks s)(l := (locks s l)\<lparr>lk_locked := False,
                                                  lk_cpu := None\<rparr>)\<rparr>))"

text \<open>
  \<open>getcallerpcs\<close> follows the saved \<open>%ebp\<close> chain through memory: \<open>ldl\<close> reads the word at an
  address. It stops at a null, user or all-ones frame pointer and pads with zeros.
\<close>

fun callerpcs_from :: "(addr \<Rightarrow> uint) \<Rightarrow> nat \<Rightarrow> addr \<Rightarrow> uint list" where
  "callerpcs_from ldl 0 ebp = []"
| "callerpcs_from ldl (Suc n) ebp =
     (if ebp = 0 \<or> ebp < 0x80000000 \<or> ebp = 0xffffffff then replicate (Suc n) 0
      else ldl (ebp + 4) # callerpcs_from ldl n (ldl ebp))"

definition getcallerpcs :: "(addr \<Rightarrow> uint) \<Rightarrow> addr \<Rightarrow> uint list" where
  "getcallerpcs ldl v = callerpcs_from ldl 10 (v - 8)"

lemma length_callerpcs: "length (callerpcs_from ldl n ebp) = n"
  by (induction ldl n ebp rule: callerpcs_from.induct) auto

section \<open>The interrupt discipline\<close>

text \<open>A CPU inside at least one \<open>pushcli\<close> has interrupts off; the depth is never negative.\<close>

definition cpu_ok :: "'m machine_scheme \<Rightarrow> bool" where
  "cpu_ok s \<longleftrightarrow> 0 \<le> c_ncli (cpu s) \<and> (0 < c_ncli (cpu s) \<longrightarrow> \<not> c_if (cpu s))"

definition unlocked :: "lockid \<Rightarrow> 'm machine_scheme \<Rightarrow> bool" where
  "unlocked l s \<longleftrightarrow> \<not> lk_locked (locks s l)"

text \<open>The state \<open>acquire\<close> leaves when the lock is free, and the one \<open>release\<close> leaves.\<close>

definition take_lock :: "lockid \<Rightarrow> 'm machine_scheme \<Rightarrow> 'm machine_scheme" where
  "take_lock l s =
     (pushcli s)\<lparr>locks := (locks s)(l := (locks s l)\<lparr>lk_locked := True,
                                              lk_cpu := Some (c_id (cpu s))\<rparr>)\<rparr>"

definition drop_lock :: "lockid \<Rightarrow> 'm machine_scheme \<Rightarrow> 'm machine_scheme" where
  "drop_lock l s =
     s\<lparr>cpu := (cpu s)\<lparr>c_ncli := c_ncli (cpu s) - 1,
                     c_if := (c_ncli (cpu s) = 1 \<and> c_intena (cpu s))\<rparr>,
       locks := (locks s)(l := (locks s l)\<lparr>lk_locked := False, lk_cpu := None\<rparr>)\<rparr>"

named_theorems lock_frame \<open>what taking and dropping a lock leaves alone\<close>

lemma pushcli_locks [simp]: "locks (pushcli s) = locks s"
  by (simp add: pushcli_def Let_def)

lemma pushcli_cpu [simp]:
  "c_id (cpu (pushcli s)) = c_id (cpu s)"
  "c_ncli (cpu (pushcli s)) = c_ncli (cpu s) + 1"
  "c_if (cpu (pushcli s)) = False"
  "c_proc (cpu (pushcli s)) = c_proc (cpu s)"
  "c_intena (cpu (pushcli s)) = (if c_ncli (cpu s) = 0 then c_if (cpu s) else c_intena (cpu s))"
  by (simp_all add: pushcli_def Let_def)

lemma take_lock_simps [simp]:
  "c_id (cpu (take_lock l s)) = c_id (cpu s)"
  "c_ncli (cpu (take_lock l s)) = c_ncli (cpu s) + 1"
  "c_if (cpu (take_lock l s)) = False"
  "c_proc (cpu (take_lock l s)) = c_proc (cpu s)"
  "c_intena (cpu (take_lock l s)) = (if c_ncli (cpu s) = 0 then c_if (cpu s) else c_intena (cpu s))"
  "lk_locked (locks (take_lock l s) k) = (k = l \<or> lk_locked (locks s k))"
  "lk_cpu (locks (take_lock l s) k) = (if k = l then Some (c_id (cpu s)) else lk_cpu (locks s k))"
  by (simp_all add: take_lock_def)

lemma drop_lock_simps [simp]:
  "c_id (cpu (drop_lock l s)) = c_id (cpu s)"
  "c_ncli (cpu (drop_lock l s)) = c_ncli (cpu s) - 1"
  "c_if (cpu (drop_lock l s)) = (c_ncli (cpu s) = 1 \<and> c_intena (cpu s))"
  "c_proc (cpu (drop_lock l s)) = c_proc (cpu s)"
  "c_intena (cpu (drop_lock l s)) = c_intena (cpu s)"
  "lk_locked (locks (drop_lock l s) k) = (k \<noteq> l \<and> lk_locked (locks s k))"
  "lk_cpu (locks (drop_lock l s) k) = (if k = l then None else lk_cpu (locks s k))"
  by (simp_all add: drop_lock_def)

lemma acquire_free: "unlocked l s \<Longrightarrow> acquire l s = Ret () (take_lock l s)"
  by (simp add: acquire_def take_lock_def holding_def unlocked_def Let_def)

lemma acquire_cases:
  "acquire l s =
     (if holding l s then Panic ''acquire''
      else if lk_locked (locks s l) then Spins (pushcli s)
      else Ret () (take_lock l s))"
  by (simp add: acquire_def take_lock_def holding_def Let_def)

lemma release_held:
  "holding l s \<Longrightarrow> cpu_ok s \<Longrightarrow> 0 < c_ncli (cpu s) \<Longrightarrow> release l s = Ret () (drop_lock l s)"
  by (auto simp: release_def popcli_def drop_lock_def cpu_ok_def holding_def Let_def)

lemma acquire_Ret: "acquire l s = Ret () t \<longleftrightarrow> unlocked l s \<and> t = take_lock l s"
  by (auto simp: acquire_cases unlocked_def holding_def)

lemma release_Ret: "release l s = Ret () t \<Longrightarrow> holding l s \<and> t = drop_lock l s"
  by (auto simp: release_def popcli_def drop_lock_def Let_def split: if_splits)

lemma holding_take [simp]: "holding l (take_lock l s)"
  by (simp add: holding_def)

lemma holding_take_other [simp]: "k \<noteq> l \<Longrightarrow> holding k (take_lock l s) = holding k s"
  by (simp add: holding_def)

lemma holding_drop_other [simp]: "k \<noteq> l \<Longrightarrow> holding k (drop_lock l s) = holding k s"
  by (simp add: holding_def)

lemma unlocked_simps [simp]:
  "unlocked k (take_lock l s) \<longleftrightarrow> k \<noteq> l \<and> unlocked k s"
  "unlocked k (drop_lock l s) \<longleftrightarrow> k = l \<or> unlocked k s"
  by (auto simp: unlocked_def)

lemma cpu_ok_take [simp]: "cpu_ok s \<Longrightarrow> cpu_ok (take_lock l s)"
  by (simp add: cpu_ok_def)

lemma cpu_ok_drop [simp]: "cpu_ok s \<Longrightarrow> 0 < c_ncli (cpu s) \<Longrightarrow> cpu_ok (drop_lock l s)"
  by (auto simp: cpu_ok_def)

lemma cpu_ok_nonneg [simp]: "cpu_ok s \<Longrightarrow> 0 \<le> c_ncli (cpu s)"
  by (simp add: cpu_ok_def)

lemma release_after_acquire:
  "cpu_ok s \<Longrightarrow> unlocked l s \<Longrightarrow> release l (take_lock l s) = Ret () (drop_lock l (take_lock l s))"
  by (intro release_held) (simp_all add: cpu_ok_def)

section \<open>Several CPUs\<close>

text \<open>
  The processors of the machine share the locks; each has its own \<open>struct cpu\<close>. A step is one
  CPU completing an \<open>acquire\<close> or a \<open>release\<close>. A CPU that spins takes its step once the lock is
  free.
\<close>

record mp =
  mp_cpus :: "nat \<Rightarrow> cpu"
  mp_locks :: "lockid \<Rightarrow> spinlock"

definition on_cpu :: "nat \<Rightarrow> mp \<Rightarrow> machine" where
  "on_cpu c m = \<lparr>cpu = mp_cpus m c, locks = mp_locks m\<rparr>"

definition put_cpu :: "nat \<Rightarrow> machine \<Rightarrow> mp \<Rightarrow> mp" where
  "put_cpu c s m = \<lparr>mp_cpus = (mp_cpus m)(c := cpu s), mp_locks = locks s\<rparr>"

inductive mp_step :: "mp \<Rightarrow> mp \<Rightarrow> bool" where
  mp_acquire: "acquire l (on_cpu c m) = Ret () s \<Longrightarrow> mp_step m (put_cpu c s m)"
| mp_release: "release l (on_cpu c m) = Ret () s \<Longrightarrow> mp_step m (put_cpu c s m)"

definition mp_boot :: "mp \<Rightarrow> bool" where
  "mp_boot m \<longleftrightarrow>
     (\<forall>c. c_id (mp_cpus m c) = c \<and> c_ncli (mp_cpus m c) = 0) \<and>
     (\<forall>l. \<not> lk_locked (mp_locks m l) \<and> lk_cpu (mp_locks m l) = None)"

inductive mp_reachable :: "mp \<Rightarrow> bool" where
  mp_start: "mp_boot m \<Longrightarrow> mp_reachable m"
| mp_more: "mp_reachable m \<Longrightarrow> mp_step m m' \<Longrightarrow> mp_reachable m'"

definition held_by :: "nat \<Rightarrow> mp \<Rightarrow> lockid set" where
  "held_by c m = {l. holding l (on_cpu c m)}"

text \<open>
  The invariant: a lock is marked with an owner exactly while it is taken, and the nesting depth
  of a CPU is the number of locks it holds, during which its interrupts are off.
\<close>

definition mp_inv :: "mp \<Rightarrow> bool" where
  "mp_inv m \<longleftrightarrow>
     (\<forall>l. lk_locked (mp_locks m l) = (lk_cpu (mp_locks m l) \<noteq> None)) \<and>
     (\<forall>c. c_id (mp_cpus m c) = c \<and> finite (held_by c m) \<and>
          c_ncli (mp_cpus m c) = int (card (held_by c m)) \<and>
          (held_by c m \<noteq> {} \<longrightarrow> \<not> c_if (mp_cpus m c)))"

lemma mp_inv_id: "mp_inv m \<Longrightarrow> c_id (mp_cpus m c) = c"
  unfolding mp_inv_def by blast

lemma mp_inv_owner: "mp_inv m \<Longrightarrow> lk_locked (mp_locks m l) = (lk_cpu (mp_locks m l) \<noteq> None)"
  unfolding mp_inv_def by blast

lemma mp_inv_finite: "mp_inv m \<Longrightarrow> finite (held_by c m)"
  unfolding mp_inv_def by blast

lemma mp_inv_ncli: "mp_inv m \<Longrightarrow> c_ncli (mp_cpus m c) = int (card (held_by c m))"
  unfolding mp_inv_def by blast

lemma mp_inv_off: "mp_inv m \<Longrightarrow> held_by c m \<noteq> {} \<Longrightarrow> \<not> c_if (mp_cpus m c)"
  unfolding mp_inv_def by blast

lemma mp_invI:
  assumes "\<And>l. lk_locked (mp_locks m l) = (lk_cpu (mp_locks m l) \<noteq> None)"
    and "\<And>c. c_id (mp_cpus m c) = c" and "\<And>c. finite (held_by c m)"
    and "\<And>c. c_ncli (mp_cpus m c) = int (card (held_by c m))"
    and "\<And>c. held_by c m \<noteq> {} \<Longrightarrow> \<not> c_if (mp_cpus m c)"
  shows "mp_inv m"
  using assms unfolding mp_inv_def by blast

lemmas mp_inv_facts = mp_inv_id mp_inv_owner mp_inv_finite mp_inv_ncli

lemma put_cpu_simps [simp]:
  "mp_locks (put_cpu c s m) = locks s"
  "mp_cpus (put_cpu c s m) d = (if d = c then cpu s else mp_cpus m d)"
  by (simp_all add: put_cpu_def)

lemma on_cpu_simps [simp]:
  "cpu (on_cpu c m) = mp_cpus m c"
  "locks (on_cpu c m) = mp_locks m"
  by (simp_all add: on_cpu_def)

lemma held_by_take:
  assumes "mp_inv m" and "unlocked l (on_cpu c m)"
  shows "held_by d (put_cpu c (take_lock l (on_cpu c m)) m) =
           (if d = c then insert l (held_by c m) else held_by d m)"
  using assms(2) by (auto simp: held_by_def holding_def unlocked_def mp_inv_id [OF assms(1)])

lemma held_by_drop:
  assumes "mp_inv m" and "holding l (on_cpu c m)"
  shows "held_by d (put_cpu c (drop_lock l (on_cpu c m)) m) =
           (if d = c then held_by c m - {l} else held_by d m)"
  using assms(2) by (auto simp: held_by_def holding_def mp_inv_id [OF assms(1)])

lemma mp_inv_start: "mp_boot m \<Longrightarrow> mp_inv m"
  by (rule mp_invI) (auto simp: mp_boot_def held_by_def holding_def)

lemma mp_inv_take:
  assumes inv: "mp_inv m" and free: "unlocked l (on_cpu c m)"
  shows "mp_inv (put_cpu c (take_lock l (on_cpu c m)) m)"
proof (rule mp_invI, goal_cases owner ident fin depth off)
  case (owner k)
  show ?case using mp_inv_owner [OF inv, of k] by simp
next
  case (ident d)
  show ?case by (simp add: mp_inv_id [OF inv])
next
  case (fin d)
  show ?case by (simp add: held_by_take [OF inv free] mp_inv_finite [OF inv])
next
  case (depth d)
  have "l \<notin> held_by c m"
    using free by (simp add: held_by_def holding_def unlocked_def)
  then show ?case
    by (simp add: held_by_take [OF inv free] mp_inv_ncli [OF inv] mp_inv_finite [OF inv])
next
  case (off d)
  then show ?case using mp_inv_off [OF inv, of d] by (simp add: held_by_take [OF inv free] split: if_splits)
qed

lemma mp_inv_drop:
  assumes inv: "mp_inv m" and held: "holding l (on_cpu c m)"
  shows "mp_inv (put_cpu c (drop_lock l (on_cpu c m)) m)"
proof -
  have l: "l \<in> held_by c m"
    using held by (simp add: held_by_def)
  then have card: "card (held_by c m) = Suc (card (held_by c m - {l}))"
    by (intro card.remove mp_inv_finite [OF inv])
  show ?thesis
  proof (rule mp_invI, goal_cases owner ident fin depth off)
    case (owner k)
    show ?case using mp_inv_owner [OF inv, of k] by simp
  next
    case (ident d)
    show ?case by (simp add: mp_inv_id [OF inv])
  next
    case (fin d)
    show ?case by (simp add: held_by_drop [OF inv held] mp_inv_finite [OF inv])
  next
    case (depth d)
    show ?case by (simp add: held_by_drop [OF inv held] mp_inv_ncli [OF inv] card)
  next
    case (off d)
    then show ?case
      using mp_inv_off [OF inv, of d] mp_inv_finite [OF inv, of c]
      by (auto simp: held_by_drop [OF inv held] mp_inv_ncli [OF inv] card split: if_splits)
  qed
qed

lemma mp_step_inv: "mp_step m m' \<Longrightarrow> mp_inv m \<Longrightarrow> mp_inv m'"
  by (induction rule: mp_step.induct)
     (auto simp: acquire_Ret dest!: release_Ret intro: mp_inv_take mp_inv_drop)

lemma mp_reachable_inv: "mp_reachable m \<Longrightarrow> mp_inv m"
  by (induction rule: mp_reachable.induct) (auto intro: mp_inv_start mp_step_inv)

lemma mp_inv_cpu_ok:
  assumes "mp_inv m"
  shows "cpu_ok (on_cpu c m)"
proof (cases "held_by c m = {}")
  case True
  then show ?thesis by (simp add: cpu_ok_def mp_inv_ncli [OF assms])
next
  case False
  then show ?thesis
    using mp_inv_off [OF assms False] by (simp add: cpu_ok_def mp_inv_ncli [OF assms])
qed


definition idle_cpu :: "nat \<Rightarrow> cpu" where
  "idle_cpu c = \<lparr>c_id = c, c_ncli = 0, c_intena = False, c_if = True, c_proc = None,
                 c_cr3 = 0, c_esp0 = 0\<rparr>"

definition free_lock :: spinlock where
  "free_lock = \<lparr>lk_locked = False, lk_name = [], lk_cpu = None\<rparr>"

definition mp_example :: mp where
  "mp_example = \<lparr>mp_cpus = idle_cpu, mp_locks = (\<lambda>_. free_lock)\<rparr>"

lemma mp_example_boot: "mp_boot mp_example"
  by (simp add: mp_boot_def mp_example_def idle_cpu_def free_lock_def)

lemma mp_example_taken:
  "mp_reachable (put_cpu 0 (take_lock Kmem_lock (on_cpu 0 mp_example)) mp_example)"
  by (rule mp_more [OF mp_start [OF mp_example_boot]], rule mp_acquire [where l = Kmem_lock])
     (simp add: acquire_free unlocked_def on_cpu_def mp_example_def free_lock_def)


text \<open>
  C32. \<open>acquire\<close> followed by \<open>release\<close> is balanced: from any CPU state whose interrupts are off
  whenever it is nested, the pair returns, the lock is free again, and the nesting depth and the
  interrupt flag are what they were (so nested critical sections never switch interrupts on
  early, and the outermost one restores them).
\<close>

theorem acquire_release_balanced:
  assumes "cpu_ok s" and "unlocked l s"
  shows "returns (bind (acquire l s) (\<lambda>_ s'. release l s'))
           (\<lambda>_ t. unlocked l t \<and> c_ncli (cpu t) = c_ncli (cpu s) \<and> c_if (cpu t) = c_if (cpu s) \<and>
                  (\<forall>k. k \<noteq> l \<longrightarrow> locks t k = locks s k))"
proof -
  let ?t = "drop_lock l (take_lock l s)"
  have "locks ?t k = locks s k" if "k \<noteq> l" for k
    using that by (simp add: take_lock_def drop_lock_def)
  moreover have "unlocked l ?t \<and> c_ncli (cpu ?t) = c_ncli (cpu s) \<and> c_if (cpu ?t) = c_if (cpu s)"
    using assms(1) by (simp add: cpu_ok_def)
  moreover have "bind (acquire l s) (\<lambda>_ s'. release l s') = Ret () ?t"
    using assms by (simp add: acquire_free release_after_acquire)
  ultimately show ?thesis by simp
qed

lemma acquire_release_balanced_witness:
  "returns (bind (acquire Kmem_lock (on_cpu 0 mp_example)) (\<lambda>_ s'. release Kmem_lock s'))
     (\<lambda>_ t. c_if (cpu t))"
proof -
  have ok: "cpu_ok (on_cpu 0 mp_example)" and free: "unlocked Kmem_lock (on_cpu 0 mp_example)"
    by (simp_all add: cpu_ok_def unlocked_def mp_example_def idle_cpu_def free_lock_def)
  have on: "c_if (cpu (on_cpu 0 mp_example))"
    by (simp add: mp_example_def idle_cpu_def)
  show ?thesis
    by (rule returns_mono [OF acquire_release_balanced [OF ok free]]) (use on in blast)
qed

end
