(* ===== verification/Strings.thy ===== *)
theory Strings
  imports Prelude
begin

text \<open>
  Memory and the routines of \<open>string.c\<close>. Byte-addressed memory is a function from addresses;
  a word in memory is little-endian. \<open>memset\<close> and \<open>memmove\<close> are modelled on memory, with
  their two paths each, and proved equal to a plain fill and to a copy of the old contents. The
  routines on character arrays take the array from the pointer on as a list of bytes; an access
  past its end is undefined and gives \<open>None\<close>.
\<close>

section \<open>Memory\<close>

type_synonym memory = "addr \<Rightarrow> byte"

definition load32 :: "memory \<Rightarrow> addr \<Rightarrow> uint" where
  "load32 m a = ucast (m a) OR push_bit 8 (ucast (m (a + 1)))
     OR push_bit 16 (ucast (m (a + 2))) OR push_bit 24 (ucast (m (a + 3)))"

definition store32 :: "memory \<Rightarrow> addr \<Rightarrow> uint \<Rightarrow> memory" where
  "store32 m a v = m(a := ucast v, a + 1 := ucast (drop_bit 8 v),
     a + 2 := ucast (drop_bit 16 v), a + 3 := ucast (drop_bit 24 v))"

lemma word_of_bytes:
  "ucast (ucast v :: byte) OR push_bit 8 (ucast (ucast (drop_bit 8 v) :: byte))
     OR push_bit 16 (ucast (ucast (drop_bit 16 v) :: byte))
     OR push_bit 24 (ucast (ucast (drop_bit 24 v) :: byte)) = (v :: uint)"
proof (rule bit_word_eqI)
  fix n assume "n < LENGTH(32)"
  then show "bit (ucast (ucast v :: byte) OR push_bit 8 (ucast (ucast (drop_bit 8 v) :: byte))
     OR push_bit 16 (ucast (ucast (drop_bit 16 v) :: byte))
     OR push_bit 24 (ucast (ucast (drop_bit 24 v) :: byte)) :: uint) n = bit v n"
    by (cases "n < 8"; cases "n < 16"; cases "n < 24") (auto simp: bit_simps)
qed

lemma load32_store32 [simp]: "load32 (store32 m a v) a = v"
  by (simp add: load32_def store32_def word_of_bytes)

section \<open>Filling memory\<close>

text \<open>\<open>rep stosb\<close> and \<open>rep stosl\<close> (\<open>x86.h\<close>) as the loops the processor runs.\<close>

fun stosb :: "memory \<Rightarrow> addr \<Rightarrow> byte \<Rightarrow> nat \<Rightarrow> memory" where
  "stosb m a d 0 = m"
| "stosb m a d (Suc n) = stosb (m(a := d)) (a + 1) d n"

fun stosl :: "memory \<Rightarrow> addr \<Rightarrow> uint \<Rightarrow> nat \<Rightarrow> memory" where
  "stosl m a d 0 = m"
| "stosl m a d (Suc n) = stosl (store32 m a d) (a + 4) d n"

definition memset :: "memory \<Rightarrow> addr \<Rightarrow> uint \<Rightarrow> uint \<Rightarrow> memory" where
  "memset m dst c n =
     (if dst mod 4 = 0 \<and> n mod 4 = 0
      then let c = c AND 0xFF
           in stosl m dst (push_bit 24 c OR push_bit 16 c OR push_bit 8 c OR c) (unat (n div 4))
      else stosb m dst (ucast c) (unat n))"

definition mem_fill :: "memory \<Rightarrow> addr \<Rightarrow> byte \<Rightarrow> nat \<Rightarrow> memory" where
  "mem_fill m dst c n = (\<lambda>x. if unat (x - dst) < n then c else m x)"

lemma unat_diff_Suc:
  fixes x a :: addr
  shows "unat (x - a) < Suc n \<longleftrightarrow> x = a \<or> unat (x - (a + 1)) < n"
proof (cases "x = a")
  case False
  then have "x - a \<noteq> 0" by simp
  then have "unat (x - a - 1) = unat (x - a) - 1" and "0 < unat (x - a)"
    by (simp_all add: unat_minus_one unat_gt_0)
  then show ?thesis using False by (simp add: diff_diff_add) arith
qed simp

lemma mem_fill_Suc:
  "n < 2 ^ 32 \<Longrightarrow> mem_fill (m(a := c)) (a + 1) c n = mem_fill m a c (Suc n)"
  by (auto simp: mem_fill_def fun_eq_iff unat_diff_Suc)

lemma mem_fill_0 [simp]: "mem_fill m a c 0 = m"
  by (simp add: mem_fill_def)

lemma stosb_fill: "n < 2 ^ 32 \<Longrightarrow> stosb m a d n = mem_fill m a d n"
proof (induction n arbitrary: m a)
  case (Suc n)
  then have "stosb m a d (Suc n) = mem_fill (m(a := d)) (a + 1) d n" by simp
  then show ?case using Suc.prems by (simp add: mem_fill_Suc)
qed simp

lemma stosb_add: "stosb m a d (k + n) = stosb (stosb m a d k) (a + of_nat k) d n"
  by (induction k arbitrary: m a) (simp_all add: algebra_simps)

lemma low_byte_mask: "(0xFF :: uint) = mask 8"
  by (simp add: mask_eq_exp_minus_1)

lemma repeated_byte:
  fixes c :: uint
  assumes "k < 4"
  shows "(ucast (drop_bit (8 * k) (push_bit 24 (c AND 0xFF) OR push_bit 16 (c AND 0xFF)
            OR push_bit 8 (c AND 0xFF) OR (c AND 0xFF))) :: byte) = ucast c"
proof -
  have "k = 0 \<or> k = 1 \<or> k = 2 \<or> k = 3" using assms by arith
  then show ?thesis
    by (elim disjE) (auto intro!: bit_word_eqI simp: bit_simps low_byte_mask)
qed

lemma store32_same_bytes:
  fixes c :: uint
  shows "store32 m a (push_bit 24 (c AND 0xFF) OR push_bit 16 (c AND 0xFF)
           OR push_bit 8 (c AND 0xFF) OR (c AND 0xFF)) = stosb m a (ucast c) 4"
  using repeated_byte [of 0 c] repeated_byte [of 1 c] repeated_byte [of 2 c] repeated_byte [of 3 c]
  by (simp add: store32_def numeral_eq_Suc add.assoc)

lemma stosl_stosb:
  fixes c :: uint
  defines "w \<equiv> push_bit 24 (c AND 0xFF) OR push_bit 16 (c AND 0xFF) OR push_bit 8 (c AND 0xFF)
                OR (c AND 0xFF)"
  shows "stosl m a w n = stosb m a (ucast c) (4 * n)"
proof (induction n arbitrary: m a)
  case (Suc n)
  have "store32 m a w = stosb m a (ucast c) 4"
    unfolding w_def by (rule store32_same_bytes)
  then have "stosl m a w (Suc n) = stosb (stosb m a (ucast c) 4) (a + 4) (ucast c) (4 * n)"
    by (simp add: Suc.IH)
  also have "\<dots> = stosb m a (ucast c) (4 + 4 * n)"
    by (simp only: stosb_add) simp
  finally show ?case by simp
qed simp

lemma unat_div_mod_4:
  fixes n :: uint
  assumes "n mod 4 = 0"
  shows "4 * unat (n div 4) = unat n"
proof -
  have "unat n mod 4 = 0" using assms using unat_mod_distrib [of n 4] by simp
  then show ?thesis by (simp add: unat_div_distrib) arith
qed

text \<open>
  C34. \<open>memset\<close> stores the low byte of \<open>c\<close> into each of the \<open>n\<close> bytes from \<open>dst\<close> on and leaves all
  other memory alone, whichever of its two paths (four bytes at a time, or one) it takes.
\<close>

theorem memset_fills: "memset m dst c n = mem_fill m dst (ucast c) (unat n)"
proof -
  have n: "unat n < 2 ^ 32" using unsigned_less [of n] by simp
  show ?thesis
  proof (cases "dst mod 4 = 0 \<and> n mod 4 = 0")
    case True
    then have "memset m dst c n = stosb m dst (ucast c) (4 * unat (n div 4))"
      unfolding memset_def Let_def by (simp only: stosl_stosb) simp
    then show ?thesis using True n by (simp add: unat_div_mod_4 stosb_fill)
  next
    case False
    then have "memset m dst c n = stosb m dst (ucast c) (unat n)"
      unfolding memset_def by (rule if_not_P)
    then show ?thesis using n by (simp add: stosb_fill)
  qed
qed

section \<open>Moving memory\<close>

fun move_fwd :: "memory \<Rightarrow> addr \<Rightarrow> addr \<Rightarrow> nat \<Rightarrow> memory" where
  "move_fwd m d s 0 = m"
| "move_fwd m d s (Suc n) = move_fwd (m(d := m s)) (d + 1) (s + 1) n"

fun move_back :: "memory \<Rightarrow> addr \<Rightarrow> addr \<Rightarrow> nat \<Rightarrow> memory" where
  "move_back m d s 0 = m"
| "move_back m d s (Suc n) = move_back (m(d - 1 := m (s - 1))) (d - 1) (s - 1) n"

definition memmove :: "memory \<Rightarrow> addr \<Rightarrow> addr \<Rightarrow> uint \<Rightarrow> memory" where
  "memmove m dst src n =
     (if src < dst \<and> src + n > dst then move_back m (dst + n) (src + n) (unat n)
      else move_fwd m dst src (unat n))"

text \<open>\<open>memcpy\<close> exists to placate GCC.\<close>

definition memcpy :: "memory \<Rightarrow> addr \<Rightarrow> addr \<Rightarrow> uint \<Rightarrow> memory" where
  "memcpy m dst src n = memmove m dst src n"

definition mem_copy :: "memory \<Rightarrow> addr \<Rightarrow> addr \<Rightarrow> nat \<Rightarrow> memory" where
  "mem_copy m dst src n = (\<lambda>x. if unat (x - dst) < n then m (src + (x - dst)) else m x)"

lemma move_fwd_copy:
  assumes "n < 2 ^ 32" and "d = s \<or> n \<le> unat (d - s)"
  shows "move_fwd m d s n = mem_copy m d s n"
  using assms
proof (induction n arbitrary: m d s)
  case (Suc n)
  let ?m = "m(d := m s)"
  have "d + 1 = s + 1 \<or> n \<le> unat (d + 1 - (s + 1))"
    using Suc.prems(2) by auto
  then have "move_fwd m d s (Suc n) = mem_copy ?m (d + 1) (s + 1) n"
    unfolding move_fwd.simps using Suc.prems(1) by (intro Suc.IH) auto
  also have "\<dots> = mem_copy m d s (Suc n)"
  proof (rule ext)
    fix x show "mem_copy ?m (d + 1) (s + 1) n x = mem_copy m d s (Suc n) x"
    proof (cases "x = d")
      case True
      have "unat (- 1 :: addr) = 2 ^ 32 - 1"
        by (simp add: unsigned_minus_1_eq_mask mask_eq_exp_minus_1)
      then show ?thesis using True Suc.prems(1) by (simp add: mem_copy_def)
    next
      case False
      have "s + (x - d) \<noteq> d" if "unat (x - (d + 1)) < n"
      proof
        assume "s + (x - d) = d"
        then have e: "x - d = d - s" by (simp add: algebra_simps)
        then have "d \<noteq> s" using False by auto
        then have "Suc n \<le> unat (x - d)" using Suc.prems(2) e by simp
        then show False using that unat_diff_Suc [of x d n] False by simp
      qed
      then show ?thesis using False by (simp add: mem_copy_def unat_diff_Suc)
    qed
  qed
  finally show ?case .
qed (simp add: mem_copy_def)

lemma unat_of_nat_lt: "n < 2 ^ 32 \<Longrightarrow> unat (of_nat n :: addr) = n"
  by (simp add: unat_of_nat)

lemma unat_diff_last:
  fixes x a :: addr
  assumes "n < 2 ^ 32"
  shows "unat (x - a) < Suc n \<longleftrightarrow> x = a + of_nat n \<or> unat (x - a) < n"
proof -
  have "unat (x - a) = n \<longleftrightarrow> x - a = of_nat n"
    using assms by (simp add: word_unat_eq_iff unat_of_nat_lt)
  then show ?thesis by (auto simp: less_Suc_eq algebra_simps)
qed

lemma move_back_copy:
  assumes "n < 2 ^ 32" and "d = s \<or> n \<le> unat (s - d)"
  shows "move_back m d s n = mem_copy m (d - of_nat n) (s - of_nat n) n"
  using assms
proof (induction n arbitrary: m d s)
  case (Suc n)
  let ?m = "m(d - 1 := m (s - 1))" and ?D = "d - 1 - of_nat n" and ?S = "s - 1 - of_nat n"
  have n: "n < 2 ^ 32" using Suc.prems(1) by simp
  have "move_back m d s (Suc n) = mem_copy ?m ?D ?S n"
    unfolding move_back.simps using Suc.prems by (intro Suc.IH) auto
  also have "\<dots> = mem_copy m ?D ?S (Suc n)"
  proof (rule ext)
    fix x show "mem_copy ?m ?D ?S n x = mem_copy m ?D ?S (Suc n) x"
    proof (cases "x = d - 1")
      case True
      then have "unat (x - ?D) = n" and "?S + (x - ?D) = s - 1"
        using n by (simp_all add: unat_of_nat_lt)
      then show ?thesis using True by (simp add: mem_copy_def)
    next
      case False
      have "?S + (x - ?D) \<noteq> d - 1" if k: "unat (x - ?D) < n"
      proof
        assume "?S + (x - ?D) = d - 1"
        then have e: "x - ?D = of_nat n - (s - d)" by (simp add: algebra_simps)
        then have "s \<noteq> d" using False by (auto simp: algebra_simps)
        then have "Suc n \<le> unat (s - d)" using Suc.prems(2) by simp
        moreover have "s - d = of_nat n - (x - ?D)" using e by (simp add: algebra_simps)
        moreover have "unat (of_nat n - (x - ?D)) = n - unat (x - ?D)"
          using k n by (subst unat_sub) (simp_all add: word_le_nat_alt unat_of_nat_lt)
        ultimately show False by simp
      qed
      then show ?thesis using False n by (simp add: mem_copy_def unat_diff_last algebra_simps)
    qed
  qed
  finally show ?case by (simp add: algebra_simps)
qed (simp add: mem_copy_def)

text \<open>
  C35. \<open>memmove\<close> copies correctly also between overlapping regions: with neither region running
  past the end of the address space, afterwards the \<open>n\<close> bytes at \<open>dst\<close> are the bytes that were at
  \<open>src\<close> before the call, and nothing else changed.
\<close>

theorem memmove_copies:
  assumes "unat src + unat n < 2 ^ 32" and "unat dst + unat n < 2 ^ 32"
  shows "memmove m dst src n = mem_copy m dst src (unat n)"
proof (cases "src < dst \<and> src + n > dst")
  case True
  have "unat (src - dst) = unat src + 2 ^ 32 - unat dst"
    using True by (subst unat_sub_if_size) (auto simp: word_less_nat_alt word_size word_le_nat_alt)
  then have "unat n \<le> unat (src - dst)" using assms by simp
  then show ?thesis
    using True assms(1) by (simp add: memmove_def move_back_copy)
next
  case False
  have "dst = src \<or> unat n \<le> unat (dst - src)"
  proof (cases "src < dst")
    case True
    then have "unat (src + n) \<le> unat dst" using False by (simp add: word_le_nat_alt not_less)
    then have "unat src + unat n \<le> unat dst" using assms(1) by (simp add: unat_add_no_wrap)
    then have "unat n \<le> unat (dst - src)" using True by (subst unat_sub) auto
    then show ?thesis ..
  next
    case ge: False
    show ?thesis
    proof (cases "dst = src")
      case neq: False
      then have "unat (dst - src) = unat dst + 2 ^ 32 - unat src"
        using ge by (subst unat_sub_if_size)
          (auto simp: word_less_nat_alt word_size word_le_nat_alt word_unat_eq_iff)
      then have "unat n \<le> unat (dst - src)" using assms by simp
      then show ?thesis ..
    qed simp
  qed
  then have "move_fwd m dst src (unat n) = mem_copy m dst src (unat n)"
    using assms(1) by (intro move_fwd_copy) auto
  then show ?thesis using False by (auto simp: memmove_def)
qed

lemma memmove_copies_witness:
  "memmove (\<lambda>a. ucast a) 0x102 0x100 4 = mem_copy (\<lambda>a. ucast a) 0x102 0x100 (unat (4 :: uint))"
  by (rule memmove_copies) simp_all

section \<open>Character arrays\<close>

text \<open>
  A pointer into an array is the rest of the array. \<open>cstr\<close> is the string it denotes: the bytes
  before the first NUL.
\<close>

definition cstr :: "byte list \<Rightarrow> byte list" where
  "cstr p = takeWhile (\<lambda>c. c \<noteq> 0) p"

fun memcmp :: "byte list \<Rightarrow> byte list \<Rightarrow> nat \<Rightarrow> int option" where
  "memcmp s1 s2 0 = Some 0"
| "memcmp (a # s1) (b # s2) (Suc n) =
     (if a \<noteq> b then Some (uint a - uint b) else memcmp s1 s2 n)"
| "memcmp s1 s2 (Suc n) = None"

fun strncmp :: "byte list \<Rightarrow> byte list \<Rightarrow> nat \<Rightarrow> int option" where
  "strncmp p q 0 = Some 0"
| "strncmp (a # p) (b # q) (Suc n) =
     (if a \<noteq> 0 \<and> a = b then strncmp p q n else Some (uint a - uint b))"
| "strncmp p q (Suc n) = None"

text \<open>\<open>strncpy\<close> and \<open>safestrcpy\<close> return the new contents of the destination array.\<close>

fun strncpy_pad :: "byte list \<Rightarrow> nat \<Rightarrow> byte list option" where
  "strncpy_pad s 0 = Some s"
| "strncpy_pad (x # s) (Suc n) = map_option ((#) 0) (strncpy_pad s n)"
| "strncpy_pad [] (Suc n) = None"

fun strncpy :: "byte list \<Rightarrow> byte list \<Rightarrow> nat \<Rightarrow> byte list option" where
  "strncpy s t 0 = Some s"
| "strncpy (x # s) (c # t) (Suc n) =
     map_option ((#) c) (if c \<noteq> 0 then strncpy s t n else strncpy_pad s n)"
| "strncpy s t (Suc n) = None"

fun safestrcpy_loop :: "byte list \<Rightarrow> byte list \<Rightarrow> nat \<Rightarrow> byte list option" where
  "safestrcpy_loop (x # s) t 0 = Some (0 # s)"
| "safestrcpy_loop (x # s) (c # t) (Suc n) =
     (if c \<noteq> 0 then map_option ((#) c) (safestrcpy_loop s t n)
      else (case s of [] \<Rightarrow> None | y # s' \<Rightarrow> Some (c # 0 # s')))"
| "safestrcpy_loop s t n = None"

definition safestrcpy :: "byte list \<Rightarrow> byte list \<Rightarrow> int \<Rightarrow> byte list option" where
  "safestrcpy s t n = (if n \<le> 0 then Some s else safestrcpy_loop s t (nat (n - 1)))"

fun strlen :: "byte list \<Rightarrow> nat option" where
  "strlen [] = None"
| "strlen (c # s) = (if c = 0 then Some 0 else map_option Suc (strlen s))"

lemma memcmp_zero:
  "n \<le> length p \<Longrightarrow> n \<le> length q \<Longrightarrow> memcmp p q n = Some 0 \<longleftrightarrow> take n p = take n q"
  by (induction p q n rule: memcmp.induct) (auto simp: word_uint_eq_iff)

lemma strncmp_zero:
  "n \<le> length p \<Longrightarrow> n \<le> length q \<Longrightarrow>
   strncmp p q n = Some 0 \<longleftrightarrow> cstr (take n p) = cstr (take n q)"
  by (induction p q n rule: strncmp.induct) (auto simp: cstr_def word_uint_eq_iff)

lemma strncmp_defined:
  "n \<le> length p \<Longrightarrow> n \<le> length q \<Longrightarrow> \<exists>r. strncmp p q n = Some r"
  by (induction p q n rule: strncmp.induct) auto

lemma strncpy_pad_result: "n \<le> length s \<Longrightarrow> strncpy_pad s n = Some (replicate n 0 @ drop n s)"
  by (induction s n rule: strncpy_pad.induct) auto

lemma strncpy_result:
  assumes "n \<le> length s" and "n \<le> length t \<or> 0 \<in> set t"
  shows "strncpy s t n =
    Some (take n (cstr t) @ replicate (n - length (cstr t)) 0 @ drop n s)"
  using assms
  by (induction s t n rule: strncpy.induct) (auto simp: strncpy_pad_result cstr_def)

lemma safestrcpy_loop_result:
  assumes "n < length s" and "n \<le> length t \<or> 0 \<in> set t"
  shows "\<exists>s'. safestrcpy_loop s t n = Some s' \<and> length s' = length s \<and>
              cstr s' = take n (cstr t) \<and> 0 \<in> set (take (Suc n) s') \<and>
              drop (Suc n) s' = drop (Suc n) s"
  using assms
proof (induction s t n rule: safestrcpy_loop.induct)
  case (2 x s c t n)
  show ?case
  proof (cases "c = 0")
    case True
    with 2 show ?thesis by (cases s) (auto simp: cstr_def)
  next
    case False
    with 2 obtain s' where "safestrcpy_loop s t n = Some s'" "length s' = length s"
      "cstr s' = take n (cstr t)" "0 \<in> set (take (Suc n) s')" "drop (Suc n) s' = drop (Suc n) s"
      by auto
    with False show ?thesis by (auto simp: cstr_def)
  qed
qed (auto simp: cstr_def)

lemma strlen_cstr: "strlen s = (if 0 \<in> set s then Some (length (cstr s)) else None)"
  by (induction s) (auto simp: cstr_def)

text \<open>
  C36. The string comparison the directory code relies on: on arrays of at least \<open>n\<close> bytes,
  \<open>strncmp\<close> reads inside both arrays and returns zero exactly when the strings they hold, cut at
  \<open>n\<close> bytes, are equal (what follows a NUL does not count).
\<close>

theorem strncmp_compares_strings:
  assumes "n \<le> length p" and "n \<le> length q"
  shows "\<exists>r. strncmp p q n = Some r \<and> (r = 0 \<longleftrightarrow> cstr (take n p) = cstr (take n q))"
  using strncmp_defined [OF assms] strncmp_zero [OF assms] by fastforce

lemma strncmp_compares_strings_witness:
  "\<exists>r. strncmp [97, 0, 5] [97, 0, 6] 3 = Some r \<and>
       (r = 0 \<longleftrightarrow> cstr (take 3 [97, 0, 5]) = cstr (take 3 [97, 0, 6]))"
  by (rule strncmp_compares_strings) simp_all

text \<open>
  C37. \<open>safestrcpy\<close> into an array of at least \<open>n > 0\<close> bytes, from a string that is NUL-terminated
  or at least \<open>n - 1\<close> bytes long, always leaves a NUL among the first \<open>n\<close> bytes, stores the longest
  prefix of the source that fits, and writes nothing beyond \<open>n\<close> bytes.
\<close>

theorem safestrcpy_terminates_string:
  assumes "0 < n" and "nat n \<le> length s" and "nat (n - 1) \<le> length t \<or> 0 \<in> set t"
  shows "\<exists>s'. safestrcpy s t n = Some s' \<and> length s' = length s \<and>
              cstr s' = take (nat (n - 1)) (cstr t) \<and> 0 \<in> set (take (nat n) s') \<and>
              drop (nat n) s' = drop (nat n) s"
proof -
  have "nat (n - 1) < length s" and "Suc (nat (n - 1)) = nat n"
    using assms by auto
  then show ?thesis
    using safestrcpy_loop_result [of "nat (n - 1)" s t] assms by (auto simp: safestrcpy_def)
qed

lemma safestrcpy_terminates_string_witness:
  "\<exists>s'. safestrcpy (replicate 4 7) [97, 98, 99, 100, 101, 0] 4 = Some s' \<and> length s' = 4 \<and>
        cstr s' = [97, 98, 99]"
  using safestrcpy_terminates_string [of 4 "replicate 4 7" "[97, 98, 99, 100, 101, 0]"]
  by (auto simp: cstr_def)

end
