(* ===== verification/Kalloc.thy ===== *)
theory Kalloc
  imports Spinlock Strings
begin

text \<open>
  The physical page allocator (\<open>kalloc.c\<close>). The free list is threaded through the free pages
  themselves: the first word of a free page is the address of the next one. The model keeps that
  representation in byte memory; \<open>kmem_rep\<close> relates it to the list of free pages, and the locale
  \<open>page_allocator\<close> states what the rest of the kernel relies on.
\<close>

section \<open>State\<close>

text \<open>
  \<open>kmem\<close> and the memory it manages. \<open>k_end\<close> is the linker's symbol \<open>end\<close>, the first address
  after the kernel image.
\<close>

record kmem_state = machine +
  mem :: memory
  k_use_lock :: bool
  k_freelist :: addr
  k_end :: addr

abbreviation PGSIZE :: uint where "PGSIZE \<equiv> 4096"
abbreviation PHYSTOP :: uint where "PHYSTOP \<equiv> 0xE000000"
abbreviation KERNBASE :: uint where "KERNBASE \<equiv> 0x80000000"

definition v2p :: "addr \<Rightarrow> uint" where
  "v2p a = a - KERNBASE"

definition p2v :: "uint \<Rightarrow> addr" where
  "p2v a = a + KERNBASE"

definition PGROUNDUP :: "uint \<Rightarrow> uint" where
  "PGROUNDUP sz = (sz + PGSIZE - 1) AND NOT (PGSIZE - 1)"

definition PGROUNDDOWN :: "uint \<Rightarrow> uint" where
  "PGROUNDDOWN a = a AND NOT (PGSIZE - 1)"

section \<open>Operations\<close>

definition kfree :: "addr \<Rightarrow> 'm kmem_state_scheme \<Rightarrow> (unit, 'm kmem_state_scheme) kres" where
  "kfree v s =
     (if v mod PGSIZE \<noteq> 0 \<or> v < k_end s \<or> v2p v \<ge> PHYSTOP then Panic ''kfree''
      else let s = s\<lparr>mem := memset (mem s) v 1 PGSIZE\<rparr>
           in bind (if k_use_lock s then acquire Kmem_lock s else Ret () s) (\<lambda>_ s.
              let s = s\<lparr>mem := store32 (mem s) v (k_freelist s), k_freelist := v\<rparr>
              in if k_use_lock s then release Kmem_lock s else Ret () s))"

definition kalloc :: "'m kmem_state_scheme \<Rightarrow> (addr, 'm kmem_state_scheme) kres" where
  "kalloc s =
     bind (if k_use_lock s then acquire Kmem_lock s else Ret () s) (\<lambda>_ s.
     let r = k_freelist s;
         s = (if r \<noteq> 0 then s\<lparr>k_freelist := load32 (mem s) r\<rparr> else s)
     in bind (if k_use_lock s then release Kmem_lock s else Ret () s) (\<lambda>_ s.
        Ret r s))"

section \<open>Pages\<close>

definition page_ok :: "addr \<Rightarrow> addr \<Rightarrow> bool" where
  "page_ok e v \<longleftrightarrow> v mod PGSIZE = 0 \<and> e \<le> v \<and> v2p v < PHYSTOP"

lemma page_ok_range:
  assumes "page_ok e v"
  shows "unat v mod 4096 = 0" and "0x80000000 \<le> unat v" and "unat v < 0x8E000000"
proof -
  have "unat (v mod PGSIZE) = 0" using assms by (simp add: page_ok_def)
  then show "unat v mod 4096 = 0" by (simp add: unat_mod_distrib)
  have less: "unat (v2p v) < 0xE000000" using assms by (simp add: page_ok_def word_less_nat_alt)
  have "unat v < 2 ^ 32" using unsigned_less [of v] by simp
  moreover have "unat (v2p v) =
      (if 0x80000000 \<le> unat v then unat v - 0x80000000 else unat v + 2 ^ 32 - 0x80000000)"
    unfolding v2p_def by (subst unat_sub_if_size) (simp add: word_le_nat_alt word_size)
  ultimately show "0x80000000 \<le> unat v" and "unat v < 0x8E000000"
    using less by (auto split: if_splits)
qed

lemma page_ok_nonzero: "page_ok e v \<Longrightarrow> v \<noteq> 0"
  using page_ok_range(2) [of e v] by auto

text \<open>An address inside a page determines the page.\<close>

lemma page_offset:
  fixes v :: addr
  assumes "unat v mod 4096 = 0" and "i < 4096"
  shows "unat (v + of_nat i) = unat v + i"
proof -
  have "unat v < 4294967296" using unsigned_less [of v] by simp
  moreover obtain k where k: "unat v = 4096 * k"
    using assms(1) by (metis dvd_def mod_0_imp_dvd)
  ultimately have "unat v + 4096 \<le> 4294967296" by simp
  moreover have "unat (of_nat i :: addr) = i"
    using assms(2) by (intro unat_of_nat_lt) simp
  ultimately show ?thesis using assms(2) by (simp add: unat_word_ariths)
qed

lemma page_disjoint:
  fixes v w :: addr
  assumes "unat v mod 4096 = 0" and "unat w mod 4096 = 0" and "v \<noteq> w" and "i < 4096" and "j < 4096"
  shows "v + of_nat i \<noteq> w + of_nat j"
proof
  assume "v + of_nat i = w + of_nat j"
  then have "unat v + i = unat w + j"
    using page_offset [OF assms(1,4)] page_offset [OF assms(2,5)] by metis
  then have "(unat v + i) div 4096 = (unat w + j) div 4096" by simp
  then have "unat v div 4096 = unat w div 4096" using assms(1,2,4,5) by (simp add: div_add1_eq)
  then have "unat v = unat w" using assms(1,2) by (metis mod_0_imp_dvd dvd_div_eq_iff)
  then show False using assms(3) by (simp add: word_unat_eq_iff)
qed

lemma load32_other_page:
  assumes "unat v mod 4096 = 0" and "unat w mod 4096 = 0" and "v \<noteq> w"
    and "\<And>x. (\<forall>j<4096. x \<noteq> w + of_nat j) \<Longrightarrow> m' x = m x"
  shows "load32 m' v = load32 m v"
proof -
  have "m' (v + of_nat i) = m (v + of_nat i)" if "i < 4" for i
    using page_disjoint [OF assms(1,2,3), of i] that by (intro assms(4)) simp
  from this [of 0] this [of 1] this [of 2] this [of 3] show ?thesis
    by (simp add: load32_def)
qed

lemma store32_outside:
  assumes "\<forall>j<4096. x \<noteq> w + of_nat j"
  shows "store32 m w v x = m x"
proof -
  have "x \<noteq> w + of_nat j" if "j < 4" for j :: nat
    using assms that by simp
  from this [of 0] this [of 1] this [of 2] this [of 3] show ?thesis
    by (simp add: store32_def)
qed

lemma memset_outside:
  assumes "\<forall>j<4096. x \<noteq> w + of_nat j"
  shows "memset m w c PGSIZE x = m x"
proof -
  have "\<not> unat (x - w) < 4096"
  proof
    assume "unat (x - w) < 4096"
    then have "x \<noteq> w + of_nat (unat (x - w))" using assms by blast
    then show False by simp
  qed
  then show ?thesis by (simp add: memset_fills mem_fill_def)
qed

section \<open>The free list\<close>

fun chain :: "memory \<Rightarrow> addr \<Rightarrow> addr list \<Rightarrow> bool" where
  "chain m p [] \<longleftrightarrow> p = 0"
| "chain m p (x # xs) \<longleftrightarrow> p = x \<and> x \<noteq> 0 \<and> chain m (load32 m x) xs"

definition kmem_rep :: "'m kmem_state_scheme \<Rightarrow> addr list \<Rightarrow> bool" where
  "kmem_rep s ps \<longleftrightarrow>
     cpu_ok s \<and> (k_use_lock s \<longrightarrow> unlocked Kmem_lock s) \<and>
     chain (mem s) (k_freelist s) ps \<and> distinct ps \<and> (\<forall>p\<in>set ps. page_ok (k_end s) p)"

lemma chain_cong: "(\<And>x. x \<in> set xs \<Longrightarrow> load32 m' x = load32 m x) \<Longrightarrow> chain m' p xs = chain m p xs"
  by (induction xs arbitrary: p) auto

lemma lock_frame_kmem [simp]:
  "mem (take_lock l s) = mem s" "k_use_lock (take_lock l s) = k_use_lock s"
  "k_freelist (take_lock l s) = k_freelist s" "k_end (take_lock l s) = k_end s"
  "mem (drop_lock l s) = mem s" "k_use_lock (drop_lock l s) = k_use_lock s"
  "k_freelist (drop_lock l s) = k_freelist s" "k_end (drop_lock l s) = k_end s"
  by (simp_all add: take_lock_def drop_lock_def pushcli_def Let_def)

lemma kmem_rep_unlock:
  "kmem_rep (drop_lock Kmem_lock s) ps \<longleftrightarrow>
     cpu_ok (drop_lock Kmem_lock s) \<and> chain (mem s) (k_freelist s) ps \<and> distinct ps \<and>
     (\<forall>p\<in>set ps. page_ok (k_end s) p)"
  by (simp add: kmem_rep_def)

lemma release_kmem:
  "cpu_ok s \<Longrightarrow> unlocked Kmem_lock s \<Longrightarrow>
   release Kmem_lock ((take_lock Kmem_lock s)\<lparr>k_freelist := x\<rparr>) =
     Ret () (drop_lock Kmem_lock ((take_lock Kmem_lock s)\<lparr>k_freelist := x\<rparr>))"
  by (intro release_held) (simp_all add: holding_def cpu_ok_def)

lemma release_kmem_mem:
  "cpu_ok s \<Longrightarrow> unlocked Kmem_lock s \<Longrightarrow>
   release Kmem_lock ((take_lock Kmem_lock s)\<lparr>mem := m, k_freelist := x\<rparr>) =
     Ret () (drop_lock Kmem_lock ((take_lock Kmem_lock s)\<lparr>mem := m, k_freelist := x\<rparr>))"
  by (intro release_held) (simp_all add: holding_def cpu_ok_def)

lemma cpu_ok_update [simp]:
  "cpu_ok (s\<lparr>mem := m\<rparr>) = cpu_ok s" "cpu_ok (s\<lparr>k_freelist := x\<rparr>) = cpu_ok s"
  "unlocked l (s\<lparr>mem := m\<rparr>) = unlocked l s" "unlocked l (s\<lparr>k_freelist := x\<rparr>) = unlocked l s"
  by (simp_all add: cpu_ok_def unlocked_def)

lemma kalloc_Cons:
  assumes "kmem_rep s (p # ps)"
  shows "returns (kalloc s) (\<lambda>r s'. r = p \<and> kmem_rep s' ps \<and> mem s' = mem s \<and> k_end s' = k_end s \<and>
           kmem_state.more s' = kmem_state.more s)"
proof -
  have p: "k_freelist s = p" "p \<noteq> 0" and ok: "cpu_ok s"
    using assms by (simp_all add: kmem_rep_def)
  show ?thesis
  proof (cases "k_use_lock s")
    case True
    then have "unlocked Kmem_lock s" using assms by (simp add: kmem_rep_def)
    with True p ok show ?thesis
      using assms
      by (simp add: kalloc_def Let_def acquire_free release_kmem kmem_rep_unlock)
         (simp add: kmem_rep_def take_lock_def drop_lock_def pushcli_def Let_def)
  next
    case False
    with p ok assms show ?thesis by (simp add: kalloc_def Let_def kmem_rep_def)
  qed
qed

lemma kalloc_Nil:
  assumes "kmem_rep s []"
  shows "returns (kalloc s) (\<lambda>r s'. r = 0 \<and> kmem_rep s' [] \<and> mem s' = mem s \<and> k_end s' = k_end s \<and>
           kmem_state.more s' = kmem_state.more s)"
proof -
  have p: "k_freelist s = 0" and ok: "cpu_ok s"
    using assms by (simp_all add: kmem_rep_def)
  show ?thesis
  proof (cases "k_use_lock s")
    case True
    then have "unlocked Kmem_lock s" using assms by (simp add: kmem_rep_def)
    with True p ok show ?thesis
      using assms
      by (simp add: kalloc_def Let_def acquire_free release_after_acquire kmem_rep_unlock)
         (simp add: kmem_rep_def take_lock_def drop_lock_def pushcli_def Let_def)
  next
    case False
    with p ok assms show ?thesis by (simp add: kalloc_def Let_def kmem_rep_def)
  qed
qed

lemma kfree_chain:
  assumes "page_ok e v" and "\<forall>p\<in>set ps. page_ok e p" and "v \<notin> set ps"
  shows "chain (store32 (memset m v 1 PGSIZE) v f) v (v # ps) = chain m f ps"
proof -
  have "load32 (store32 (memset m v 1 PGSIZE) v f) x = load32 m x" if "x \<in> set ps" for x
  proof (rule load32_other_page)
    show "unat x mod 4096 = 0" "unat v mod 4096 = 0" "x \<noteq> v"
      using that assms page_ok_range(1) by blast+
  qed (simp add: store32_outside memset_outside)
  then have "chain (store32 (memset m v 1 PGSIZE) v f) f ps = chain m f ps"
    by (rule chain_cong)
  then show ?thesis using assms(1) by (simp add: page_ok_nonzero)
qed

lemma kfree_rep:
  assumes "kmem_rep s ps" and "page_ok (k_end s) v" and "v \<notin> set ps"
  shows "returns (kfree v s) (\<lambda>_ s'. kmem_rep s' (v # ps) \<and> k_end s' = k_end s \<and>
           (\<forall>x. (\<forall>j<4096. x \<noteq> v + of_nat j) \<longrightarrow> mem s' x = mem s x) \<and>
           kmem_state.more s' = kmem_state.more s)"
proof -
  let ?m = "store32 (memset (mem s) v 1 PGSIZE) v (k_freelist s)"
  have ok: "cpu_ok s" and pages: "\<forall>p\<in>set ps. page_ok (k_end s) p"
    using assms(1) by (simp_all add: kmem_rep_def)
  have ch: "chain ?m v (v # ps)" and dist: "distinct (v # ps)"
    using assms kfree_chain [OF assms(2) pages assms(3)] by (simp_all add: kmem_rep_def del: chain.simps)
  have out: "\<forall>x. (\<forall>j<4096. x \<noteq> v + of_nat j) \<longrightarrow> ?m x = mem s x"
    by (simp add: store32_outside memset_outside)
  have v: "v mod PGSIZE = 0" "\<not> v < k_end s" "\<not> v2p v \<ge> PHYSTOP"
    using assms(2) by (auto simp: page_ok_def)
  let ?s1 = "s\<lparr>mem := memset (mem s) v 1 PGSIZE\<rparr>"
  show ?thesis
  proof (cases "k_use_lock s")
    case True
    then have "unlocked Kmem_lock s" using assms(1) by (simp add: kmem_rep_def)
    with True v ok have "kfree v s = Ret () (drop_lock Kmem_lock
        ((take_lock Kmem_lock ?s1)\<lparr>mem := ?m, k_freelist := v\<rparr>))" (is "_ = Ret () ?t")
      by (simp add: kfree_def Let_def acquire_free release_kmem_mem)
    moreover have "cpu_ok ?t" using ok by (simp add: cpu_ok_def)
    then have "kmem_rep ?t (v # ps)"
      using ch dist assms(2) pages by (simp add: kmem_rep_unlock del: chain.simps)
    moreover have "kmem_state.more ?t = kmem_state.more s"
      by (simp add: take_lock_def drop_lock_def pushcli_def Let_def)
    ultimately show ?thesis using out by simp
  next
    case False
    then have "kfree v s = Ret () (?s1\<lparr>mem := ?m, k_freelist := v\<rparr>)" (is "_ = Ret () ?t")
      using v by (simp add: kfree_def Let_def)
    moreover have "kmem_rep ?t (v # ps)"
      using ch dist assms(2) pages ok False by (simp add: kmem_rep_def del: chain.simps)
    ultimately show ?thesis using out by simp
  qed
qed

lemma kfree_Ret_page: "kfree v s = Ret u s' \<Longrightarrow> page_ok (k_end s) v"
  by (auto simp: kfree_def page_ok_def not_le not_less split: if_splits)

section \<open>The interface\<close>

text \<open>
  What callers of the allocator rely on: \<open>rep s ps\<close> says that in state \<open>s\<close> exactly the pages \<open>ps\<close>
  are free, \<open>ok s p\<close> that \<open>p\<close> is a page the allocator manages.
\<close>

fun alloc_n :: "('s \<Rightarrow> (addr, 's) kres) \<Rightarrow> nat \<Rightarrow> 's \<Rightarrow> (addr list, 's) kres" where
  "alloc_n alloc 0 s = Ret [] s"
| "alloc_n alloc (Suc n) s = bind (alloc s) (\<lambda>p s. bind (alloc_n alloc n s) (\<lambda>ps s. Ret (p # ps) s))"

locale page_allocator =
  fixes alloc :: "'s \<Rightarrow> (addr, 's) kres"
    and free :: "addr \<Rightarrow> 's \<Rightarrow> (unit, 's) kres"
    and rep :: "'s \<Rightarrow> addr list \<Rightarrow> bool"
    and ok :: "'s \<Rightarrow> addr \<Rightarrow> bool"
  assumes rep_pages: "rep s ps \<Longrightarrow> distinct ps \<and> 0 \<notin> set ps"
    and alloc_page: "rep s (p # ps) \<Longrightarrow>
      returns (alloc s) (\<lambda>r s'. r = p \<and> rep s' ps \<and> (\<forall>v. ok s' v = ok s v))"
    and alloc_empty: "rep s [] \<Longrightarrow>
      returns (alloc s) (\<lambda>r s'. r = 0 \<and> rep s' [] \<and> (\<forall>v. ok s' v = ok s v))"
    and free_page: "rep s ps \<Longrightarrow> ok s v \<Longrightarrow> v \<notin> set ps \<Longrightarrow>
      returns (free v s) (\<lambda>_ s'. rep s' (v # ps) \<and> (\<forall>v. ok s' v = ok s v))"
begin

lemma alloc_n_pages:
  "rep s ps \<Longrightarrow>
   returns (alloc_n alloc n s)
     (\<lambda>rs s'. rs = take n ps @ replicate (n - length ps) 0 \<and> rep s' (drop n ps))"
proof (induction n arbitrary: s ps)
  case (Suc n)
  show ?case
  proof (cases ps)
    case Nil
    then have "returns (alloc s) (\<lambda>r s'. r = 0 \<and> rep s' [])"
      using returns_mono [OF alloc_empty [of s]] Suc.prems by simp
    then show ?thesis using Suc.IH [of _ "[]"] Nil by (fastforce simp: returns_iff)
  next
    case (Cons p qs)
    then have "returns (alloc s) (\<lambda>r s'. r = p \<and> rep s' qs)"
      using returns_mono [OF alloc_page [of s p qs]] Suc.prems by simp
    then show ?thesis using Suc.IH [of _ qs] Cons by (fastforce simp: returns_iff)
  qed
qed simp

lemma alloc_n_distinct:
  assumes "rep s ps" and "n \<le> length ps"
  shows "returns (alloc_n alloc n s)
     (\<lambda>rs s'. length rs = n \<and> distinct rs \<and> 0 \<notin> set rs \<and> set rs \<subseteq> set ps)"
  by (rule returns_mono [OF alloc_n_pages [OF assms(1), of n]])
     (use assms rep_pages [OF assms(1)] in \<open>auto simp: min_def dest: in_set_takeD\<close>)

lemma free_alloc:
  assumes "rep s ps" and "ok s v" and "v \<notin> set ps"
  shows "returns (bind (free v s) (\<lambda>_ s. alloc s)) (\<lambda>r s'. r = v \<and> rep s' ps)"
  using free_page [OF assms] alloc_page by (fastforce simp: returns_iff)

end

interpretation kmem: page_allocator
  "kalloc :: 'm kmem_state_scheme \<Rightarrow> (addr, 'm kmem_state_scheme) kres" kfree kmem_rep
  "\<lambda>s. page_ok (k_end s)"
proof
  fix s :: "'m kmem_state_scheme" and p v :: addr and ps
  show "kmem_rep s ps \<Longrightarrow> distinct ps \<and> 0 \<notin> set ps"
    by (auto simp: kmem_rep_def dest: page_ok_nonzero)
  show "kmem_rep s (p # ps) \<Longrightarrow>
      returns (kalloc s) (\<lambda>r s'. r = p \<and> kmem_rep s' ps \<and> (\<forall>v. page_ok (k_end s') v = page_ok (k_end s) v))"
    by (rule returns_mono [OF kalloc_Cons]) auto
  show "kmem_rep s [] \<Longrightarrow>
      returns (kalloc s) (\<lambda>r s'. r = 0 \<and> kmem_rep s' [] \<and> (\<forall>v. page_ok (k_end s') v = page_ok (k_end s) v))"
    by (rule returns_mono [OF kalloc_Nil]) auto
  show "kmem_rep s ps \<Longrightarrow> page_ok (k_end s) v \<Longrightarrow> v \<notin> set ps \<Longrightarrow>
      returns (kfree v s) (\<lambda>_ s'. kmem_rep s' (v # ps) \<and> (\<forall>v. page_ok (k_end s') v = page_ok (k_end s) v))"
    by (rule returns_mono [OF kfree_rep]) auto
qed

section \<open>Initialisation\<close>

function freerange_loop ::
  "addr \<Rightarrow> addr \<Rightarrow> 'm kmem_state_scheme \<Rightarrow> (unit, 'm kmem_state_scheme) kres" where
  "freerange_loop p vend s =
     (if p + PGSIZE \<le> vend
      then bind (kfree p s) (\<lambda>_ s. freerange_loop (p + PGSIZE) vend s)
      else Ret () s)"
  by pat_completeness auto
termination
proof (relation "measure (\<lambda>(p, vend, s). 2 ^ 32 - unat p)")
  fix p vend :: addr and s t :: "'m kmem_state_scheme" and u
  assume "kfree p s = Ret u t"
  then have "page_ok (k_end s) p" by (rule kfree_Ret_page)
  then have "unat p < 0x8E000000" by (rule page_ok_range)
  then have "unat (p + PGSIZE) = unat p + 4096" by (simp add: unat_word_ariths)
  then show "((p + PGSIZE, vend, t), p, vend, s) \<in> measure (\<lambda>(p, vend, s). 2 ^ 32 - unat p)"
    using \<open>unat p < 0x8E000000\<close> by simp
qed simp

declare freerange_loop.simps [simp del]

definition freerange :: "addr \<Rightarrow> addr \<Rightarrow> 'm kmem_state_scheme \<Rightarrow> (unit, 'm kmem_state_scheme) kres" where
  "freerange vstart vend s = freerange_loop (PGROUNDUP vstart) vend s"

definition kinit1 :: "addr \<Rightarrow> addr \<Rightarrow> 'm kmem_state_scheme \<Rightarrow> (unit, 'm kmem_state_scheme) kres" where
  "kinit1 vstart vend s =
     (let s = initlock Kmem_lock ''kmem'' s; s = s\<lparr>k_use_lock := False\<rparr>
      in freerange vstart vend s)"

definition kinit2 :: "addr \<Rightarrow> addr \<Rightarrow> 'm kmem_state_scheme \<Rightarrow> (unit, 'm kmem_state_scheme) kres" where
  "kinit2 vstart vend s =
     bind (freerange vstart vend s) (\<lambda>_ s. Ret () (s\<lparr>k_use_lock := True\<rparr>))"

definition pages_from :: "addr \<Rightarrow> nat \<Rightarrow> addr list" where
  "pages_from p n = map (\<lambda>i. p + of_nat (4096 * i)) [0..<n]"

lemma pages_from_Suc: "pages_from p (Suc n) = p # pages_from (p + PGSIZE) n"
proof -
  have "[0..<Suc n] = 0 # map Suc [0..<n]" by (simp add: map_Suc_upt upt_conv_Cons)
  then show ?thesis by (simp add: pages_from_def algebra_simps)
qed

lemma pages_from_above:
  assumes "unat p + 4096 * n < 2 ^ 32" and "q \<in> set (pages_from p n)"
  shows "unat p \<le> unat q"
proof -
  obtain i where i: "i < n" "q = p + of_nat (4096 * i)"
    using assms(2) by (auto simp: pages_from_def)
  then have "unat (of_nat (4096 * i) :: addr) = 4096 * i"
    using assms(1) by (intro unat_of_nat_lt) simp
  then show ?thesis using assms(1) i by (simp add: unat_word_ariths)
qed

lemma page_okI:
  assumes "unat p mod 4096 = 0" and "e \<le> p" and "0x80000000 \<le> unat p" and "unat p < 0x8E000000"
  shows "page_ok e p"
proof -
  have "unat (p mod PGSIZE) = 0" using assms(1) by (simp add: unat_mod_distrib)
  then have "p mod PGSIZE = 0" by (simp add: unat_eq_zero)
  moreover have "unat (v2p p) = unat p - 0x80000000"
    unfolding v2p_def using assms(3) by (subst unat_sub) (simp_all add: word_le_nat_alt)
  ultimately show ?thesis using assms by (simp add: page_ok_def word_less_nat_alt)
qed

lemma freerange_loop_pages:
  assumes "kmem_rep s ps" and "unat p mod 4096 = 0" and "k_end s \<le> p" and "0x80000000 \<le> unat p"
    and "unat p \<le> 0x8E000000" and "unat vend \<le> 0x8E000000"
    and "n = (unat vend - unat p) div 4096" and "set (pages_from p n) \<inter> set ps = {}"
  shows "returns (freerange_loop p vend s)
           (\<lambda>_ s'. kmem_rep s' (rev (pages_from p n) @ ps) \<and> k_end s' = k_end s)"
  using assms
proof (induction n arbitrary: p s ps)
  case 0
  have "unat (p + PGSIZE) = unat p + 4096" using 0(5) by (simp add: unat_word_ariths)
  then have "\<not> p + PGSIZE \<le> vend"
    using 0(7) by (simp add: word_le_nat_alt div_eq_0_iff)
  then show ?case using 0(1) by (simp add: freerange_loop.simps pages_from_def)
next
  case (Suc n)
  have p4: "unat (p + PGSIZE) = unat p + 4096" using Suc.prems(5) by (simp add: unat_word_ariths)
  have "4096 * Suc n \<le> unat vend - unat p"
    unfolding Suc.prems(7) by simp
  then have n: "unat p + 4096 + 4096 * n \<le> unat vend" by simp
  then have le: "p + PGSIZE \<le> vend" by (simp add: word_le_nat_alt p4)
  have "page_ok (k_end s) p"
    using Suc.prems n by (intro page_okI) auto
  moreover have "p \<notin> set ps" using Suc.prems(8) by (simp add: pages_from_Suc)
  ultimately obtain t where t: "kfree p s = Ret () t" "kmem_rep t (p # ps)" "k_end t = k_end s"
    using kfree_rep [OF Suc.prems(1)] by (auto simp: returns_iff)
  have "p \<notin> set (pages_from (p + PGSIZE) n)"
    using pages_from_above [of "p + PGSIZE" n p] n Suc.prems(6) by (auto simp: p4)
  then have "set (pages_from (p + PGSIZE) n) \<inter> set (p # ps) = {}"
    using Suc.prems(8) by (auto simp: pages_from_Suc)
  then have "returns (freerange_loop (p + PGSIZE) vend t)
          (\<lambda>_ s'. kmem_rep s' (rev (pages_from (p + PGSIZE) n) @ p # ps) \<and> k_end s' = k_end t)"
    using Suc.prems n t p4 by (intro Suc.IH) (auto simp: word_le_nat_alt)
  then show ?case using le t by (simp add: freerange_loop.simps [of p] pages_from_Suc)
qed

section \<open>Properties\<close>

text \<open>
  An allocator with two free pages, on a CPU with interrupts on and the allocator lock in use.
\<close>

definition kmem_example :: kmem_state where
  "kmem_example =
     \<lparr>cpu = idle_cpu 0, locks = (\<lambda>_. free_lock),
      mem = store32 (\<lambda>_. 0) 0x80400000 0x80401000,
      k_use_lock = True, k_freelist = 0x80400000, k_end = 0x80110000\<rparr>"

lemma kmem_example_rep: "kmem_rep kmem_example [0x80400000, 0x80401000]"
  by (simp add: kmem_rep_def kmem_example_def cpu_ok_def unlocked_def idle_cpu_def free_lock_def
      load32_def store32_def page_ok_def v2p_def)

text \<open>
  C30. The linked free list in memory implements a stack of free pages: from a state whose free
  pages are \<open>ps\<close>, \<open>n\<close> calls of \<open>kalloc\<close> return the first \<open>n\<close> of them in order, all different and none
  null, then 0 for each call beyond the last page; the remaining pages stay free. No call panics,
  spins or runs into the lock.
\<close>

theorem kalloc_hands_out_free_pages:
  assumes "kmem_rep s ps"
  shows "returns (alloc_n kalloc n s)
           (\<lambda>rs s'. rs = take n ps @ replicate (n - length ps) 0 \<and>
                    distinct (take (length ps) rs) \<and> 0 \<notin> set (take (length ps) rs) \<and>
                    kmem_rep s' (drop n ps))"
proof -
  have "distinct ps" and "0 \<notin> set ps" using kmem.rep_pages [OF assms] by auto
  then have "distinct (take (length ps) (take n ps @ replicate (n - length ps) 0)) \<and>
             0 \<notin> set (take (length ps) (take n ps @ replicate (n - length ps) 0))"
    by (cases "n \<le> length ps") (auto dest: in_set_takeD)
  then show ?thesis by (intro returns_mono [OF kmem.alloc_n_pages [OF assms]]) blast
qed

lemma kalloc_hands_out_free_pages_witness:
  "returns (alloc_n kalloc 3 kmem_example)
     (\<lambda>rs s'. rs = [0x80400000, 0x80401000, 0] \<and> kmem_rep s' [])"
  by (rule returns_mono [OF kalloc_hands_out_free_pages [OF kmem_example_rep]])
     (simp add: numeral_eq_Suc)

text \<open>
  C31. \<open>kfree\<close> accepts exactly the page-aligned addresses between the end of the kernel and the top
  of physical memory. Given one that is not free already it returns, the page becomes the next one
  \<open>kalloc\<close> hands out, and after that the free pages are what they were.
\<close>

theorem kfree_kalloc_roundtrip:
  assumes "kmem_rep s ps" and "v \<notin> set ps"
  shows "if page_ok (k_end s) v
         then returns (bind (kfree v s) (\<lambda>_ s. kalloc s)) (\<lambda>r s'. r = v \<and> kmem_rep s' ps)
         else kfree v s = Panic ''kfree''"
proof (cases "page_ok (k_end s) v")
  case True
  then show ?thesis using kmem.free_alloc [OF assms(1) True assms(2)] by simp
next
  case False
  then have "v mod PGSIZE \<noteq> 0 \<or> v < k_end s \<or> v2p v \<ge> PHYSTOP"
    unfolding page_ok_def by (metis not_le)
  then have "kfree v s = Panic ''kfree''" unfolding kfree_def by (rule if_P)
  with False show ?thesis by simp
qed

lemma kfree_kalloc_roundtrip_witness:
  "returns (bind (kfree 0x80402000 kmem_example) (\<lambda>_ s. kalloc s))
     (\<lambda>r s'. r = 0x80402000 \<and> kmem_rep s' [0x80400000, 0x80401000])"
proof -
  have "page_ok (k_end kmem_example) 0x80402000"
    by (simp add: page_ok_def v2p_def kmem_example_def)
  then show ?thesis
    using kfree_kalloc_roundtrip [OF kmem_example_rep, of "0x80402000"] by simp
qed

text \<open>
  C33. \<open>freerange\<close> terminates and puts exactly the whole pages of \<open>[vstart, vend)\<close> on the free list:
  starting from a rounded-up \<open>vstart\<close> above the kernel image and a \<open>vend\<close> within physical memory,
  whose pages are not free yet, it frees \<open>(vend - p) div 4096\<close> pages in ascending order.
\<close>

theorem freerange_frees_all_pages:
  assumes "kmem_rep s ps" and "p = PGROUNDUP vstart" and "k_end s \<le> p" and "KERNBASE \<le> p"
    and "p \<le> p2v PHYSTOP" and "vend \<le> p2v PHYSTOP"
    and "n = (unat vend - unat p) div 4096" and "set (pages_from p n) \<inter> set ps = {}"
  shows "returns (freerange vstart vend s) (\<lambda>_ s'. kmem_rep s' (rev (pages_from p n) @ ps))"
proof -
  have "p AND 0xFFF = 0"
    unfolding assms(2) PGROUNDUP_def by (simp add: and.assoc)
  then have "take_bit 12 p = 0" by (simp add: take_bit_eq_mask mask_eq_exp_minus_1)
  then have "take_bit 12 (unat p) = 0" by (metis unsigned_take_bit_eq unsigned_0)
  then have "unat p mod 4096 = 0" by (simp add: take_bit_eq_mod)
  moreover have "0x80000000 \<le> unat p" using assms(4) by (simp add: word_le_nat_alt)
  moreover have "unat p \<le> 0x8E000000" using assms(5) by (simp add: word_le_nat_alt p2v_def)
  moreover have "unat vend \<le> 0x8E000000" using assms(6) by (simp add: word_le_nat_alt p2v_def)
  ultimately have "returns (freerange_loop p vend s)
      (\<lambda>_ s'. kmem_rep s' (rev (pages_from p n) @ ps) \<and> k_end s' = k_end s)"
    by (intro freerange_loop_pages assms(1,3,7,8))
  then have "returns (freerange vstart vend s)
      (\<lambda>_ s'. kmem_rep s' (rev (pages_from p n) @ ps) \<and> k_end s' = k_end s)"
    unfolding freerange_def assms(2) .
  then show ?thesis by (rule returns_mono) simp
qed

lemma freerange_frees_all_pages_witness:
  "returns (freerange 0x80401801 0x80404FFF kmem_example)
     (\<lambda>_ s'. kmem_rep s' [0x80403000, 0x80402000, 0x80400000, 0x80401000])"
proof -
  have r: "PGROUNDUP 0x80401801 = 0x80402000" by (simp add: PGROUNDUP_def)
  have two: "pages_from 0x80402000 (Suc (Suc 0)) = [0x80402000, 0x80403000]"
    unfolding pages_from_Suc by (simp add: pages_from_def)
  have "returns (freerange 0x80401801 0x80404FFF kmem_example)
     (\<lambda>_ s'. kmem_rep s' (rev (pages_from 0x80402000 (Suc (Suc 0))) @ [0x80400000, 0x80401000]))"
    by (intro freerange_frees_all_pages [OF kmem_example_rep r [symmetric]], unfold two)
       (simp_all add: kmem_example_def p2v_def)
  then show ?thesis unfolding two by simp
qed

end
