(* ===== verification/Vm.thy ===== *)
theory Vm
  imports Kalloc
begin

text \<open>
  Page tables (\<open>vm.c\<close>, \<open>mmu.h\<close>). A page directory and its page tables are pages of kernel memory,
  read and written as the code does: entries are 32-bit words at \<open>pgdir + 4 * PDX(va)\<close>. A null
  pointer is the address 0. Messages printed on the console are not part of the state. The last
  sections relate the tables to the mapping they stand for.
\<close>

section \<open>Entries and indexes\<close>

record vm_state = kmem_state +
  kpgdir :: addr
  k_data :: addr

abbreviation PTE_P :: uint where "PTE_P \<equiv> 1"
abbreviation PTE_W :: uint where "PTE_W \<equiv> 2"
abbreviation PTE_U :: uint where "PTE_U \<equiv> 4"
abbreviation NPDENTRIES :: nat where "NPDENTRIES \<equiv> 1024"
abbreviation NPTENTRIES :: uint where "NPTENTRIES \<equiv> 1024"
abbreviation EXTMEM :: uint where "EXTMEM \<equiv> 0x100000"
abbreviation DEVSPACE :: uint where "DEVSPACE \<equiv> 0xFE000000"
abbreviation KERNLINK :: uint where "KERNLINK \<equiv> KERNBASE + EXTMEM"

definition PDX :: "addr \<Rightarrow> uint" where
  "PDX va = drop_bit 22 va AND 0x3FF"

definition PTX :: "addr \<Rightarrow> uint" where
  "PTX va = drop_bit 12 va AND 0x3FF"

definition PTE_ADDR :: "uint \<Rightarrow> uint" where
  "PTE_ADDR pte = pte AND NOT 0xFFF"

section \<open>Walking and mapping\<close>

definition walkpgdir ::
  "addr \<Rightarrow> addr \<Rightarrow> bool \<Rightarrow> 'm kmem_state_scheme \<Rightarrow> (addr, 'm kmem_state_scheme) kres" where
  "walkpgdir pgdir va alloc s =
     (let pde = pgdir + 4 * PDX va
      in if load32 (mem s) pde AND PTE_P \<noteq> 0
         then Ret (p2v (PTE_ADDR (load32 (mem s) pde)) + 4 * PTX va) s
         else if \<not> alloc then Ret 0 s
         else bind (kalloc s) (\<lambda>pgtab s.
              if pgtab = 0 then Ret 0 s
              else let m = memset (mem s) pgtab 0 PGSIZE;
                       m = store32 m pde (v2p pgtab OR PTE_P OR PTE_W OR PTE_U)
                   in Ret (pgtab + 4 * PTX va) (s\<lparr>mem := m\<rparr>)))"

text \<open>
  The loop of \<open>mappages\<close>: \<open>n\<close> is the number of pages after the current one, so \<open>a == last\<close>
  exactly when \<open>n\<close> is 0 (both are multiples of the page size).
\<close>

fun mappages_loop ::
  "nat \<Rightarrow> addr \<Rightarrow> addr \<Rightarrow> uint \<Rightarrow> uint \<Rightarrow> 'm kmem_state_scheme \<Rightarrow> (int, 'm kmem_state_scheme) kres"
where
  "mappages_loop n pgdir a pa perm s =
     bind (walkpgdir pgdir a True s) (\<lambda>pte s.
     if pte = 0 then Ret (- 1) s
     else if load32 (mem s) pte AND PTE_P \<noteq> 0 then Panic ''remap''
     else let s = s\<lparr>mem := store32 (mem s) pte (pa OR perm OR PTE_P)\<rparr>
          in case n of
               0 \<Rightarrow> Ret 0 s
             | Suc k \<Rightarrow> mappages_loop k pgdir (a + PGSIZE) (pa + PGSIZE) perm s)"

declare mappages_loop.simps [simp del]

definition mappages ::
  "addr \<Rightarrow> addr \<Rightarrow> uint \<Rightarrow> uint \<Rightarrow> uint \<Rightarrow> 'm kmem_state_scheme \<Rightarrow> (int, 'm kmem_state_scheme) kres"
where
  "mappages pgdir va sz pa perm s =
     (let a = PGROUNDDOWN va;
          last = PGROUNDDOWN (va + sz - 1)
      in mappages_loop (unat (last - a) div 4096) pgdir a pa perm s)"

section \<open>The kernel part of a page table\<close>

text \<open>The table \<open>kmap\<close>: virtual start, physical start and end, permissions.\<close>

definition kmap :: "addr \<Rightarrow> (addr \<times> uint \<times> uint \<times> uint) list" where
  "kmap data =
     [(KERNBASE, 0, EXTMEM, PTE_W),
      (KERNLINK, v2p KERNLINK, v2p data, 0),
      (data, v2p data, PHYSTOP, PTE_W),
      (DEVSPACE, DEVSPACE, 0, PTE_W)]"

fun setupkvm_loop ::
  "addr \<Rightarrow> (addr \<times> uint \<times> uint \<times> uint) list \<Rightarrow> 'm vm_state_scheme \<Rightarrow> (addr, 'm vm_state_scheme) kres"
where
  "setupkvm_loop pgdir [] s = Ret pgdir s"
| "setupkvm_loop pgdir ((virt, phys_start, phys_end, perm) # ks) s =
     bind (mappages pgdir virt (phys_end - phys_start) phys_start perm s) (\<lambda>r s.
     if r < 0 then Ret 0 s else setupkvm_loop pgdir ks s)"

definition setupkvm :: "'m vm_state_scheme \<Rightarrow> (addr, 'm vm_state_scheme) kres" where
  "setupkvm s =
     bind (kalloc s) (\<lambda>pgdir s.
     if pgdir = 0 then Ret 0 s
     else let s = s\<lparr>mem := memset (mem s) pgdir 0 PGSIZE\<rparr>
          in if p2v PHYSTOP > DEVSPACE then Panic ''PHYSTOP too high''
             else setupkvm_loop pgdir (kmap (k_data s)) s)"

definition switchkvm :: "'m vm_state_scheme \<Rightarrow> 'm vm_state_scheme" where
  "switchkvm s = s\<lparr>cpu := (cpu s)\<lparr>c_cr3 := v2p (kpgdir s)\<rparr>\<rparr>"

definition kvmalloc :: "'m vm_state_scheme \<Rightarrow> (unit, 'm vm_state_scheme) kres" where
  "kvmalloc s = bind (setupkvm s) (\<lambda>pgdir s. Ret () (switchkvm (s\<lparr>kpgdir := pgdir\<rparr>)))"

section \<open>The user part\<close>

definition inituvm :: "addr \<Rightarrow> addr \<Rightarrow> uint \<Rightarrow> 'm kmem_state_scheme \<Rightarrow> (unit, 'm kmem_state_scheme) kres"
where
  "inituvm pgdir init sz s =
     (if sz \<ge> PGSIZE then Panic ''inituvm: more than a page''
      else bind (kalloc s) (\<lambda>page s.
           if page = 0 then Undef
           else let s = s\<lparr>mem := memset (mem s) page 0 PGSIZE\<rparr>
                in bind (mappages pgdir 0 PGSIZE (v2p page) (PTE_W OR PTE_U) s) (\<lambda>_ s.
                   Ret () (s\<lparr>mem := memmove (mem s) page init sz\<rparr>))))"

text \<open>
  \<open>deallocuvm\<close> advances by a page, or by the rest of 1024 pages where a page table is missing.
  The fuel bounds the number of iterations; \<open>Spins\<close> marks a loop that has not ended when it is
  spent, which happens only if \<open>a\<close> wraps around.
\<close>

fun deallocuvm_loop ::
  "nat \<Rightarrow> addr \<Rightarrow> uint \<Rightarrow> uint \<Rightarrow> 'm kmem_state_scheme \<Rightarrow> (unit, 'm kmem_state_scheme) kres" where
  "deallocuvm_loop fuel pgdir a oldsz s =
     (if a < oldsz then
        case fuel of
          0 \<Rightarrow> Spins s
        | Suc fuel \<Rightarrow>
            bind (walkpgdir pgdir a False s) (\<lambda>pte s.
            if pte = 0 then deallocuvm_loop fuel pgdir (a + (NPTENTRIES - 1) * PGSIZE + PGSIZE) oldsz s
            else if load32 (mem s) pte AND PTE_P \<noteq> 0 then
              let pa = PTE_ADDR (load32 (mem s) pte)
              in if pa = 0 then Panic ''kfree''
                 else bind (kfree (p2v pa) s) (\<lambda>_ s.
                      deallocuvm_loop fuel pgdir (a + PGSIZE) oldsz (s\<lparr>mem := store32 (mem s) pte 0\<rparr>))
            else deallocuvm_loop fuel pgdir (a + PGSIZE) oldsz s)
      else Ret () s)"

declare deallocuvm_loop.simps [simp del]

definition deallocuvm ::
  "addr \<Rightarrow> uint \<Rightarrow> uint \<Rightarrow> 'm kmem_state_scheme \<Rightarrow> (uint, 'm kmem_state_scheme) kres" where
  "deallocuvm pgdir oldsz newsz s =
     (if newsz \<ge> oldsz then Ret oldsz s
      else bind (deallocuvm_loop (2 ^ 20) pgdir (PGROUNDUP newsz) oldsz s) (\<lambda>_ s. Ret newsz s))"

text \<open>
  The pages \<open>a\<close>, \<open>a + PGSIZE\<close>, \<open>\<dots>\<close> below \<open>e\<close>: the values the counter of
  \<open>for(; a < e; a += PGSIZE)\<close> takes, for an \<open>e\<close> that leaves it room not to wrap around.
\<close>

definition page_range :: "addr \<Rightarrow> addr \<Rightarrow> addr list" where
  "page_range a e = pages_from a ((unat e - unat a + 4095) div 4096)"

fun allocuvm_loop ::
  "addr \<Rightarrow> uint \<Rightarrow> uint \<Rightarrow> addr list \<Rightarrow> 'm kmem_state_scheme \<Rightarrow> (uint, 'm kmem_state_scheme) kres" where
  "allocuvm_loop pgdir oldsz newsz [] s = Ret newsz s"
| "allocuvm_loop pgdir oldsz newsz (a # as) s =
     bind (kalloc s) (\<lambda>page s.
     if page = 0 then bind (deallocuvm pgdir newsz oldsz s) (\<lambda>_ s. Ret 0 s)
     else let s = s\<lparr>mem := memset (mem s) page 0 PGSIZE\<rparr>
          in bind (mappages pgdir a PGSIZE (v2p page) (PTE_W OR PTE_U) s) (\<lambda>_ s.
             allocuvm_loop pgdir oldsz newsz as s))"

definition allocuvm ::
  "addr \<Rightarrow> uint \<Rightarrow> uint \<Rightarrow> 'm kmem_state_scheme \<Rightarrow> (uint, 'm kmem_state_scheme) kres" where
  "allocuvm pgdir oldsz newsz s =
     (if newsz \<ge> KERNBASE then Ret 0 s
      else if newsz < oldsz then Ret oldsz s
      else allocuvm_loop pgdir oldsz newsz (page_range (PGROUNDUP oldsz) newsz) s)"

definition freevm :: "addr \<Rightarrow> 'm kmem_state_scheme \<Rightarrow> (unit, 'm kmem_state_scheme) kres" where
  "freevm pgdir s =
     (if pgdir = 0 then Panic ''freevm: no pgdir''
      else bind (deallocuvm pgdir KERNBASE 0 s) (\<lambda>_ s.
           bind (kfor (\<lambda>i s.
                   let pde = load32 (mem s) (pgdir + 4 * of_nat i)
                   in if pde AND PTE_P \<noteq> 0 then kfree (p2v (PTE_ADDR pde)) s else Ret () s)
                 [0..<NPDENTRIES] s) (\<lambda>_ s.
           kfree pgdir s)))"

definition clearpteu :: "addr \<Rightarrow> addr \<Rightarrow> 'm kmem_state_scheme \<Rightarrow> (unit, 'm kmem_state_scheme) kres" where
  "clearpteu pgdir uva s =
     bind (walkpgdir pgdir uva False s) (\<lambda>pte s.
     if pte = 0 then Panic ''clearpteu''
     else Ret () (s\<lparr>mem := store32 (mem s) pte (load32 (mem s) pte AND NOT PTE_U)\<rparr>))"

text \<open>\<open>None\<close> is the jump to \<open>bad\<close>.\<close>

fun copyuvm_loop ::
  "addr \<Rightarrow> addr \<Rightarrow> addr list \<Rightarrow> 'm vm_state_scheme \<Rightarrow> (unit option, 'm vm_state_scheme) kres" where
  "copyuvm_loop d pgdir [] s = Ret (Some ()) s"
| "copyuvm_loop d pgdir (i # is) s =
     bind (walkpgdir pgdir i False s) (\<lambda>pte s.
     if pte = 0 then Panic ''copyuvm: pte should exist''
     else if load32 (mem s) pte AND PTE_P = 0 then Panic ''copyuvm: page not present''
     else let pa = PTE_ADDR (load32 (mem s) pte)
          in bind (kalloc s) (\<lambda>page s.
             if page = 0 then Ret None s
             else let s = s\<lparr>mem := memmove (mem s) page (p2v pa) PGSIZE\<rparr>
                  in bind (mappages d i PGSIZE (v2p page) (PTE_W OR PTE_U) s) (\<lambda>r s.
                     if r < 0 then Ret None s else copyuvm_loop d pgdir is s)))"

definition copyuvm :: "addr \<Rightarrow> uint \<Rightarrow> 'm vm_state_scheme \<Rightarrow> (addr, 'm vm_state_scheme) kres" where
  "copyuvm pgdir sz s =
     bind (setupkvm s) (\<lambda>d s.
     if d = 0 then Ret 0 s
     else bind (copyuvm_loop d pgdir (page_range 0 sz) s) (\<lambda>r s.
          case r of
            Some _ \<Rightarrow> Ret d s
          | None \<Rightarrow> bind (freevm d s) (\<lambda>_ s. Ret 0 s)))"

section \<open>Access to user memory\<close>

definition uva2ka :: "addr \<Rightarrow> addr \<Rightarrow> 'm kmem_state_scheme \<Rightarrow> (addr, 'm kmem_state_scheme) kres" where
  "uva2ka pgdir uva s =
     bind (walkpgdir pgdir uva False s) (\<lambda>pte s.
     if pte = 0 then Undef
     else if load32 (mem s) pte AND PTE_P = 0 then Ret 0 s
     else if load32 (mem s) pte AND PTE_U = 0 then Ret 0 s
     else Ret (p2v (PTE_ADDR (load32 (mem s) pte))) s)"

text \<open>
  \<open>copyout\<close> copies the bytes \<open>src\<close> at the pointer \<open>p\<close> page by page; each round moves at least one byte, so the loop ends.
\<close>

lemma PGROUNDDOWN_push_drop: "PGROUNDDOWN va = push_bit 12 (drop_bit 12 va)"
proof -
  have m: "(PGSIZE - 1 :: addr) = mask 12" by (simp add: mask_eq_exp_minus_1)
  show ?thesis
    unfolding PGROUNDDOWN_def m by (auto intro!: bit_word_eqI simp: bit_simps)
qed

lemma page_low_bits: "va - PGROUNDDOWN va = take_bit 12 va"
proof -
  have "PGROUNDDOWN va + take_bit 12 va = va"
    unfolding PGROUNDDOWN_push_drop by (rule bits_ident)
  then show ?thesis by (simp add: algebra_simps)
qed

lemma page_low_bits_less: "unat (va - PGROUNDDOWN va) < 4096"
  using take_bit_nat_less_exp [of 12 "unat va"]
  by (simp add: page_low_bits unsigned_take_bit_eq)

fun store_bytes :: "memory \<Rightarrow> addr \<Rightarrow> byte list \<Rightarrow> memory" where
  "store_bytes m a [] = m"
| "store_bytes m a (v # vs) = store_bytes (m(a := v)) (a + 1) vs"

function copyout ::
  "addr \<Rightarrow> addr \<Rightarrow> byte list \<Rightarrow> uint \<Rightarrow> 'm kmem_state_scheme \<Rightarrow> (int, 'm kmem_state_scheme) kres" where
  "copyout pgdir va src len s =
     (if len > 0 then
        let va0 = PGROUNDDOWN va
        in bind (uva2ka pgdir va0 s) (\<lambda>pa0 s.
           if pa0 = 0 then Ret (- 1) s
           else let n = PGSIZE - (va - va0);
                    n = (if n > len then len else n);
                    s = s\<lparr>mem := store_bytes (mem s) (pa0 + (va - va0)) (take (unat n) src)\<rparr>
                in copyout pgdir (va0 + PGSIZE) (drop (unat n) src) (len - n) s)
      else Ret 0 s)"
  by pat_completeness auto
termination
proof (relation "measure (\<lambda>(pgdir, va, src, len, s). unat len)", goal_cases)
  case (2 pgdir va src len s va0 pa0 t n m u)
  have "n \<noteq> 0"
  proof
    assume "n = 0"
    then have "unat (va - va0) = 4096" using 2 by simp
    then show False using page_low_bits_less [of va] 2 by simp
  qed
  then have "m \<noteq> 0" and "m \<le> len" using 2 by auto
  then have "0 < unat m" and "unat m \<le> unat len" and "unat (len - m) = unat len - unat m"
    by (simp_all add: unat_gt_0 word_le_nat_alt unat_sub)
  then show ?case by simp
qed simp

declare copyout.simps [simp del]

end
