(* ===== verification/Proc.thy ===== *)
theory Proc
  imports Vm
begin

text \<open>
  Processes and the scheduler (\<open>proc.c\<close>, \<open>proc.h\<close>): the process table, allocation of a slot,
  \<open>sched\<close>, \<open>sleep\<close> and \<open>wakeup\<close>, \<open>yield\<close>, \<open>kill\<close>, one round of \<open>scheduler\<close>. A pointer to a
  process is its index in the table. The code that runs after \<open>swtch\<close> comes back to a process is a
  definition of its own (\<open>\<dots>_resume\<close>). Creation and termination of processes and threads need the
  file layer and are in a later theory.
\<close>

section \<open>State\<close>

datatype procstate = UNUSED | EMBRYO | SLEEPING | RUNNABLE | RUNNING | ZOMBIE

text \<open>
  What a process can sleep on. In C a channel is the address of the object; different objects have
  different addresses. \<open>wait\<close> and \<open>thread_join\<close> sleep on addresses of the process table.
\<close>

datatype chan =
    Proc_chan nat | Sem_chan nat | Buf_chan nat | Log_chan | Inode_chan nat
  | Nread_chan addr | Nwrite_chan addr | Ticks_chan | Input_chan

record proc =
  p_sz :: uint
  p_pgdir :: addr
  p_kstack :: addr
  p_state :: procstate
  p_pid :: int
  p_parent :: "nat option"
  p_tf :: addr
  p_context :: addr
  p_chan :: "chan option"
  p_killed :: bool
  p_ofile :: "nat \<Rightarrow> nat option"
  p_cwd :: "nat option"
  p_name :: "byte list"
  p_isthread :: bool
  p_isjoined :: bool
  p_thread_id :: int
  p_threadnum :: int
  p_waiting_for_semaphore :: int
  p_sem_queue_pos :: int
  p_ret_val :: addr

record b_semaphore =
  sem_value :: int
  sem_created :: bool
  sem_waiting :: int

text \<open>\<open>a_forkret\<close> and \<open>a_trapret\<close> are the addresses of the two routines.\<close>

record ptable_state = vm_state +
  procs :: "nat \<Rightarrow> proc"
  nextpid :: int
  initproc :: "nat option"
  binary_semaphores :: "nat \<Rightarrow> b_semaphore"
  a_forkret :: addr
  a_trapret :: addr

abbreviation NPROC :: nat where "NPROC \<equiv> 64"
abbreviation NOFILE :: nat where "NOFILE \<equiv> 16"
abbreviation KSTACKSIZE :: uint where "KSTACKSIZE \<equiv> 4096"

definition upd_proc :: "nat \<Rightarrow> (proc \<Rightarrow> proc) \<Rightarrow> 'm ptable_state_scheme \<Rightarrow> 'm ptable_state_scheme" where
  "upd_proc i f s = s\<lparr>procs := (procs s)(i := f (procs s i))\<rparr>"

text \<open>The per-CPU variable \<open>proc\<close>; dereferencing it while it is null is undefined.\<close>

definition with_proc ::
  "'m ptable_state_scheme \<Rightarrow> (nat \<Rightarrow> ('a, 'm ptable_state_scheme) kres) \<Rightarrow> ('a, 'm ptable_state_scheme) kres"
where
  "with_proc s f = (case c_proc (cpu s) of None \<Rightarrow> Undef | Some i \<Rightarrow> f i)"

definition pinit :: "'m ptable_state_scheme \<Rightarrow> 'm ptable_state_scheme" where
  "pinit s = initlock Semtable_lock ''semtable'' (initlock Ptable_lock ''ptable'' s)"

section \<open>Allocating a process\<close>

text \<open>
  The kernel stack, from the top: the trap frame (76 bytes), the return address \<open>trapret\<close>, the saved
  context (five words, \<open>eip\<close> last).
\<close>

definition allocproc :: "'m ptable_state_scheme \<Rightarrow> (nat option, 'm ptable_state_scheme) kres" where
  "allocproc s =
     bind (acquire Ptable_lock s) (\<lambda>_ s.
     case first_index NPROC (\<lambda>i. p_state (procs s i) = UNUSED) of
       None \<Rightarrow> bind (release Ptable_lock s) (\<lambda>_ s. Ret None s)
     | Some i \<Rightarrow>
         let s = upd_proc i (\<lambda>p. p\<lparr>p_state := EMBRYO, p_pid := nextpid s\<rparr>) s;
             s = s\<lparr>nextpid := nextpid s + 1\<rparr>
         in bind (release Ptable_lock s) (\<lambda>_ s.
            bind (kalloc s) (\<lambda>kstack s.
            let s = upd_proc i (\<lambda>p. p\<lparr>p_kstack := kstack\<rparr>) s
            in if kstack = 0 then Ret None (upd_proc i (\<lambda>p. p\<lparr>p_state := UNUSED\<rparr>) s)
               else let tf = kstack + KSTACKSIZE - 76;
                        ra = tf - 4;
                        ctx = ra - 20;
                        s = upd_proc i (\<lambda>p. p\<lparr>p_tf := tf, p_context := ctx\<rparr>) s;
                        m = store32 (mem s) ra (a_trapret s);
                        m = memset m ctx 0 20;
                        m = store32 m (ctx + 16) (a_forkret s);
                        s = s\<lparr>mem := m\<rparr>
                    in Ret (Some i) (upd_proc i (\<lambda>p. p\<lparr>p_sem_queue_pos := 0, p_threadnum := 1,
                                                    p_waiting_for_semaphore := - 1\<rparr>) s))))"

section \<open>Giving up the CPU\<close>

text \<open>
  \<open>sched\<close> ends with \<open>swtch\<close> to the CPU's scheduler: the process is off the CPU and the outcome is
  \<open>Asleep\<close>. When the scheduler switches back, \<open>sched\<close> restores the saved \<open>intena\<close>. The result type
  of \<open>sched\<close> and \<open>sleep\<close> is left open: this first part never returns to its caller.
\<close>

definition sched :: "'m ptable_state_scheme \<Rightarrow> ('a, 'm ptable_state_scheme) kres" where
  "sched s =
     (if \<not> holding Ptable_lock s then Panic ''sched ptable.lock''
      else if c_ncli (cpu s) \<noteq> 1 then Panic ''sched locks''
      else with_proc s (\<lambda>i.
           if p_state (procs s i) = RUNNING then Panic ''sched running''
           else if c_if (cpu s) then Panic ''sched interruptible''
           else Asleep s))"

definition sched_resume :: "bool \<Rightarrow> 'm ptable_state_scheme \<Rightarrow> 'm ptable_state_scheme" where
  "sched_resume intena s = s\<lparr>cpu := (cpu s)\<lparr>c_intena := intena\<rparr>\<rparr>"

definition yield :: "'m ptable_state_scheme \<Rightarrow> (unit, 'm ptable_state_scheme) kres" where
  "yield s =
     bind (acquire Ptable_lock s) (\<lambda>_ s.
     with_proc s (\<lambda>i. sched (upd_proc i (\<lambda>p. p\<lparr>p_state := RUNNABLE\<rparr>) s)))"

definition yield_resume :: "bool \<Rightarrow> 'm ptable_state_scheme \<Rightarrow> (unit, 'm ptable_state_scheme) kres" where
  "yield_resume intena s = release Ptable_lock (sched_resume intena s)"

definition sleep ::
  "chan \<Rightarrow> lockid option \<Rightarrow> 'm ptable_state_scheme \<Rightarrow> ('a, 'm ptable_state_scheme) kres" where
  "sleep chan lk s =
     (case c_proc (cpu s) of
        None \<Rightarrow> Panic ''sleep''
      | Some i \<Rightarrow>
          (case lk of
             None \<Rightarrow> Panic ''sleep without lk''
           | Some l \<Rightarrow>
               bind (if l \<noteq> Ptable_lock
                     then bind (acquire Ptable_lock s) (\<lambda>_ s. release l s)
                     else Ret () s) (\<lambda>_ s.
               sched (upd_proc i (\<lambda>p. p\<lparr>p_chan := Some chan, p_state := SLEEPING\<rparr>) s))))"

definition sleep_resume ::
  "lockid \<Rightarrow> bool \<Rightarrow> 'm ptable_state_scheme \<Rightarrow> (unit, 'm ptable_state_scheme) kres" where
  "sleep_resume l intena s =
     with_proc (sched_resume intena s) (\<lambda>i.
     let s = upd_proc i (\<lambda>p. p\<lparr>p_chan := None\<rparr>) (sched_resume intena s)
     in if l \<noteq> Ptable_lock then bind (release Ptable_lock s) (\<lambda>_ s. acquire l s)
        else Ret () s)"

section \<open>Waking up and killing\<close>

definition wakeup1 :: "chan option \<Rightarrow> 'm ptable_state_scheme \<Rightarrow> 'm ptable_state_scheme" where
  "wakeup1 chan s =
     fold (\<lambda>i s. if p_state (procs s i) = SLEEPING \<and> p_chan (procs s i) = chan
                 then upd_proc i (\<lambda>p. p\<lparr>p_state := RUNNABLE\<rparr>) s else s)
       [0..<NPROC] s"

definition wakeup :: "chan option \<Rightarrow> 'm ptable_state_scheme \<Rightarrow> (unit, 'm ptable_state_scheme) kres" where
  "wakeup chan s =
     bind (acquire Ptable_lock s) (\<lambda>_ s. release Ptable_lock (wakeup1 chan s))"

definition kill :: "int \<Rightarrow> 'm ptable_state_scheme \<Rightarrow> (int, 'm ptable_state_scheme) kres" where
  "kill pid s =
     bind (acquire Ptable_lock s) (\<lambda>_ s.
     case first_index NPROC (\<lambda>i. p_pid (procs s i) = pid) of
       Some i \<Rightarrow>
         let s = upd_proc i (\<lambda>p. p\<lparr>p_killed := True\<rparr>) s;
             s = (if p_state (procs s i) = SLEEPING
                  then upd_proc i (\<lambda>p. p\<lparr>p_state := RUNNABLE\<rparr>) s else s)
         in bind (release Ptable_lock s) (\<lambda>_ s. Ret 0 s)
     | None \<Rightarrow> bind (release Ptable_lock s) (\<lambda>_ s. Ret (- 1) s))"

section \<open>The scheduler\<close>

definition switchuvm :: "nat \<Rightarrow> 'm ptable_state_scheme \<Rightarrow> (unit, 'm ptable_state_scheme) kres" where
  "switchuvm p s =
     (let s = pushcli s
      in with_proc s (\<lambda>i.
         let s = s\<lparr>cpu := (cpu s)\<lparr>c_esp0 := p_kstack (procs s i) + KSTACKSIZE\<rparr>\<rparr>
         in if p_pgdir (procs s p) = 0 then Panic ''switchuvm: no pgdir''
            else popcli (s\<lparr>cpu := (cpu s)\<lparr>c_cr3 := v2p (p_pgdir (procs s p))\<rparr>\<rparr>)))"

text \<open>
  One pass of the \<open>for\<close> loop of \<open>scheduler\<close> up to the next switch: from slot \<open>from\<close> on, the first
  runnable process is put on the CPU (\<open>Some p\<close>, the value at \<open>swtch\<close>), or the pass ends, the
  table lock is released and the outer loop starts again (\<open>None\<close>).
  \<open>scheduler_enter\<close> is the head of the outer loop, \<open>scheduler_back\<close> what follows \<open>swtch\<close>.
\<close>

definition next_runnable :: "nat \<Rightarrow> 'm ptable_state_scheme \<Rightarrow> nat option" where
  "next_runnable from s = first_index NPROC (\<lambda>i. from \<le> i \<and> p_state (procs s i) = RUNNABLE)"

definition scheduler_enter :: "'m ptable_state_scheme \<Rightarrow> (unit, 'm ptable_state_scheme) kres" where
  "scheduler_enter s = acquire Ptable_lock (s\<lparr>cpu := (cpu s)\<lparr>c_if := True\<rparr>\<rparr>)"

definition scheduler_pick ::
  "nat \<Rightarrow> 'm ptable_state_scheme \<Rightarrow> (nat option, 'm ptable_state_scheme) kres" where
  "scheduler_pick from s =
     (case next_runnable from s of
        None \<Rightarrow> bind (release Ptable_lock s) (\<lambda>_ s. Ret None s)
      | Some p \<Rightarrow>
          let s = s\<lparr>cpu := (cpu s)\<lparr>c_proc := Some p\<rparr>\<rparr>
          in bind (switchuvm p s) (\<lambda>_ s.
             Ret (Some p) (upd_proc p (\<lambda>q. q\<lparr>p_state := RUNNING\<rparr>) s)))"

definition scheduler_back :: "'m ptable_state_scheme \<Rightarrow> 'm ptable_state_scheme" where
  "scheduler_back s = (let s = switchkvm s in s\<lparr>cpu := (cpu s)\<lparr>c_proc := None\<rparr>\<rparr>)"

section \<open>Threads: identity and joining\<close>

definition thread_getId :: "'m ptable_state_scheme \<Rightarrow> int" where
  "thread_getId s =
     (case c_proc (cpu s) of
        Some i \<Rightarrow> if p_isthread (procs s i) then p_thread_id (procs s i) else - 1
      | None \<Rightarrow> - 1)"

definition thread_getProcId :: "'m ptable_state_scheme \<Rightarrow> int" where
  "thread_getProcId s =
     (case c_proc (cpu s) of Some i \<Rightarrow> p_pid (procs s i) | None \<Rightarrow> - 1)"

text \<open>
  \<open>thread_join\<close> up to its sleep. Its assignment to the parameter \<open>ret_val\<close> changes a local
  variable only.
\<close>

definition thread_join :: "int \<Rightarrow> 'm ptable_state_scheme \<Rightarrow> (int, 'm ptable_state_scheme) kres" where
  "thread_join thread_id s =
     bind (acquire Ptable_lock s) (\<lambda>_ s.
     with_proc s (\<lambda>me.
     case first_index NPROC (\<lambda>t. p_pid (procs s t) = p_pid (procs s me) \<and> p_isthread (procs s t) \<and>
                                 p_thread_id (procs s t) = thread_id \<and> t \<noteq> me) of
       None \<Rightarrow> bind (release Ptable_lock s) (\<lambda>_ s. Ret (- 1) s)
     | Some t \<Rightarrow>
         if p_isjoined (procs s t) then bind (release Ptable_lock s) (\<lambda>_ s. Ret (- 2) s)
         else if p_state (procs s t) = ZOMBIE then bind (release Ptable_lock s) (\<lambda>_ s. Ret 0 s)
         else sleep (Proc_chan t) (Some Ptable_lock) (upd_proc t (\<lambda>p. p\<lparr>p_isjoined := True\<rparr>) s)))"

definition thread_join_resume :: "bool \<Rightarrow> 'm ptable_state_scheme \<Rightarrow> (int, 'm ptable_state_scheme) kres" where
  "thread_join_resume intena s =
     bind (sleep_resume Ptable_lock intena s) (\<lambda>_ s.
     bind (release Ptable_lock s) (\<lambda>_ s. Ret 0 s))"

section \<open>Frame rules\<close>

lemma upd_proc_simps [simp]:
  "procs (upd_proc i f s) = (procs s)(i := f (procs s i))"
  "cpu (upd_proc i f s) = cpu s"
  "locks (upd_proc i f s) = locks s"
  "binary_semaphores (upd_proc i f s) = binary_semaphores s"
  "initproc (upd_proc i f s) = initproc s"
  "nextpid (upd_proc i f s) = nextpid s"
  "mem (upd_proc i f s) = mem s"
  "kpgdir (upd_proc i f s) = kpgdir s"
  "ptable_state.more (upd_proc i f s) = ptable_state.more s"
  by (simp_all add: upd_proc_def)

lemma lock_frame_ptable [simp]:
  "procs (take_lock l s) = procs s" "procs (drop_lock l s) = procs s" "procs (pushcli s) = procs s"
  "binary_semaphores (take_lock l s) = binary_semaphores s"
  "binary_semaphores (drop_lock l s) = binary_semaphores s"
  "kpgdir (take_lock l s) = kpgdir s" "kpgdir (drop_lock l s) = kpgdir s"
  "initproc (take_lock l s) = initproc s" "initproc (drop_lock l s) = initproc s"
  "nextpid (take_lock l s) = nextpid s" "nextpid (drop_lock l s) = nextpid s"
  "ptable_state.more (take_lock l s) = ptable_state.more s"
  "ptable_state.more (drop_lock l s) = ptable_state.more s"
  by (simp_all add: take_lock_def drop_lock_def pushcli_def Let_def)

lemma upd_proc_locks [simp]:
  "holding l (upd_proc i f s) = holding l s"
  "unlocked l (upd_proc i f s) = unlocked l s"
  "cpu_ok (upd_proc i f s) = cpu_ok s"
  by (simp_all add: holding_def unlocked_def cpu_ok_def)

text \<open>\<open>wakeup1\<close> makes exactly the processes sleeping on the channel runnable.\<close>

definition woken :: "chan option \<Rightarrow> proc \<Rightarrow> proc" where
  "woken chan p = (if p_state p = SLEEPING \<and> p_chan p = chan then p\<lparr>p_state := RUNNABLE\<rparr> else p)"

lemma wakeup1_eq:
  "wakeup1 chan s = s\<lparr>procs := (\<lambda>i. if i < NPROC then woken chan (procs s i) else procs s i)\<rparr>"
proof -
  have "fold (\<lambda>i s. if p_state (procs s i) = SLEEPING \<and> p_chan (procs s i) = chan
                 then upd_proc i (\<lambda>p. p\<lparr>p_state := RUNNABLE\<rparr>) s else s) xs s
        = s\<lparr>procs := fold (\<lambda>i f. f(i := woken chan (f i))) xs (procs s)\<rparr>" for xs
    by (induction xs arbitrary: s) (auto simp: upd_proc_def woken_def)
  then show ?thesis
    by (simp add: wakeup1_def fold_pointwise [where g = "\<lambda>_. woken chan"])
qed

lemma woken_simps [simp]:
  "p_chan (woken chan p) = p_chan p" "p_pid (woken chan p) = p_pid p"
  "p_parent (woken chan p) = p_parent p" "p_isthread (woken chan p) = p_isthread p"
  "p_threadnum (woken chan p) = p_threadnum p" "p_pgdir (woken chan p) = p_pgdir p"
  "p_kstack (woken chan p) = p_kstack p" "p_isjoined (woken chan p) = p_isjoined p"
  "p_thread_id (woken chan p) = p_thread_id p" "p_killed (woken chan p) = p_killed p"
  "p_sem_queue_pos (woken chan p) = p_sem_queue_pos p"
  "p_waiting_for_semaphore (woken chan p) = p_waiting_for_semaphore p"
  by (simp_all add: woken_def)

lemma wakeup1_simps [simp]:
  "cpu (wakeup1 chan s) = cpu s" "locks (wakeup1 chan s) = locks s"
  "binary_semaphores (wakeup1 chan s) = binary_semaphores s"
  "holding l (wakeup1 chan s) = holding l s" "cpu_ok (wakeup1 chan s) = cpu_ok s"
  by (simp_all add: wakeup1_eq holding_def cpu_ok_def)

section \<open>Running a process from the idle CPU\<close>

text \<open>
  The CPU between two passes of its scheduler: no process, no lock held. \<open>dispatch\<close> is a pass that
  reaches slot \<open>i\<close>; \<open>run_call\<close> lets the process, which gave up the CPU in \<open>yield\<close>, return from it
  and call into the kernel; \<open>run_resume\<close> lets a process that slept continue. \<open>back_to_idle\<close> is the
  rest of the pass after the process has switched back, \<open>end_call\<close> a return to user mode followed
  by the timer interrupt that takes the CPU away.
\<close>

definition idle :: "'m ptable_state_scheme \<Rightarrow> bool" where
  "idle s \<longleftrightarrow> c_ncli (cpu s) = 0 \<and> c_proc (cpu s) = None \<and> unlocked Ptable_lock s"

definition dispatch :: "nat \<Rightarrow> 'm ptable_state_scheme \<Rightarrow> (nat option, 'm ptable_state_scheme) kres" where
  "dispatch i s = bind (scheduler_enter s) (\<lambda>_ s. scheduler_pick i s)"

definition run_call ::
  "nat \<Rightarrow> ('m ptable_state_scheme \<Rightarrow> ('a, 'm ptable_state_scheme) kres) \<Rightarrow>
   'm ptable_state_scheme \<Rightarrow> ('a, 'm ptable_state_scheme) kres" where
  "run_call i call s = bind (dispatch i s) (\<lambda>_ s. bind (yield_resume True s) (\<lambda>_ s. call s))"

definition run_resume ::
  "nat \<Rightarrow> (bool \<Rightarrow> 'm ptable_state_scheme \<Rightarrow> ('a, 'm ptable_state_scheme) kres) \<Rightarrow>
   'm ptable_state_scheme \<Rightarrow> ('a, 'm ptable_state_scheme) kres" where
  "run_resume i call s = bind (dispatch i s) (\<lambda>_ s. call True s)"

definition back_to_idle :: "'m ptable_state_scheme \<Rightarrow> (nat option, 'm ptable_state_scheme) kres" where
  "back_to_idle s = scheduler_pick NPROC (scheduler_back s)"

definition end_call :: "'m ptable_state_scheme \<Rightarrow> (nat option, 'm ptable_state_scheme) kres" where
  "end_call s = (case yield s of Asleep s \<Rightarrow> back_to_idle s | _ \<Rightarrow> Undef)"

text \<open>What these compositions compute, in closed form.\<close>

definition dispatched :: "nat \<Rightarrow> 'm ptable_state_scheme \<Rightarrow> 'm ptable_state_scheme" where
  "dispatched i s =
     s\<lparr>cpu := (cpu s)\<lparr>c_ncli := 1, c_intena := True, c_if := False, c_proc := Some i,
                     c_cr3 := v2p (p_pgdir (procs s i)), c_esp0 := p_kstack (procs s i) + KSTACKSIZE\<rparr>,
       locks := (locks s)(Ptable_lock := (locks s Ptable_lock)\<lparr>lk_locked := True,
                                                lk_cpu := Some (c_id (cpu s))\<rparr>),
       procs := (procs s)(i := (procs s i)\<lparr>p_state := RUNNING\<rparr>)\<rparr>"

lemma next_runnable_self:
  "i < NPROC \<Longrightarrow> p_state (procs s i) = RUNNABLE \<Longrightarrow> next_runnable i s = Some i"
  by (simp add: next_runnable_def first_indexI)

lemma dispatch_eq:
  assumes "idle s" and "i < NPROC" and "p_state (procs s i) = RUNNABLE" and "p_pgdir (procs s i) \<noteq> 0"
  shows "dispatch i s = Ret (Some i) (dispatched i s)"
  using assms
  by (simp add: idle_def dispatch_def scheduler_enter_def acquire_def pushcli_def unlocked_def holding_def
      scheduler_pick_def next_runnable_self switchuvm_def with_proc_def popcli_def Let_def
      dispatched_def upd_proc_def)

definition in_user :: "nat \<Rightarrow> 'm ptable_state_scheme \<Rightarrow> 'm ptable_state_scheme" where
  "in_user i s = drop_lock Ptable_lock (dispatched i s)"

lemma dispatched_simps [simp]:
  "procs (dispatched i s) = (procs s)(i := (procs s i)\<lparr>p_state := RUNNING\<rparr>)"
  "c_proc (cpu (dispatched i s)) = Some i" "c_ncli (cpu (dispatched i s)) = 1"
  "c_intena (cpu (dispatched i s))" "\<not> c_if (cpu (dispatched i s))"
  "c_id (cpu (dispatched i s)) = c_id (cpu s)"
  "binary_semaphores (dispatched i s) = binary_semaphores s"
  "holding Ptable_lock (dispatched i s)" "cpu_ok (dispatched i s)"
  "unlocked l (dispatched i s) \<longleftrightarrow> l \<noteq> Ptable_lock \<and> unlocked l s"
  "sched_resume True (dispatched i s) = dispatched i s"
  by (auto simp: dispatched_def holding_def cpu_ok_def unlocked_def sched_resume_def)

lemma in_user_simps [simp]:
  "procs (in_user i s) = (procs s)(i := (procs s i)\<lparr>p_state := RUNNING\<rparr>)"
  "c_proc (cpu (in_user i s)) = Some i" "c_ncli (cpu (in_user i s)) = 0"
  "c_intena (cpu (in_user i s))" "c_if (cpu (in_user i s))"
  "c_id (cpu (in_user i s)) = c_id (cpu s)"
  "binary_semaphores (in_user i s) = binary_semaphores s"
  "cpu_ok (in_user i s)"
  "unlocked l (in_user i s) \<longleftrightarrow> l = Ptable_lock \<or> unlocked l s"
  by (auto simp: in_user_def)

lemma run_call_eq:
  assumes "idle s" and "i < NPROC" and "p_state (procs s i) = RUNNABLE" and "p_pgdir (procs s i) \<noteq> 0"
  shows "run_call i call s = call (in_user i s)"
  using assms by (simp add: run_call_def dispatch_eq yield_resume_def release_held in_user_def)

lemma run_resume_eq:
  assumes "idle s" and "i < NPROC" and "p_state (procs s i) = RUNNABLE" and "p_pgdir (procs s i) \<noteq> 0"
  shows "run_resume i call s = call True (dispatched i s)"
  using assms by (simp add: run_resume_def dispatch_eq)

definition idled :: "'m ptable_state_scheme \<Rightarrow> 'm ptable_state_scheme" where
  "idled s = drop_lock Ptable_lock (scheduler_back s)"

lemma scheduler_back_simps [simp]:
  "c_proc (cpu (scheduler_back s)) = None" "c_ncli (cpu (scheduler_back s)) = c_ncli (cpu s)"
  "c_if (cpu (scheduler_back s)) = c_if (cpu s)" "c_intena (cpu (scheduler_back s)) = c_intena (cpu s)"
  "c_id (cpu (scheduler_back s)) = c_id (cpu s)" "locks (scheduler_back s) = locks s"
  "procs (scheduler_back s) = procs s" "binary_semaphores (scheduler_back s) = binary_semaphores s"
  "holding l (scheduler_back s) = holding l s" "unlocked l (scheduler_back s) = unlocked l s"
  "cpu_ok (scheduler_back s) = cpu_ok s"
  by (simp_all add: scheduler_back_def switchkvm_def Let_def holding_def unlocked_def cpu_ok_def)

lemma idled_simps [simp]:
  "procs (idled s) = procs s" "binary_semaphores (idled s) = binary_semaphores s"
  "c_proc (cpu (idled s)) = None" "c_ncli (cpu (idled s)) = c_ncli (cpu s) - 1"
  "c_id (cpu (idled s)) = c_id (cpu s)"
  "unlocked l (idled s) \<longleftrightarrow> l = Ptable_lock \<or> unlocked l s"
  by (simp_all add: idled_def)

lemma back_to_idle_eq:
  assumes "holding Ptable_lock s" and "c_ncli (cpu s) = 1" and "\<not> c_if (cpu s)"
  shows "back_to_idle s = Ret None (idled s)" and "idle (idled s)"
proof -
  have "next_runnable NPROC (scheduler_back s) = None"
    by (simp add: next_runnable_def first_index_None)
  then show "back_to_idle s = Ret None (idled s)"
    using assms by (simp add: back_to_idle_def scheduler_pick_def release_held cpu_ok_def idled_def)
  show "idle (idled s)" using assms by (simp add: idle_def)
qed

text \<open>A process that returns to user mode goes back to the end of the line.\<close>

definition preempted :: "nat \<Rightarrow> 'm ptable_state_scheme \<Rightarrow> 'm ptable_state_scheme" where
  "preempted i s = idled (upd_proc i (\<lambda>p. p\<lparr>p_state := RUNNABLE\<rparr>) (take_lock Ptable_lock s))"

lemma end_call_eq:
  assumes "unlocked Ptable_lock s" and "c_ncli (cpu s) = 0" and "c_proc (cpu s) = Some i"
  shows "end_call s = Ret None (preempted i s)" and "idle (preempted i s)"
proof -
  let ?t = "upd_proc i (\<lambda>p. p\<lparr>p_state := RUNNABLE\<rparr>) (take_lock Ptable_lock s)"
  have "yield s = Asleep ?t"
    using assms by (simp add: yield_def acquire_free with_proc_def sched_def)
  moreover have "holding Ptable_lock ?t" "c_ncli (cpu ?t) = 1" "\<not> c_if (cpu ?t)"
    using assms by simp_all
  note back_to_idle_eq [OF this]
  ultimately show "end_call s = Ret None (preempted i s)" and "idle (preempted i s)"
    by (simp_all add: end_call_def preempted_def)
qed

lemma preempted_simps [simp]:
  "procs (preempted i s) = (procs s)(i := (procs s i)\<lparr>p_state := RUNNABLE\<rparr>)"
  "binary_semaphores (preempted i s) = binary_semaphores s"
  "c_id (cpu (preempted i s)) = c_id (cpu s)"
  "unlocked l (preempted i s) \<longleftrightarrow> l = Ptable_lock \<or> unlocked l s"
  by (auto simp: preempted_def)

section \<open>An example state\<close>

text \<open>A kernel on the idle CPU 0 with the given processes and semaphores.\<close>

definition blank_proc :: proc where
  "blank_proc = \<lparr>p_sz = 0, p_pgdir = 0, p_kstack = 0, p_state = UNUSED, p_pid = 0, p_parent = None,
     p_tf = 0, p_context = 0, p_chan = None, p_killed = False, p_ofile = (\<lambda>_. None), p_cwd = None,
     p_name = replicate 16 0, p_isthread = False, p_isjoined = False, p_thread_id = 0, p_threadnum = 0,
     p_waiting_for_semaphore = 0, p_sem_queue_pos = 0, p_ret_val = 0\<rparr>"

definition kernel_example :: "(nat \<Rightarrow> proc) \<Rightarrow> (nat \<Rightarrow> b_semaphore) \<Rightarrow> ptable_state" where
  "kernel_example ps sems =
     \<lparr>cpu = idle_cpu 0, locks = (\<lambda>_. free_lock),
      mem = store32 (\<lambda>_. 0) 0x80400000 0x80401000,
      k_use_lock = True, k_freelist = 0x80400000, k_end = 0x80110000,
      kpgdir = 0x803FF000, k_data = 0x80108000,
      procs = ps, nextpid = 10, initproc = Some 0, binary_semaphores = sems,
      a_forkret = 0x80104000, a_trapret = 0x80105000\<rparr>"

lemma kernel_example_simps [simp]:
  "procs (kernel_example ps sems) = ps" "binary_semaphores (kernel_example ps sems) = sems"
  "unlocked l (kernel_example ps sems)" "idle (kernel_example ps sems)"
  "cpu_ok (kernel_example ps sems)"
  by (simp_all add: kernel_example_def unlocked_def idle_def idle_cpu_def free_lock_def cpu_ok_def)

definition runnable_proc :: "int \<Rightarrow> proc" where
  "runnable_proc pid = blank_proc\<lparr>p_pid := pid, p_state := RUNNABLE, p_pgdir := 0x803FE000,
     p_kstack := 0x803FD000, p_threadnum := 1, p_waiting_for_semaphore := - 1\<rparr>"

end
