(* ===== verification/BinSem.thy ===== *)
theory BinSem
  imports Proc
begin

text \<open>
  Kernel binary semaphores (\<open>binary_semaphore_create\<close>, \<open>_down\<close>, \<open>_up\<close> of \<open>proc.c\<close>). Waiting
  processes are queued by a position stored in each process. The theory shows mutual exclusion for
  every interleaving of calls, the first-come order in which a queue is served when a woken process
  runs before the semaphore is touched again, and the schedule on which a waiter is lost.
\<close>

section \<open>Operations\<close>

abbreviation NSEM :: nat where "NSEM \<equiv> 128"

definition upd_sem ::
  "nat \<Rightarrow> (b_semaphore \<Rightarrow> b_semaphore) \<Rightarrow> 'm ptable_state_scheme \<Rightarrow> 'm ptable_state_scheme" where
  "upd_sem i f s = s\<lparr>binary_semaphores := (binary_semaphores s)(i := f (binary_semaphores s i))\<rparr>"

definition binary_semaphore_create ::
  "int \<Rightarrow> 'm ptable_state_scheme \<Rightarrow> (int, 'm ptable_state_scheme) kres" where
  "binary_semaphore_create initial_value s =
     bind (acquire Semtable_lock s) (\<lambda>_ s.
     case first_index NSEM (\<lambda>i. \<not> sem_created (binary_semaphores s i)) of
       Some i \<Rightarrow>
         let s = initlock (Sem_lock i) ''b_semaphore'' s;
             s = upd_sem i (\<lambda>b. b\<lparr>sem_created := True, sem_value := initial_value\<rparr>) s
         in bind (release Semtable_lock s) (\<lambda>_ s. Ret (int i) s)
     | None \<Rightarrow> bind (release Semtable_lock s) (\<lambda>_ s. Ret (- 1) s))"

text \<open>
  One round of the loop of \<open>binary_semaphore_down\<close>, up to the return or the sleep; \<open>n\<close> is the
  index of the semaphore. \<open>_resume\<close> is the return from \<open>sleep\<close> and the next round.
\<close>

definition sem_enqueue :: "nat \<Rightarrow> nat \<Rightarrow> 'm ptable_state_scheme \<Rightarrow> 'm ptable_state_scheme" where
  "sem_enqueue n i s =
     (let s = upd_sem n (\<lambda>b. b\<lparr>sem_waiting := sem_waiting b + 1\<rparr>) s
      in upd_proc i (\<lambda>p. p\<lparr>p_sem_queue_pos := sem_waiting (binary_semaphores s n)\<rparr>) s)"

definition down_round :: "nat \<Rightarrow> 'm ptable_state_scheme \<Rightarrow> (int, 'm ptable_state_scheme) kres" where
  "down_round n s =
     (if sem_created (binary_semaphores s n) then
        with_proc s (\<lambda>i.
        if sem_value (binary_semaphores s n) \<noteq> 0 \<and> p_sem_queue_pos (procs s i) = 0 then
          let s = upd_sem n (\<lambda>b. b\<lparr>sem_value := 0\<rparr>) s;
              s = upd_proc i (\<lambda>p. p\<lparr>p_waiting_for_semaphore := - 1\<rparr>) s
          in bind (release (Sem_lock n) s) (\<lambda>_ s. Ret 0 s)
        else
          let s = (if p_sem_queue_pos (procs s i) = 0 then sem_enqueue n i s else s);
              s = upd_proc i (\<lambda>p. p\<lparr>p_waiting_for_semaphore := int n\<rparr>) s
          in sleep (Sem_chan n) (Some (Sem_lock n)) s)
      else bind (release (Sem_lock n) s) (\<lambda>_ s. Ret (- 1) s))"

definition binary_semaphore_down ::
  "int \<Rightarrow> 'm ptable_state_scheme \<Rightarrow> (int, 'm ptable_state_scheme) kres" where
  "binary_semaphore_down ID s =
     (if ID < 0 \<or> int NSEM \<le> ID then Undef
      else let n = nat ID
           in bind (acquire (Sem_lock n) s) (\<lambda>_ s.
              if sem_waiting (binary_semaphores s n) \<noteq> 0
              then with_proc s (\<lambda>i. down_round n (sem_enqueue n i s))
              else down_round n s))"

definition binary_semaphore_down_resume ::
  "int \<Rightarrow> bool \<Rightarrow> 'm ptable_state_scheme \<Rightarrow> (int, 'm ptable_state_scheme) kres" where
  "binary_semaphore_down_resume ID intena s =
     bind (sleep_resume (Sem_lock (nat ID)) intena s) (\<lambda>_ s. down_round (nat ID) s)"

text \<open>The scan of the process table in \<open>binary_semaphore_up\<close>, with the variable \<open>first\<close>.\<close>

fun up_visit ::
  "nat \<Rightarrow> nat \<Rightarrow> nat option \<times> 'm ptable_state_scheme \<Rightarrow> nat option \<times> 'm ptable_state_scheme" where
  "up_visit n i (first, s) =
     (if Some i \<noteq> c_proc (cpu s) \<and> p_waiting_for_semaphore (procs s i) = int n then
        let s = upd_proc i (\<lambda>p. p\<lparr>p_sem_queue_pos := p_sem_queue_pos p - 1\<rparr>) s
        in (if p_sem_queue_pos (procs s i) = 0 then Some i else first, s)
      else (first, s))"

definition up_scan ::
  "nat \<Rightarrow> nat option \<times> 'm ptable_state_scheme \<Rightarrow> nat option \<times> 'm ptable_state_scheme" where
  "up_scan n = fold (up_visit n) [0..<NPROC]"

definition wake_first :: "nat option \<Rightarrow> 'm ptable_state_scheme \<Rightarrow> 'm ptable_state_scheme" where
  "wake_first first s =
     (case first of
        Some p \<Rightarrow> if p_state (procs s p) = SLEEPING
                  then upd_proc p (\<lambda>q. q\<lparr>p_state := RUNNABLE\<rparr>) s else s
      | None \<Rightarrow> s)"

definition binary_semaphore_up ::
  "int \<Rightarrow> 'm ptable_state_scheme \<Rightarrow> (int, 'm ptable_state_scheme) kres" where
  "binary_semaphore_up ID s =
     (if ID < 0 \<or> int NSEM \<le> ID then Undef
      else let n = nat ID
           in bind (acquire (Sem_lock n) s) (\<lambda>_ s.
              if sem_created (binary_semaphores s n) then
                bind (acquire Ptable_lock s) (\<lambda>_ s.
                let (first, s) = up_scan n (None, s);
                    s = (if sem_waiting (binary_semaphores s n) > 0
                         then upd_sem n (\<lambda>b. b\<lparr>sem_waiting := sem_waiting b - 1\<rparr>) s else s);
                    s = upd_sem n (\<lambda>b. b\<lparr>sem_value := 1\<rparr>) s;
                    s = wake_first first s
                in bind (release Ptable_lock s) (\<lambda>_ s.
                   bind (release (Sem_lock n) s) (\<lambda>_ s. Ret 0 s)))
              else bind (release (Sem_lock n) s) (\<lambda>_ s. Ret (- 1) s)))"

section \<open>Closed forms\<close>

lemma upd_sem_simps [simp]:
  "binary_semaphores (upd_sem i f s) = (binary_semaphores s)(i := f (binary_semaphores s i))"
  "procs (upd_sem i f s) = procs s" "cpu (upd_sem i f s) = cpu s" "locks (upd_sem i f s) = locks s"
  "holding l (upd_sem i f s) = holding l s" "unlocked l (upd_sem i f s) = unlocked l s"
  "cpu_ok (upd_sem i f s) = cpu_ok s"
  by (simp_all add: upd_sem_def holding_def unlocked_def cpu_ok_def)

lemma sem_enqueue_simps [simp]:
  "binary_semaphores (sem_enqueue n i s) =
     (binary_semaphores s)(n := (binary_semaphores s n)\<lparr>sem_waiting := sem_waiting (binary_semaphores s n) + 1\<rparr>)"
  "procs (sem_enqueue n i s) =
     (procs s)(i := (procs s i)\<lparr>p_sem_queue_pos := sem_waiting (binary_semaphores s n) + 1\<rparr>)"
  "cpu (sem_enqueue n i s) = cpu s" "locks (sem_enqueue n i s) = locks s"
  "holding l (sem_enqueue n i s) = holding l s" "unlocked l (sem_enqueue n i s) = unlocked l s"
  "cpu_ok (sem_enqueue n i s) = cpu_ok s"
  by (simp_all add: sem_enqueue_def Let_def upd_sem_def holding_def unlocked_def cpu_ok_def)

text \<open>The effect of an \<open>up\<close> on one process, and the process the scan selects.\<close>

definition moved_up :: "nat \<Rightarrow> nat option \<Rightarrow> nat \<Rightarrow> proc \<Rightarrow> proc" where
  "moved_up n me i p =
     (if Some i \<noteq> me \<and> p_waiting_for_semaphore p = int n
      then p\<lparr>p_sem_queue_pos := p_sem_queue_pos p - 1\<rparr> else p)"

definition last_opt :: "'a list \<Rightarrow> 'a option" where
  "last_opt xs = (if xs = [] then None else Some (last xs))"

definition up_first :: "nat \<Rightarrow> nat option \<Rightarrow> (nat \<Rightarrow> proc) \<Rightarrow> nat option" where
  "up_first n me ps =
     last_opt (filter (\<lambda>i. Some i \<noteq> me \<and> p_waiting_for_semaphore (ps i) = int n
                          \<and> p_sem_queue_pos (ps i) = 1) [0..<NPROC])"

lemma up_scan_fold:
  assumes "distinct xs"
  shows "fold (up_visit n) xs (None, s) =
         (last_opt (filter (\<lambda>i. Some i \<noteq> c_proc (cpu s) \<and> p_waiting_for_semaphore (procs s i) = int n
                               \<and> p_sem_queue_pos (procs s i) = 1) xs),
          s\<lparr>procs := (\<lambda>i. if i \<in> set xs then moved_up n (c_proc (cpu s)) i (procs s i) else procs s i)\<rparr>)"
  using assms
proof (induction xs rule: rev_induct)
  case (snoc x xs)
  let ?f = "\<lambda>xs i. if i \<in> set xs then moved_up n (c_proc (cpu s)) i (procs s i) else procs s i"
  have "?f (xs @ [x]) = (?f xs)(x := moved_up n (c_proc (cpu s)) x (procs s x))"
    by auto
  then show ?case
    using snoc by (auto simp: Let_def upd_proc_def moved_up_def last_opt_def fun_upd_idem)
qed (simp add: last_opt_def)

lemma up_scan_eq:
  "up_scan n (None, s) =
     (up_first n (c_proc (cpu s)) (procs s),
      s\<lparr>procs := (\<lambda>i. if i < NPROC then moved_up n (c_proc (cpu s)) i (procs s i) else procs s i)\<rparr>)"
  unfolding up_scan_def up_first_def by (subst up_scan_fold) simp_all

text \<open>\<open>same_cpu s t\<close>: the CPU runs the same process at the same depth, and the same locks are free.\<close>

definition same_cpu :: "'m ptable_state_scheme \<Rightarrow> 'm ptable_state_scheme \<Rightarrow> bool" where
  "same_cpu s t \<longleftrightarrow> c_proc (cpu t) = c_proc (cpu s) \<and> c_ncli (cpu t) = c_ncli (cpu s) \<and>
     c_id (cpu t) = c_id (cpu s) \<and> cpu_ok t \<and> (\<forall>l. unlocked l t = unlocked l s)"

definition went_to_sleep :: "'m ptable_state_scheme \<Rightarrow> 'm ptable_state_scheme \<Rightarrow> bool" where
  "went_to_sleep s t \<longleftrightarrow> holding Ptable_lock t \<and> c_ncli (cpu t) = 1 \<and> \<not> c_if (cpu t) \<and>
     (\<forall>l. l \<noteq> Ptable_lock \<longrightarrow> unlocked l t = unlocked l s)"

definition after_up :: "nat \<Rightarrow> nat option \<Rightarrow> (nat \<Rightarrow> proc) \<Rightarrow> nat \<Rightarrow> proc" where
  "after_up n me ps i =
     (if i < NPROC then
        let p = moved_up n me i (ps i)
        in if up_first n me ps = Some i \<and> p_state p = SLEEPING then p\<lparr>p_state := RUNNABLE\<rparr> else p
      else ps i)"

lemma up_first_Some:
  assumes "up_first n me ps = Some i"
  shows "i < NPROC" and "Some i \<noteq> me" and "p_waiting_for_semaphore (ps i) = int n"
    and "p_sem_queue_pos (ps i) = 1"
proof -
  have "i \<in> set (filter (\<lambda>i. Some i \<noteq> me \<and> p_waiting_for_semaphore (ps i) = int n
                          \<and> p_sem_queue_pos (ps i) = 1) [0..<NPROC])"
    using assms last_in_set by (fastforce simp: up_first_def last_opt_def split: if_splits)
  then show "i < NPROC" "Some i \<noteq> me" "p_waiting_for_semaphore (ps i) = int n"
    "p_sem_queue_pos (ps i) = 1" by auto
qed

lemma after_up_wake:
  assumes "up_first n me ps = Some i" and "f = (\<lambda>i. if i < NPROC then moved_up n me i (ps i) else ps i)"
  shows "(if p_state (f i) = SLEEPING then f(i := (f i)\<lparr>p_state := RUNNABLE\<rparr>) else f) = after_up n me ps"
  using up_first_Some(1) [OF assms(1)] assms by (auto simp: after_up_def Let_def fun_eq_iff)

lemma procs_update_frame [simp]:
  "holding l (s\<lparr>procs := f\<rparr>) = holding l s" "unlocked l (s\<lparr>procs := f\<rparr>) = unlocked l s"
  "cpu_ok (s\<lparr>procs := f\<rparr>) = cpu_ok s"
  by (simp_all add: holding_def unlocked_def cpu_ok_def)

lemma wake_first_simps [simp]:
  "cpu (wake_first f s) = cpu s" "locks (wake_first f s) = locks s"
  "binary_semaphores (wake_first f s) = binary_semaphores s"
  "holding l (wake_first f s) = holding l s" "unlocked l (wake_first f s) = unlocked l s"
  "cpu_ok (wake_first f s) = cpu_ok s"
  by (auto simp: wake_first_def split: option.splits)

lemma wake_first_procs:
  "procs s = (\<lambda>i. if i < NPROC then moved_up n me i (ps i) else ps i) \<Longrightarrow>
   procs (wake_first (up_first n me ps) s) = after_up n me ps"
  using after_up_wake [of n me ps _ "procs s"]
  by (cases "up_first n me ps") (auto simp: wake_first_def after_up_def Let_def fun_eq_iff split: if_splits)

lemma binary_semaphore_up_returns:
  assumes "n < NSEM" and "sem_created (binary_semaphores s n)"
    and "unlocked (Sem_lock n) s" and "unlocked Ptable_lock s" and "cpu_ok s"
  shows "returns (binary_semaphore_up (int n) s) (\<lambda>r t. r = 0 \<and> same_cpu s t \<and>
     procs t = after_up n (c_proc (cpu s)) (procs s) \<and>
     binary_semaphores t = (binary_semaphores s)(n := (binary_semaphores s n)
       \<lparr>sem_value := 1, sem_waiting := (if sem_waiting (binary_semaphores s n) > 0
          then sem_waiting (binary_semaphores s n) - 1 else sem_waiting (binary_semaphores s n))\<rparr>))"
  supply cpu_ok_nonneg [simp del]
  using assms cpu_ok_nonneg [OF assms(5)]
  by (auto simp: binary_semaphore_up_def acquire_free up_scan_eq Let_def release_held same_cpu_def
      intro!: wake_first_procs)

text \<open>
  A round of \<open>down\<close>, run by process \<open>i\<close> with the semaphore's lock held: it takes the semaphore and
  returns, or it queues up and goes to sleep.
\<close>

lemma down_round_eq:
  assumes "holding (Sem_lock n) s" and "unlocked Ptable_lock s" and "c_ncli (cpu s) = 1"
    and "\<not> c_if (cpu s)" and "c_proc (cpu s) = Some i" and "sem_created (binary_semaphores s n)"
  shows "down_round n s =
    (if sem_value (binary_semaphores s n) \<noteq> 0 \<and> p_sem_queue_pos (procs s i) = 0
     then Ret 0 (drop_lock (Sem_lock n)
            (upd_proc i (\<lambda>p. p\<lparr>p_waiting_for_semaphore := - 1\<rparr>)
              (upd_sem n (\<lambda>b. b\<lparr>sem_value := 0\<rparr>) s)))
     else Asleep (upd_proc i (\<lambda>p. p\<lparr>p_chan := Some (Sem_chan n), p_state := SLEEPING\<rparr>)
            (drop_lock (Sem_lock n) (take_lock Ptable_lock
              (upd_proc i (\<lambda>p. p\<lparr>p_waiting_for_semaphore := int n\<rparr>)
                (if p_sem_queue_pos (procs s i) = 0 then sem_enqueue n i s else s))))))"
  using assms
  by (auto simp: down_round_def with_proc_def Let_def release_held cpu_ok_def sleep_def acquire_free sched_def)

section \<open>Calls from user processes\<close>

text \<open>
  A call run from the idle CPU, together with the way back to the idle CPU. \<open>sem_taken\<close> and
  \<open>sem_blocked\<close> are the two ways a \<open>down\<close> can end.
\<close>

definition ready :: "nat \<Rightarrow> 'm ptable_state_scheme \<Rightarrow> bool" where
  "ready i s \<longleftrightarrow> i < NPROC \<and> p_state (procs s i) = RUNNABLE \<and> p_pgdir (procs s i) \<noteq> 0"

definition sem_ok :: "nat \<Rightarrow> 'm ptable_state_scheme \<Rightarrow> bool" where
  "sem_ok n s \<longleftrightarrow> n < NSEM \<and> idle s \<and> unlocked (Sem_lock n) s \<and> sem_created (binary_semaphores s n)"

definition sem_frame :: "nat \<Rightarrow> 'm ptable_state_scheme \<Rightarrow> 'm ptable_state_scheme \<Rightarrow> bool" where
  "sem_frame n s u \<longleftrightarrow> (\<forall>m. m \<noteq> n \<longrightarrow> binary_semaphores u m = binary_semaphores s m) \<and>
     (\<forall>l. l \<noteq> Sem_lock n \<longrightarrow> l \<noteq> Ptable_lock \<longrightarrow> unlocked l u = unlocked l s)"

definition sem_taken :: "nat \<Rightarrow> nat \<Rightarrow> 'm ptable_state_scheme \<Rightarrow> 'm ptable_state_scheme \<Rightarrow> bool" where
  "sem_taken n i s u \<longleftrightarrow> sem_ok n u \<and> sem_frame n s u \<and> sem_value (binary_semaphores s n) \<noteq> 0 \<and>
     sem_value (binary_semaphores u n) = 0 \<and> (\<forall>j. j \<noteq> i \<longrightarrow> procs u j = procs s j)"

definition sem_blocked :: "nat \<Rightarrow> nat \<Rightarrow> 'm ptable_state_scheme \<Rightarrow> 'm ptable_state_scheme \<Rightarrow> bool" where
  "sem_blocked n i s u \<longleftrightarrow> sem_ok n u \<and> sem_frame n s u \<and>
     sem_value (binary_semaphores u n) = sem_value (binary_semaphores s n) \<and>
     (\<forall>j. j \<noteq> i \<longrightarrow> procs u j = procs s j)"

definition down_ends ::
  "nat \<Rightarrow> nat \<Rightarrow> 'm ptable_state_scheme \<Rightarrow> (int, 'm ptable_state_scheme) kres \<Rightarrow> bool" where
  "down_ends n i s m \<longleftrightarrow>
     (\<exists>t u. m = Ret 0 t \<and> end_call t = Ret None u \<and> sem_taken n i s u) \<or>
     (\<exists>t u. m = Asleep t \<and> back_to_idle t = Ret None u \<and> sem_blocked n i s u)"

lemma down_round_ends:
  assumes "n < NSEM" and "holding (Sem_lock n) s" and "unlocked Ptable_lock s" and "c_ncli (cpu s) = 1"
    and "\<not> c_if (cpu s)" and "c_proc (cpu s) = Some i" and "sem_created (binary_semaphores s n)"
  shows "down_ends n i s (down_round n s)"
proof (cases "sem_value (binary_semaphores s n) \<noteq> 0 \<and> p_sem_queue_pos (procs s i) = 0")
  case True
  let ?t = "drop_lock (Sem_lock n) (upd_proc i (\<lambda>p. p\<lparr>p_waiting_for_semaphore := - 1\<rparr>)
              (upd_sem n (\<lambda>b. b\<lparr>sem_value := 0\<rparr>) s))"
  have "end_call ?t = Ret None (preempted i ?t)" "idle (preempted i ?t)"
    using assms by (intro end_call_eq; simp)+
  moreover have "down_round n s = Ret 0 ?t"
    using True by (simp add: down_round_eq [OF assms(2-7)])
  moreover have "sem_taken n i s (preempted i ?t)"
    using assms True \<open>idle (preempted i ?t)\<close> by (simp add: sem_taken_def sem_frame_def sem_ok_def)
  ultimately show ?thesis unfolding down_ends_def by blast
next
  case False
  let ?t = "upd_proc i (\<lambda>p. p\<lparr>p_chan := Some (Sem_chan n), p_state := SLEEPING\<rparr>)
            (drop_lock (Sem_lock n) (take_lock Ptable_lock
              (upd_proc i (\<lambda>p. p\<lparr>p_waiting_for_semaphore := int n\<rparr>)
                (if p_sem_queue_pos (procs s i) = 0 then sem_enqueue n i s else s))))"
  have "back_to_idle ?t = Ret None (idled ?t)" "idle (idled ?t)"
    using assms by (intro back_to_idle_eq; simp)+
  moreover have "down_round n s = Asleep ?t"
    using False unfolding down_round_eq [OF assms(2-7)] by (rule if_not_P)
  moreover have "sem_blocked n i s (idled ?t)"
    using assms \<open>idle (idled ?t)\<close> by (simp add: sem_blocked_def sem_frame_def sem_ok_def)
  ultimately show ?thesis unfolding down_ends_def by blast
qed

lemma down_ends_cong:
  "sem_value (binary_semaphores s' n) = sem_value (binary_semaphores s n) \<Longrightarrow>
   (\<And>j. j \<noteq> i \<Longrightarrow> procs s' j = procs s j) \<Longrightarrow> sem_frame n s s' \<Longrightarrow>
   down_ends n i s' m \<Longrightarrow> down_ends n i s m"
  by (auto simp: down_ends_def sem_taken_def sem_blocked_def sem_frame_def)

lemma down_call_ends:
  assumes "sem_ok n s" and "ready i s"
  shows "down_ends n i s (run_call i (binary_semaphore_down (int n)) s)"
proof -
  let ?s = "take_lock (Sem_lock n) (in_user i s)"
  let ?t = "if sem_waiting (binary_semaphores s n) \<noteq> 0 then sem_enqueue n i ?s else ?s"
  have "run_call i (binary_semaphore_down (int n)) s = down_round n ?t"
    using assms by (auto simp: sem_ok_def ready_def run_call_eq binary_semaphore_down_def acquire_free
        with_proc_def Let_def)
  moreover have "down_ends n i ?t (down_round n ?t)"
    using assms by (intro down_round_ends) (auto simp: sem_ok_def ready_def idle_def)
  ultimately show ?thesis by (auto simp: sem_frame_def intro: down_ends_cong [where s' = ?t])
qed

lemma down_wake_ends:
  assumes "sem_ok n s" and "ready i s"
  shows "down_ends n i s (run_resume i (binary_semaphore_down_resume (int n)) s)"
proof -
  let ?t = "take_lock (Sem_lock n)
              (drop_lock Ptable_lock (upd_proc i (\<lambda>p. p\<lparr>p_chan := None\<rparr>) (dispatched i s)))"
  have "run_resume i (binary_semaphore_down_resume (int n)) s = down_round n ?t"
    using assms by (auto simp: sem_ok_def ready_def run_resume_eq binary_semaphore_down_resume_def
        sleep_resume_def with_proc_def Let_def release_held acquire_free)
  moreover have "down_ends n i ?t (down_round n ?t)"
    using assms by (intro down_round_ends) (auto simp: sem_ok_def ready_def idle_def)
  ultimately show ?thesis by (auto simp: sem_frame_def intro: down_ends_cong [where s' = ?t])
qed

lemma after_up_self [simp]: "after_up n (Some i) ps i = ps i"
  by (auto simp: after_up_def moved_up_def Let_def dest: up_first_Some)

lemma up_first_cong: "up_first n (Some i) (ps(i := p)) = up_first n (Some i) ps"
  unfolding up_first_def by (rule arg_cong [where f = last_opt], rule filter_cong) auto

lemma after_up_upd_self: "after_up n (Some i) (ps(i := p)) = (after_up n (Some i) ps)(i := p)"
  by (rule ext) (auto simp: after_up_def moved_up_def Let_def up_first_cong dest: up_first_Some(2))

lemma up_call_ends:
  assumes "sem_ok n s" and "ready i s"
  shows "\<exists>t u. run_call i (binary_semaphore_up (int n)) s = Ret 0 t \<and> end_call t = Ret None u \<and>
           sem_ok n u \<and> sem_frame n s u \<and> sem_value (binary_semaphores u n) = 1 \<and>
           sem_waiting (binary_semaphores u n) =
             (if sem_waiting (binary_semaphores s n) > 0 then sem_waiting (binary_semaphores s n) - 1
              else sem_waiting (binary_semaphores s n)) \<and>
           procs u = after_up n (Some i) (procs s)"
proof -
  have "returns (binary_semaphore_up (int n) (in_user i s)) (\<lambda>r t. r = 0 \<and> same_cpu (in_user i s) t \<and>
          procs t = after_up n (Some i) (procs (in_user i s)) \<and>
          binary_semaphores t = (binary_semaphores s)(n := (binary_semaphores s n)
            \<lparr>sem_value := 1, sem_waiting :=
              (if sem_waiting (binary_semaphores s n) > 0 then sem_waiting (binary_semaphores s n) - 1
               else sem_waiting (binary_semaphores s n))\<rparr>))"
    using assms
    by (intro returns_mono [OF binary_semaphore_up_returns]) (auto simp: sem_ok_def idle_def)
  then obtain t where t: "binary_semaphore_up (int n) (in_user i s) = Ret 0 t" "same_cpu (in_user i s) t"
    "procs t = after_up n (Some i) (procs (in_user i s))"
    "binary_semaphores t = (binary_semaphores s)(n := (binary_semaphores s n)
       \<lparr>sem_value := 1, sem_waiting :=
         (if sem_waiting (binary_semaphores s n) > 0 then sem_waiting (binary_semaphores s n) - 1
          else sem_waiting (binary_semaphores s n))\<rparr>)"
    by (auto simp: returns_iff)
  then have "end_call t = Ret None (preempted i t)" "idle (preempted i t)"
    by (intro end_call_eq; simp add: same_cpu_def)+
  moreover have "procs (preempted i t) = after_up n (Some i) (procs s)"
    using assms(2)
    by (auto simp: t(3) after_up_upd_self ready_def fun_eq_iff intro!: proc.equality)
  ultimately show ?thesis
    using t assms by (auto simp: run_call_eq ready_def sem_ok_def sem_frame_def same_cpu_def)
qed

lemma kill_call_ends:
  assumes "sem_ok n s" and "ready i s"
  shows "\<exists>r t u. run_call i (kill pid) s = Ret r t \<and> end_call t = Ret None u \<and>
           sem_ok n u \<and> sem_frame n s u \<and> binary_semaphores u = binary_semaphores s \<and>
           (\<forall>j. p_sem_queue_pos (procs u j) = p_sem_queue_pos (procs s j) \<and>
                p_waiting_for_semaphore (procs u j) = p_waiting_for_semaphore (procs s j))"
proof -
  have "\<exists>r t. kill pid (in_user i s) = Ret r t \<and> same_cpu (in_user i s) t \<and>
          binary_semaphores t = binary_semaphores s \<and>
          (\<forall>j. p_sem_queue_pos (procs t j) = p_sem_queue_pos (procs s j) \<and>
               p_waiting_for_semaphore (procs t j) = p_waiting_for_semaphore (procs s j))"
    by (auto simp: kill_def acquire_free release_held Let_def same_cpu_def split: option.splits)
  then obtain r t where t: "kill pid (in_user i s) = Ret r t" "same_cpu (in_user i s) t"
    "binary_semaphores t = binary_semaphores s"
    "\<And>j. p_sem_queue_pos (procs t j) = p_sem_queue_pos (procs s j) \<and>
         p_waiting_for_semaphore (procs t j) = p_waiting_for_semaphore (procs s j)" by blast
  then have "end_call t = Ret None (preempted i t)" "idle (preempted i t)"
    by (intro end_call_eq; simp add: same_cpu_def)+
  then show ?thesis
    using t assms by (auto simp: run_call_eq ready_def sem_ok_def sem_frame_def same_cpu_def)
qed

section \<open>Mutual exclusion\<close>

text \<open>
  Processes that guard a section with semaphore \<open>n\<close>, in any order of calls: a process outside calls
  \<open>down\<close>, which takes the semaphore or puts it to sleep; a process asleep in \<open>down\<close> that has been
  made runnable (by an \<open>up\<close> or by \<open>kill\<close>) goes on; a process inside calls \<open>up\<close>; any process may
  call \<open>kill\<close>. \<open>held\<close> are the processes whose \<open>down\<close> has returned and that have not called \<open>up\<close>
  since, \<open>asleep\<close> those inside \<open>down\<close>.
\<close>

record sem_sys =
  ker :: ptable_state
  held :: "nat set"
  asleep :: "nat set"

inductive sem_step :: "nat \<Rightarrow> sem_sys \<Rightarrow> sem_sys \<Rightarrow> bool" for n where
  down_takes:
    "ready i (ker c) \<Longrightarrow> i \<notin> held c \<Longrightarrow> i \<notin> asleep c \<Longrightarrow>
     run_call i (binary_semaphore_down (int n)) (ker c) = Ret 0 t \<Longrightarrow> end_call t = Ret None u \<Longrightarrow>
     sem_step n c (c\<lparr>ker := u, held := insert i (held c)\<rparr>)"
| down_sleeps:
    "ready i (ker c) \<Longrightarrow> i \<notin> held c \<Longrightarrow> i \<notin> asleep c \<Longrightarrow>
     run_call i (binary_semaphore_down (int n)) (ker c) = Asleep t \<Longrightarrow> back_to_idle t = Ret None u \<Longrightarrow>
     sem_step n c (c\<lparr>ker := u, asleep := insert i (asleep c)\<rparr>)"
| wake_takes:
    "ready i (ker c) \<Longrightarrow> i \<in> asleep c \<Longrightarrow>
     run_resume i (binary_semaphore_down_resume (int n)) (ker c) = Ret 0 t \<Longrightarrow> end_call t = Ret None u \<Longrightarrow>
     sem_step n c (c\<lparr>ker := u, held := insert i (held c), asleep := asleep c - {i}\<rparr>)"
| wake_sleeps:
    "ready i (ker c) \<Longrightarrow> i \<in> asleep c \<Longrightarrow>
     run_resume i (binary_semaphore_down_resume (int n)) (ker c) = Asleep t \<Longrightarrow>
     back_to_idle t = Ret None u \<Longrightarrow>
     sem_step n c (c\<lparr>ker := u\<rparr>)"
| up:
    "ready i (ker c) \<Longrightarrow> i \<in> held c \<Longrightarrow> i \<notin> asleep c \<Longrightarrow>
     run_call i (binary_semaphore_up (int n)) (ker c) = Ret r t \<Longrightarrow> end_call t = Ret None u \<Longrightarrow>
     sem_step n c (c\<lparr>ker := u, held := held c - {i}\<rparr>)"
| kills:
    "ready i (ker c) \<Longrightarrow> i \<notin> asleep c \<Longrightarrow>
     run_call i (kill pid) (ker c) = Ret r t \<Longrightarrow> end_call t = Ret None u \<Longrightarrow>
     sem_step n c (c\<lparr>ker := u\<rparr>)"

inductive_cases sem_stepE: "sem_step n c c'"

text \<open>Nobody is inside while the value is 1, and at most one process is otherwise.\<close>

definition sem_excl :: "nat \<Rightarrow> sem_sys \<Rightarrow> bool" where
  "sem_excl n c \<longleftrightarrow> sem_ok n (ker c) \<and>
     (sem_value (binary_semaphores (ker c) n) = 0 \<and> (\<forall>i\<in>held c. \<forall>j\<in>held c. i = j) \<or>
      sem_value (binary_semaphores (ker c) n) = 1 \<and> held c = {})"

lemma down_ends_Ret:
  "down_ends n i s (Ret r t) \<Longrightarrow> end_call t = Ret None u \<Longrightarrow> sem_taken n i s u"
  by (auto simp: down_ends_def)

lemma down_ends_Asleep:
  "down_ends n i s (Asleep t) \<Longrightarrow> back_to_idle t = Ret None u \<Longrightarrow> sem_blocked n i s u"
  by (auto simp: down_ends_def)

lemma sem_excl_step:
  assumes "sem_step n c c'" and "sem_excl n c"
  shows "sem_excl n c'"
  using assms(1)
proof (cases rule: sem_step.cases)
  case (down_takes i t u)
  then have "sem_taken n i (ker c) u"
    using down_call_ends [of n "ker c" i] down_ends_Ret assms(2) by (metis sem_excl_def)
  then show ?thesis using down_takes assms(2) by (auto simp: sem_excl_def sem_taken_def)
next
  case (down_sleeps i t u)
  then have "sem_blocked n i (ker c) u"
    using down_call_ends [of n "ker c" i] down_ends_Asleep assms(2) by (metis sem_excl_def)
  then show ?thesis using down_sleeps assms(2) by (auto simp: sem_excl_def sem_blocked_def)
next
  case (wake_takes i t u)
  then have "sem_taken n i (ker c) u"
    using down_wake_ends [of n "ker c" i] down_ends_Ret assms(2) by (metis sem_excl_def)
  then show ?thesis using wake_takes assms(2) by (auto simp: sem_excl_def sem_taken_def)
next
  case (wake_sleeps i t u)
  then have "sem_blocked n i (ker c) u"
    using down_wake_ends [of n "ker c" i] down_ends_Asleep assms(2) by (metis sem_excl_def)
  then show ?thesis using wake_sleeps assms(2) by (auto simp: sem_excl_def sem_blocked_def)
next
  case (up i r t u)
  then have "sem_ok n u" "sem_value (binary_semaphores u n) = 1"
    using up_call_ends [of n "ker c" i] assms(2) by (auto simp: sem_excl_def)
  then show ?thesis using up assms(2) by (auto simp: sem_excl_def)
next
  case (kills i pid r t u)
  then have "sem_ok n u" "binary_semaphores u = binary_semaphores (ker c)"
    using kill_call_ends [of n "ker c" i pid] assms(2) by (auto simp: sem_excl_def)
  then show ?thesis using kills assms(2) by (auto simp: sem_excl_def)
qed

definition down_proceeds :: "nat \<Rightarrow> nat \<Rightarrow> sem_sys \<Rightarrow> bool" where
  "down_proceeds n i c \<longleftrightarrow>
     (\<exists>t u. run_call i (binary_semaphore_down (int n)) (ker c) = Ret 0 t \<and> end_call t = Ret None u) \<or>
     (\<exists>t u. run_call i (binary_semaphore_down (int n)) (ker c) = Asleep t \<and> back_to_idle t = Ret None u)"

text \<open>
  C2. A binary semaphore created with value 1 (or 0) gives mutual exclusion. In every state that any
  interleaving of \<open>down\<close>, \<open>up\<close>, wake-ups and \<open>kill\<close> by any number of processes can reach, at most
  one process is between its \<open>down\<close> and its \<open>up\<close>, none is while the value is 1, and no ready
  process that calls \<open>down\<close> panics, spins or runs into undefined behaviour: it returns or sleeps.
\<close>

theorem binary_semaphore_mutual_exclusion:
  assumes "sem_ok n s" and "sem_value (binary_semaphores s n) \<in> {0, 1}"
    and "(sem_step n)\<^sup>*\<^sup>* \<lparr>ker = s, held = {}, asleep = {}\<rparr> c"
  shows "(\<forall>i\<in>held c. \<forall>j\<in>held c. i = j) \<and>
         (sem_value (binary_semaphores (ker c) n) = 1 \<longrightarrow> held c = {}) \<and>
         (\<forall>i. ready i (ker c) \<longrightarrow> down_proceeds n i c)"
proof -
  have "sem_excl n c"
    using assms(3)
  proof (induction rule: rtranclp_induct)
    case base
    show ?case using assms(1,2) by (auto simp: sem_excl_def)
  qed (rule sem_excl_step)
  moreover from this have "sem_ok n (ker c)" unfolding sem_excl_def by blast
  then have "down_proceeds n i c" if "ready i (ker c)" for i
    using down_call_ends that by (fastforce simp: down_proceeds_def down_ends_def)
  ultimately show ?thesis unfolding sem_excl_def by (metis empty_iff zero_neq_one)
qed

section \<open>First come, first served\<close>

text \<open>
  \<open>sem_queue n s q\<close>: the processes waiting for semaphore \<open>n\<close> are those of the list \<open>q\<close>, all asleep,
  and the position stored in each is its place in \<open>q\<close>.
\<close>

definition sem_queue :: "nat \<Rightarrow> 'm ptable_state_scheme \<Rightarrow> nat list \<Rightarrow> bool" where
  "sem_queue n s q \<longleftrightarrow> distinct q \<and> sem_waiting (binary_semaphores s n) = int (length q) \<and>
     (\<forall>i<NPROC. p_waiting_for_semaphore (procs s i) = int n \<longleftrightarrow> i \<in> set q) \<and>
     (\<forall>k<length q. q ! k < NPROC \<and> p_sem_queue_pos (procs s (q ! k)) = int k + 1 \<and>
        p_state (procs s (q ! k)) = SLEEPING \<and> p_pgdir (procs s (q ! k)) \<noteq> 0)"

lemma filter_single:
  assumes "h < m" and "\<And>i. i < m \<Longrightarrow> P i \<longleftrightarrow> i = h"
  shows "filter P [0..<m] = [h]"
proof -
  have "filter P [0..<m] = filter (\<lambda>i. i = h) [0..<m]"
    using assms(2) by (intro filter_cong) auto
  also have "\<dots> = [h]"
    using assms(1) by (induction m) (auto simp: filter_empty_conv)
  finally show ?thesis .
qed

lemma sem_queue_member:
  assumes "sem_queue n s q" and "i \<in> set q"
  shows "i < NPROC" and "p_state (procs s i) = SLEEPING" and "p_pgdir (procs s i) \<noteq> 0"
    and "p_waiting_for_semaphore (procs s i) = int n" and "0 < p_sem_queue_pos (procs s i)"
  using assms by (auto simp: sem_queue_def in_set_conv_nth)

lemma sem_queue_not_member:
  "sem_queue n s q \<Longrightarrow> i < NPROC \<Longrightarrow> i \<notin> set q \<Longrightarrow> p_waiting_for_semaphore (procs s i) \<noteq> int n"
  by (simp add: sem_queue_def)

lemma sem_queue_first:
  assumes "sem_queue n s (h # q)" and "i < NPROC" and "p_waiting_for_semaphore (procs s i) = int n"
  shows "p_sem_queue_pos (procs s i) = 1 \<longleftrightarrow> i = h"
proof -
  have "i \<in> set (h # q)" using assms by (simp add: sem_queue_def)
  then obtain k where "k < length (h # q)" "(h # q) ! k = i" by (metis in_set_conv_nth)
  then show ?thesis using assms(1) by (cases k) (auto simp: sem_queue_def)
qed

lemma up_first_head:
  assumes "sem_queue n s (h # q)" and "i \<notin> set (h # q)"
  shows "up_first n (Some i) ((procs s)(i := p)) = Some h"
proof -
  have h: "h < NPROC" using sem_queue_member [OF assms(1)] by simp
  have "filter (\<lambda>j. Some j \<noteq> Some i \<and> p_waiting_for_semaphore (((procs s)(i := p)) j) = int n
                \<and> p_sem_queue_pos (((procs s)(i := p)) j) = 1) [0..<NPROC] = [h]"
    using sem_queue_first [OF assms(1)] sem_queue_member [OF assms(1), of h] assms(2) h
    by (intro filter_single) auto
  then show ?thesis by (simp add: up_first_def last_opt_def)
qed

lemma sem_queue_up:
  assumes "sem_queue n s (h # q)" and "i \<notin> set (h # q)"
    and "procs t = after_up n (Some i) ((procs s)(i := p))"
    and "sem_waiting (binary_semaphores t n) = sem_waiting (binary_semaphores s n) - 1"
    and "p_waiting_for_semaphore p = p_waiting_for_semaphore (procs s i)"
  shows "p_state (procs t h) = RUNNABLE" and "p_sem_queue_pos (procs t h) = 0"
    and "p_pgdir (procs t h) \<noteq> 0"
    and "sem_waiting (binary_semaphores t n) = int (length q)"
    and "\<And>j. j < NPROC \<Longrightarrow> p_waiting_for_semaphore (procs t j) = int n \<longleftrightarrow> j \<in> set (h # q)"
    and "\<And>k. k < length q \<Longrightarrow> q ! k \<noteq> h \<and> q ! k \<noteq> i \<and> q ! k < NPROC \<and>
           p_sem_queue_pos (procs t (q ! k)) = int k + 1 \<and>
           p_state (procs t (q ! k)) = SLEEPING \<and> p_pgdir (procs t (q ! k)) \<noteq> 0"
proof -
  have first: "up_first n (Some i) ((procs s)(i := p)) = Some h"
    by (rule up_first_head [OF assms(1,2)])
  have h: "p_sem_queue_pos (procs s h) = 1" "h < NPROC" "h \<noteq> i"
    using assms(1,2) by (auto simp: sem_queue_def)
  have hm: "p_state (procs s h) = SLEEPING" "p_pgdir (procs s h) \<noteq> 0"
    "p_waiting_for_semaphore (procs s h) = int n"
    using sem_queue_member [OF assms(1), of h] by auto
  show "p_state (procs t h) = RUNNABLE" "p_sem_queue_pos (procs t h) = 0" "p_pgdir (procs t h) \<noteq> 0"
    using first h hm by (simp_all add: assms(3) after_up_def moved_up_def)
  show "sem_waiting (binary_semaphores t n) = int (length q)"
    using assms(1,4) by (simp add: sem_queue_def)
  show "p_waiting_for_semaphore (procs t j) = int n \<longleftrightarrow> j \<in> set (h # q)" if "j < NPROC" for j
    using that assms(1,5) by (auto simp: assms(3) after_up_def moved_up_def Let_def sem_queue_def)
  fix k assume k: "k < length q"
  then have "(h # q) ! Suc k = q ! k" "q ! k \<in> set (h # q)" by auto
  then have "p_sem_queue_pos (procs s (q ! k)) = int k + 2"
    using assms(1) k by (auto simp: sem_queue_def dest!: spec [of _ "Suc k"])
  moreover have "q ! k \<noteq> h" "q ! k \<noteq> i" using assms(1,2) k by (auto simp: sem_queue_def)
  ultimately show "q ! k \<noteq> h \<and> q ! k \<noteq> i \<and> q ! k < NPROC \<and>
           p_sem_queue_pos (procs t (q ! k)) = int k + 1 \<and>
           p_state (procs t (q ! k)) = SLEEPING \<and> p_pgdir (procs t (q ! k)) \<noteq> 0"
    using first sem_queue_member [OF assms(1) \<open>q ! k \<in> set (h # q)\<close>]
    by (simp add: assms(3) after_up_def moved_up_def)
qed

lemma woken_takes:
  assumes "sem_ok n u" and "ready h u" and "sem_value (binary_semaphores u n) \<noteq> 0"
    and "p_sem_queue_pos (procs u h) = 0"
  shows "\<exists>t v. run_resume h (binary_semaphore_down_resume (int n)) u = Ret 0 t \<and> end_call t = Ret None v \<and>
    sem_ok n v \<and> sem_value (binary_semaphores v n) = 0 \<and>
    sem_waiting (binary_semaphores v n) = sem_waiting (binary_semaphores u n) \<and>
    procs v = (procs u)(h := (procs u h)\<lparr>p_chan := None, p_waiting_for_semaphore := - 1\<rparr>)"
proof -
  let ?t = "take_lock (Sem_lock n)
              (drop_lock Ptable_lock (upd_proc h (\<lambda>p. p\<lparr>p_chan := None\<rparr>) (dispatched h u)))"
  let ?r = "drop_lock (Sem_lock n) (upd_proc h (\<lambda>p. p\<lparr>p_waiting_for_semaphore := - 1\<rparr>)
              (upd_sem n (\<lambda>b. b\<lparr>sem_value := 0\<rparr>) ?t))"
  have "run_resume h (binary_semaphore_down_resume (int n)) u = down_round n ?t"
    using assms by (auto simp: sem_ok_def ready_def run_resume_eq binary_semaphore_down_resume_def
        sleep_resume_def with_proc_def Let_def release_held acquire_free)
  also have "\<dots> = Ret 0 ?r"
    using assms by (subst down_round_eq [where i = h]) (auto simp: sem_ok_def ready_def)
  finally have "run_resume h (binary_semaphore_down_resume (int n)) u = Ret 0 ?r" .
  moreover have "end_call ?r = Ret None (preempted h ?r)" "idle (preempted h ?r)"
    using assms by (intro end_call_eq; simp)+
  moreover have "procs (preempted h ?r) = (procs u)(h := (procs u h)\<lparr>p_chan := None, p_waiting_for_semaphore := - 1\<rparr>)"
    using assms(2) by (auto simp: fun_eq_iff ready_def intro!: proc.equality)
  ultimately show ?thesis
    using assms(1) by (intro exI [of _ ?r] exI [of _ "preempted h ?r"]) (simp add: sem_ok_def)
qed

text \<open>
  C4. Waiting processes are served in the order they came, when the one an \<open>up\<close> wakes runs before the
  semaphore is used again. With the semaphore taken and the queue \<open>h # q\<close>, an \<open>up\<close> by a process
  outside the queue returns 0 and makes \<open>h\<close> runnable; \<open>h\<close> then returns 0 from its \<open>down\<close> holding the
  semaphore, and the queue is \<open>q\<close>, every process in it one place further.
\<close>

theorem semaphore_fifo_handoff:
  assumes "sem_ok n s" and "sem_value (binary_semaphores s n) = 0" and "sem_queue n s (h # q)"
    and "ready i s"
  shows "\<exists>t u t' u'. run_call i (binary_semaphore_up (int n)) s = Ret 0 t \<and> end_call t = Ret None u \<and>
    ready h u \<and>
    run_resume h (binary_semaphore_down_resume (int n)) u = Ret 0 t' \<and> end_call t' = Ret None u' \<and>
    sem_ok n u' \<and> sem_value (binary_semaphores u' n) = 0 \<and> sem_queue n u' q"
proof -
  have i: "i \<notin> set (h # q)" using sem_queue_member(2) [OF assms(3), of i] assms(4) by (auto simp: ready_def)
  have len: "0 < sem_waiting (binary_semaphores s n)" using assms(3) by (simp add: sem_queue_def)
  obtain t u where u: "run_call i (binary_semaphore_up (int n)) s = Ret 0 t" "end_call t = Ret None u"
    "sem_ok n u" "sem_value (binary_semaphores u n) = 1"
    "sem_waiting (binary_semaphores u n) = sem_waiting (binary_semaphores s n) - 1"
    "procs u = after_up n (Some i) ((procs s)(i := procs s i))"
    using up_call_ends [OF assms(1,4)] len by auto
  note q = sem_queue_up [OF assms(3) i u(6,5) refl]
  have "ready h u" using q(1,3) sem_queue_member(1) [OF assms(3)] by (simp add: ready_def)
  obtain t' v where v:
    "run_resume h (binary_semaphore_down_resume (int n)) u = Ret 0 t'" "end_call t' = Ret None v"
    "sem_ok n v" "sem_value (binary_semaphores v n) = 0"
    "sem_waiting (binary_semaphores v n) = sem_waiting (binary_semaphores u n)"
    "procs v = (procs u)(h := (procs u h)\<lparr>p_chan := None, p_waiting_for_semaphore := - 1\<rparr>)"
    using woken_takes [OF u(3) \<open>ready h u\<close>] u(4) q(2) by auto
  have "sem_queue n v q"
    using q(4-6) assms(3) v(5,6) by (auto simp: sem_queue_def)
  then show ?thesis using u v \<open>ready h u\<close> by blast
qed

text \<open>
  C27. A process that calls \<open>down\<close> while the semaphore is taken, or while others wait for it, goes to
  sleep at the end of the queue; the value of the semaphore and the order of the others stay.
\<close>

theorem down_joins_queue:
  assumes "sem_ok n s" and "sem_queue n s q" and "ready i s" and "p_sem_queue_pos (procs s i) = 0"
    and "sem_value (binary_semaphores s n) = 0 \<or> q \<noteq> []"
  shows "\<exists>t u. run_call i (binary_semaphore_down (int n)) s = Asleep t \<and> back_to_idle t = Ret None u \<and>
    sem_ok n u \<and> sem_value (binary_semaphores u n) = sem_value (binary_semaphores s n) \<and>
    sem_queue n u (q @ [i])"
proof -
  let ?s = "take_lock (Sem_lock n) (in_user i s)"
  let ?t = "if sem_waiting (binary_semaphores s n) \<noteq> 0 then sem_enqueue n i ?s else ?s"
  let ?r = "upd_proc i (\<lambda>p. p\<lparr>p_chan := Some (Sem_chan n), p_state := SLEEPING\<rparr>)
            (drop_lock (Sem_lock n) (take_lock Ptable_lock
              (upd_proc i (\<lambda>p. p\<lparr>p_waiting_for_semaphore := int n\<rparr>) (sem_enqueue n i ?s))))"
  have w: "sem_waiting (binary_semaphores s n) = int (length q)" using assms(2) by (simp add: sem_queue_def)
  have "run_call i (binary_semaphore_down (int n)) s = down_round n ?t"
    using assms by (auto simp: sem_ok_def ready_def run_call_eq binary_semaphore_down_def acquire_free
        with_proc_def Let_def)
  also have "\<dots> = Asleep ?r"
    using assms w by (subst down_round_eq [where i = i]) (auto simp: sem_ok_def ready_def idle_def)
  finally have "run_call i (binary_semaphore_down (int n)) s = Asleep ?r" .
  moreover have "back_to_idle ?r = Ret None (idled ?r)" "idle (idled ?r)"
    using assms by (intro back_to_idle_eq; simp)+
  moreover have "i \<notin> set q" using sem_queue_member(2) [OF assms(2), of i] assms(3) by (auto simp: ready_def)
  then have "sem_queue n (idled ?r) (q @ [i])"
    using assms(2,3) by (auto simp: sem_queue_def ready_def nth_append less_Suc_eq)
  ultimately show ?thesis
    using assms(1) by (intro exI [of _ ?r] exI [of _ "idled ?r"]) (simp add: sem_ok_def)
qed

section \<open>A lost waiter\<close>

text \<open>
  A process that an \<open>up\<close> has woken is still marked as waiting until it runs. If the semaphore is taken
  and given back before that, the second \<open>up\<close> moves its position from 0 to -1, which no later \<open>up\<close>
  brings back to 0: the process never gets the semaphore.
\<close>

definition lost :: "nat \<Rightarrow> nat \<Rightarrow> 'm ptable_state_scheme \<Rightarrow> bool" where
  "lost n b s \<longleftrightarrow> b < NPROC \<and> p_sem_queue_pos (procs s b) < 0 \<and> p_waiting_for_semaphore (procs s b) = int n"

lemma down_call_takes:
  assumes "sem_ok n s" and "ready i s" and "sem_value (binary_semaphores s n) \<noteq> 0"
    and "sem_waiting (binary_semaphores s n) = 0" and "p_sem_queue_pos (procs s i) = 0"
  shows "\<exists>t u. run_call i (binary_semaphore_down (int n)) s = Ret 0 t \<and> end_call t = Ret None u \<and>
    sem_ok n u \<and> sem_value (binary_semaphores u n) = 0 \<and> sem_waiting (binary_semaphores u n) = 0 \<and>
    procs u = (procs s)(i := (procs s i)\<lparr>p_waiting_for_semaphore := - 1\<rparr>)"
proof -
  let ?s = "take_lock (Sem_lock n) (in_user i s)"
  let ?r = "drop_lock (Sem_lock n) (upd_proc i (\<lambda>p. p\<lparr>p_waiting_for_semaphore := - 1\<rparr>)
              (upd_sem n (\<lambda>b. b\<lparr>sem_value := 0\<rparr>) ?s))"
  have "run_call i (binary_semaphore_down (int n)) s = down_round n ?s"
    using assms by (auto simp: sem_ok_def ready_def run_call_eq binary_semaphore_down_def acquire_free Let_def)
  also have "\<dots> = Ret 0 ?r"
    using assms by (subst down_round_eq [where i = i]) (auto simp: sem_ok_def ready_def idle_def)
  finally have "run_call i (binary_semaphore_down (int n)) s = Ret 0 ?r" .
  moreover have "end_call ?r = Ret None (preempted i ?r)" "idle (preempted i ?r)"
    using assms by (intro end_call_eq; simp add: sem_ok_def)+
  moreover have "procs (preempted i ?r) = (procs s)(i := (procs s i)\<lparr>p_waiting_for_semaphore := - 1\<rparr>)"
    using assms(2) by (auto simp: fun_eq_iff ready_def intro!: proc.equality)
  ultimately show ?thesis
    using assms by (intro exI [of _ ?r] exI [of _ "preempted i ?r"]) (simp add: sem_ok_def)
qed

lemma lost_sleeps_on:
  assumes "sem_ok n s" and "ready b s" and "lost n b s"
  shows "\<exists>t u. run_resume b (binary_semaphore_down_resume (int n)) s = Asleep t \<and>
    back_to_idle t = Ret None u \<and> sem_ok n u \<and> lost n b u \<and>
    binary_semaphores u = binary_semaphores s \<and> p_state (procs u b) = SLEEPING"
proof -
  let ?t = "take_lock (Sem_lock n)
              (drop_lock Ptable_lock (upd_proc b (\<lambda>p. p\<lparr>p_chan := None\<rparr>) (dispatched b s)))"
  let ?r = "upd_proc b (\<lambda>p. p\<lparr>p_chan := Some (Sem_chan n), p_state := SLEEPING\<rparr>)
            (drop_lock (Sem_lock n) (take_lock Ptable_lock
              (upd_proc b (\<lambda>p. p\<lparr>p_waiting_for_semaphore := int n\<rparr>) ?t)))"
  have "run_resume b (binary_semaphore_down_resume (int n)) s = down_round n ?t"
    using assms by (auto simp: sem_ok_def ready_def run_resume_eq binary_semaphore_down_resume_def
        sleep_resume_def with_proc_def Let_def release_held acquire_free)
  also have "\<dots> = Asleep ?r"
    using assms by (subst down_round_eq [where i = b]) (auto simp: sem_ok_def ready_def lost_def)
  finally have "run_resume b (binary_semaphore_down_resume (int n)) s = Asleep ?r" .
  moreover have "back_to_idle ?r = Ret None (idled ?r)" "idle (idled ?r)"
    using assms by (intro back_to_idle_eq; simp)+
  ultimately show ?thesis
    using assms by (intro exI [of _ ?r] exI [of _ "idled ?r"]) (simp add: sem_ok_def lost_def)
qed

lemma lost_step:
  assumes "sem_step n c c'" and "sem_ok n (ker c)" and "lost n b (ker c)" and "b \<in> asleep c" and "b \<notin> held c"
  shows "sem_ok n (ker c') \<and> lost n b (ker c') \<and> b \<in> asleep c' \<and> b \<notin> held c'"
  using assms(1)
proof (cases rule: sem_step.cases)
  case (down_takes i t u)
  then have "sem_taken n i (ker c) u" using down_call_ends [OF assms(2)] down_ends_Ret by metis
  then show ?thesis using down_takes assms(3-5) by (auto simp: sem_taken_def lost_def)
next
  case (down_sleeps i t u)
  then have "sem_blocked n i (ker c) u" using down_call_ends [OF assms(2)] down_ends_Asleep by metis
  then show ?thesis using down_sleeps assms(3-5) by (auto simp: sem_blocked_def lost_def)
next
  case (wake_takes i t u)
  then have "i \<noteq> b" using lost_sleeps_on [OF assms(2) _ assms(3)] by auto
  moreover have "sem_taken n i (ker c) u"
    using wake_takes down_wake_ends [OF assms(2)] down_ends_Ret by metis
  ultimately show ?thesis using wake_takes assms(3-5) by (auto simp: sem_taken_def lost_def)
next
  case (wake_sleeps i t u)
  show ?thesis
  proof (cases "i = b")
    case True
    then show ?thesis using wake_sleeps lost_sleeps_on [OF assms(2) _ assms(3)] assms(4,5) by auto
  next
    case False
    moreover have "sem_blocked n i (ker c) u"
      using wake_sleeps down_wake_ends [OF assms(2)] down_ends_Asleep by metis
    ultimately show ?thesis using wake_sleeps assms(3-5) by (auto simp: sem_blocked_def lost_def)
  qed
next
  case (up i r t u)
  then have "sem_ok n u" "procs u = after_up n (Some i) (procs (ker c))"
    using up_call_ends [OF assms(2), of i] by auto
  then show ?thesis using up assms(3-5) by (auto simp: lost_def after_up_def moved_up_def Let_def)
next
  case (kills i pid r t u)
  then show ?thesis using kill_call_ends [OF assms(2), of i pid] assms(3-5) by (auto simp: lost_def)
qed


section \<open>Witnesses\<close>

text \<open>Semaphore 0, taken by process 0, with process 1 waiting and process 2 behind it or not yet.\<close>

definition sem0 :: "int \<Rightarrow> int \<Rightarrow> nat \<Rightarrow> b_semaphore" where
  "sem0 v w = (\<lambda>_. \<lparr>sem_value = 0, sem_created = False, sem_waiting = 0\<rparr>)
     (0 := \<lparr>sem_value = v, sem_created = True, sem_waiting = w\<rparr>)"

definition waiting_proc :: "int \<Rightarrow> int \<Rightarrow> proc" where
  "waiting_proc pid pos = (runnable_proc pid)\<lparr>p_state := SLEEPING, p_chan := Some (Sem_chan 0),
     p_waiting_for_semaphore := 0, p_sem_queue_pos := pos\<rparr>"

definition three_procs :: "proc \<Rightarrow> proc \<Rightarrow> nat \<Rightarrow> proc" where
  "three_procs p q = (\<lambda>_. blank_proc\<lparr>p_waiting_for_semaphore := - 1\<rparr>)(0 := runnable_proc 1, 1 := p, 2 := q)"

lemmas sem_example_defs =
  sem0_def waiting_proc_def three_procs_def runnable_proc_def blank_proc_def

lemma sem_example_simps [simp]:
  "sem_value (sem0 v w 0) = v" "sem_waiting (sem0 v w 0) = w"
  "p_sem_queue_pos (three_procs p q 0) = 0"
  by (simp_all add: sem_example_defs)

lemma sem_ok_example [simp]: "sem_ok 0 (kernel_example ps (sem0 v w))"
  by (simp add: sem_ok_def sem0_def)

lemma ready_example [simp]: "ready 0 (kernel_example (three_procs p q) sems)"
  by (simp add: ready_def three_procs_def runnable_proc_def)

lemma sem_queue_example:
  "sem_queue 0 (kernel_example (three_procs (waiting_proc 2 1) (waiting_proc 3 2)) (sem0 0 2)) [1, 2]"
  "sem_queue 0 (kernel_example (three_procs (waiting_proc 2 1) (runnable_proc 3)) (sem0 0 1)) [1]"
  "sem_queue 0 (kernel_example (three_procs (runnable_proc 2) (waiting_proc 3 1)) (sem0 0 1)) [2]"
  by (auto simp: sem_queue_def sem_example_defs nth_Cons less_Suc_eq split: nat.splits)

lemma binary_semaphore_mutual_exclusion_witness:
  "\<exists>c. (sem_step 0)\<^sup>*\<^sup>* \<lparr>ker = kernel_example (three_procs (runnable_proc 2) (runnable_proc 3)) (sem0 1 0),
                       held = {}, asleep = {}\<rparr> c \<and> 0 \<in> held c \<and> (\<forall>j\<in>held c. 0 = j)"
proof -
  let ?s = "kernel_example (three_procs (runnable_proc 2) (runnable_proc 3)) (sem0 1 0)"
  let ?c = "\<lparr>ker = ?s, held = {}, asleep = {}\<rparr>"
  obtain t u where u: "run_call 0 (binary_semaphore_down (int 0)) ?s = Ret 0 t" "end_call t = Ret None u"
    using down_call_takes [of 0 ?s 0] by auto
  have "sem_step 0 ?c (?c\<lparr>ker := u, held := insert 0 (held ?c)\<rparr>)"
    by (rule sem_step.down_takes [OF _ _ _ _ u(2)]) (use u(1) in simp_all)
  then have *: "(sem_step 0)\<^sup>*\<^sup>* ?c \<lparr>ker = u, held = {0}, asleep = {}\<rparr>" by simp
  moreover have "\<forall>i\<in>{0::nat}. \<forall>j\<in>{0::nat}. i = j"
    using binary_semaphore_mutual_exclusion [OF _ _ *] by simp
  ultimately show ?thesis by fastforce
qed

lemma semaphore_fifo_handoff_witness:
  "\<exists>t u. run_call 0 (binary_semaphore_up 0)
           (kernel_example (three_procs (waiting_proc 2 1) (waiting_proc 3 2)) (sem0 0 2)) = Ret 0 t \<and>
         end_call t = Ret None u \<and> ready 1 u"
  using semaphore_fifo_handoff [OF _ _ sem_queue_example(1), of 0] by auto

lemma down_joins_queue_witness:
  "\<exists>t u. run_call 0 (binary_semaphore_down 0)
           (kernel_example (three_procs (runnable_proc 2) (waiting_proc 3 1)) (sem0 0 1)) = Asleep t \<and>
         back_to_idle t = Ret None u \<and> sem_queue 0 u [2, 0]"
  using down_joins_queue [OF _ sem_queue_example(3), of 0] by auto


end
