(* ===== verification/Semaphore.thy ===== *)
theory Semaphore
  imports BinSem
begin

text \<open>
  Counting semaphores built from two binary ones (\<open>semaphore.c\<close>), as user threads run them: every
  statement and every system call is a step of its own, and the steps of different threads
  interleave. What the library needs of the kernel's binary semaphores is the locale
  \<open>binary_sem\<close>; the kernel model provides it.
\<close>

section \<open>The library\<close>

record semaphore =
  s_value :: int
  s_s1 :: int
  s_s2 :: int
  s_name :: string

text \<open>
  \<open>semaphore_create\<close>, called by a process in the kernel state \<open>s\<close>. The structure is a result of its
  own; \<open>None\<close> is the null pointer.
\<close>

definition semaphore_create ::
  "int \<Rightarrow> string \<Rightarrow> 'm ptable_state_scheme \<Rightarrow> (semaphore option, 'm ptable_state_scheme) kres" where
  "semaphore_create initial_semaphore_value name s =
     bind (binary_semaphore_create 1 s) (\<lambda>s1 s.
     if s1 \<noteq> - 1 then
       let mn = (if initial_semaphore_value < 1 then initial_semaphore_value else 1)
       in bind (binary_semaphore_create mn s) (\<lambda>s2 s.
          if s2 \<noteq> - 1
          then Ret (Some \<lparr>s_value = initial_semaphore_value, s_s1 = s1, s_s2 = s2, s_name = name\<rparr>) s
          else Ret None s)
     else Ret None s)"

text \<open>
  Where a thread is in \<open>semaphore_down\<close> (before the call on \<open>s2\<close>, on \<open>s1\<close>, before \<open>value--\<close>, before
  the test, before the last call) and in \<open>semaphore_up\<close>. One step executes the next statement;
  \<open>None\<close> is the return. \<open>dn i n\<close> and \<open>up i n\<close> relate the kernel states before and after a call of
  thread \<open>i\<close> on binary semaphore \<open>n\<close> that returns.
\<close>

datatype sem_pc = D_s2 | D_s1 | D_dec | D_test | D_rel | U_s1 | U_inc | U_test | U_rel

type_synonym 's sem_call = "nat \<Rightarrow> int \<Rightarrow> 's \<Rightarrow> 's \<Rightarrow> bool"

fun semaphore_step ::
  "'s sem_call \<Rightarrow> 's sem_call \<Rightarrow> nat \<Rightarrow> sem_pc \<Rightarrow> semaphore \<times> 's \<Rightarrow> sem_pc option \<Rightarrow> semaphore \<times> 's \<Rightarrow> bool"
where
  "semaphore_step dn up i D_s2 (c, s) pc (c', s') \<longleftrightarrow> dn i (s_s2 c) s s' \<and> c' = c \<and> pc = Some D_s1"
| "semaphore_step dn up i D_s1 (c, s) pc (c', s') \<longleftrightarrow> dn i (s_s1 c) s s' \<and> c' = c \<and> pc = Some D_dec"
| "semaphore_step dn up i D_dec (c, s) pc (c', s') \<longleftrightarrow>
     s' = s \<and> c' = c\<lparr>s_value := s_value c - 1\<rparr> \<and> pc = Some D_test"
| "semaphore_step dn up i D_test (c, s) pc (c', s') \<longleftrightarrow>
     (if s_value c > 0 then up i (s_s2 c) s s' else s' = s) \<and> c' = c \<and> pc = Some D_rel"
| "semaphore_step dn up i D_rel (c, s) pc (c', s') \<longleftrightarrow> up i (s_s1 c) s s' \<and> c' = c \<and> pc = None"
| "semaphore_step dn up i U_s1 (c, s) pc (c', s') \<longleftrightarrow> dn i (s_s1 c) s s' \<and> c' = c \<and> pc = Some U_inc"
| "semaphore_step dn up i U_inc (c, s) pc (c', s') \<longleftrightarrow>
     s' = s \<and> c' = c\<lparr>s_value := s_value c + 1\<rparr> \<and> pc = Some U_test"
| "semaphore_step dn up i U_test (c, s) pc (c', s') \<longleftrightarrow>
     (if s_value c = 1 then up i (s_s2 c) s s' else s' = s) \<and> c' = c \<and> pc = Some U_rel"
| "semaphore_step dn up i U_rel (c, s) pc (c', s') \<longleftrightarrow> up i (s_s1 c) s s' \<and> c' = c \<and> pc = None"

section \<open>The invariant\<close>

text \<open>
  \<open>sem_cs\<close>: the positions between the calls on \<open>s1\<close>. \<open>gate\<close>: the positions that stand for the one
  permission \<open>s2\<close> hands on, which exists exactly while the value is positive.
\<close>

fun sem_cs :: "sem_pc option \<Rightarrow> bool" where
  "sem_cs (Some p) \<longleftrightarrow> p \<in> {D_dec, D_test, D_rel, U_inc, U_test, U_rel}"
| "sem_cs None \<longleftrightarrow> False"

fun gate :: "int \<Rightarrow> sem_pc option \<Rightarrow> int" where
  "gate v (Some D_s1) = 1"
| "gate v (Some D_dec) = 1"
| "gate v (Some D_test) = (if v > 0 then 1 else 0)"
| "gate v (Some U_test) = (if v = 1 then 1 else 0)"
| "gate v _ = 0"

definition gate_sum :: "int \<Rightarrow> (nat \<Rightarrow> sem_pc option) \<Rightarrow> int" where
  "gate_sum v P = (\<Sum>j<NPROC. gate v (P j))"

definition sem_excl1 :: "int \<Rightarrow> (nat \<Rightarrow> sem_pc option) \<Rightarrow> bool" where
  "sem_excl1 v P \<longleftrightarrow> v = 1 \<and> (\<forall>j<NPROC. \<not> sem_cs (P j)) \<or>
     v = 0 \<and> (\<exists>i<NPROC. \<forall>j<NPROC. sem_cs (P j) \<longleftrightarrow> j = i)"

definition semaphore_inv :: "(int \<Rightarrow> int) \<Rightarrow> semaphore \<Rightarrow> (nat \<Rightarrow> sem_pc option) \<Rightarrow> bool" where
  "semaphore_inv val c P \<longleftrightarrow> s_s1 c \<noteq> s_s2 c \<and> 0 \<le> s_value c \<and>
     sem_excl1 (val (s_s1 c)) P \<and> 0 \<le> val (s_s2 c) \<and>
     val (s_s2 c) + gate_sum (s_value c) P = (if s_value c > 0 then 1 else 0)"

lemma sem_excl1_enter:
  "sem_excl1 v P \<Longrightarrow> v \<noteq> 0 \<Longrightarrow> i < NPROC \<Longrightarrow> sem_cs x \<Longrightarrow> sem_excl1 0 (P(i := x))"
  by (auto simp: sem_excl1_def)

lemma sem_excl1_leave:
  "sem_excl1 v P \<Longrightarrow> sem_cs (P i) \<Longrightarrow> i < NPROC \<Longrightarrow> \<not> sem_cs x \<Longrightarrow> sem_excl1 1 (P(i := x))"
  by (auto simp: sem_excl1_def)

lemma sem_excl1_stay: "sem_excl1 v P \<Longrightarrow> sem_cs x = sem_cs (P i) \<Longrightarrow> sem_excl1 v (P(i := x))"
  by (auto simp: sem_excl1_def)

lemma sem_excl1_other:
  "sem_excl1 v P \<Longrightarrow> sem_cs (P i) \<Longrightarrow> i < NPROC \<Longrightarrow> j < NPROC \<Longrightarrow> j \<noteq> i \<Longrightarrow> \<not> sem_cs (P j)"
  by (auto simp: sem_excl1_def)

lemma gate_nonneg: "0 \<le> gate v p"
  by (cases "(v, p)" rule: gate.cases) auto

lemma gate_outside: "\<not> sem_cs p \<Longrightarrow> gate v p = gate w p"
  by (cases "(v, p)" rule: gate.cases) auto

lemma sum_upd:
  fixes f g :: "'a \<Rightarrow> int" and n :: nat
  assumes "i < n" and "\<And>j. j < n \<Longrightarrow> j \<noteq> i \<Longrightarrow> g (P j) = f (P j)"
  shows "(\<Sum>j<n. g ((P(i := x)) j)) = (\<Sum>j<n. f (P j)) - f (P i) + g x"
proof -
  have "(\<Sum>j<n. g ((P(i := x)) j)) = g x + (\<Sum>j\<in>{..<n} - {i}. g ((P(i := x)) j))"
    using assms(1) by (subst sum.remove [of _ i]) auto
  also have "(\<Sum>j\<in>{..<n} - {i}. g ((P(i := x)) j)) = (\<Sum>j\<in>{..<n} - {i}. f (P j))"
    using assms(2) by (intro sum.cong) auto
  also have "\<dots> = (\<Sum>j<n. f (P j)) - f (P i)"
    using assms(1) by (subst (2) sum.remove [of _ i]) auto
  finally show ?thesis by simp
qed

text \<open>The two ways a step can change the invariant's parts: entering or leaving the section, or not.\<close>

lemma gate_sum_le:
  assumes "i < NPROC"
  shows "gate v (P i) \<le> gate_sum v P"
  unfolding gate_sum_def using assms by (intro member_le_sum) (auto simp: gate_nonneg)

lemma gate_sum_upd:
  assumes "i < NPROC" and "\<And>j. j < NPROC \<Longrightarrow> j \<noteq> i \<Longrightarrow> v' = v \<or> \<not> sem_cs (P j)"
  shows "gate_sum v' (P(i := x)) = gate_sum v P - gate v (P i) + gate v' x"
  unfolding gate_sum_def using assms gate_outside by (intro sum_upd) blast+

section \<open>The contract of binary semaphores\<close>

text \<open>
  What a client may rely on, for the semaphores \<open>S\<close> it uses and kernel states that are \<open>ok\<close>: a
  \<open>down\<close> returns only where the value was not 0 and makes it 0, an \<open>up\<close> makes it 1, and whatever
  else happens in the kernel (\<open>other\<close>: calls that go to sleep, wake-ups, signals) leaves the values
  alone.
\<close>

locale binary_sem =
  fixes ok :: "'s \<Rightarrow> bool" and val :: "'s \<Rightarrow> int \<Rightarrow> int" and S :: "int set"
    and dn up :: "'s sem_call" and other :: "'s \<Rightarrow> 's \<Rightarrow> bool"
  assumes dn_law: "ok s \<Longrightarrow> n \<in> S \<Longrightarrow> dn i n s s' \<Longrightarrow>
             ok s' \<and> val s n \<noteq> 0 \<and> (\<forall>m\<in>S. val s' m = (if m = n then 0 else val s m))"
    and up_law: "ok s \<Longrightarrow> n \<in> S \<Longrightarrow> up i n s s' \<Longrightarrow>
             ok s' \<and> (\<forall>m\<in>S. val s' m = (if m = n then 1 else val s m))"
    and other_law: "ok s \<Longrightarrow> other s s' \<Longrightarrow> ok s' \<and> (\<forall>m\<in>S. val s' m = val s m)"
begin

lemma semaphore_inv_cong:
  assumes "semaphore_inv (val s) c P" and "val s' (s_s1 c) = val s (s_s1 c)"
    and "val s' (s_s2 c) = val s (s_s2 c)"
  shows "semaphore_inv (val s') c P"
  using assms by (simp add: semaphore_inv_def)

lemma semaphore_step_frame:
  assumes "semaphore_step dn up i p (c, s) p' (c', s')" and "ok s" and "s_s1 c \<in> S" and "s_s2 c \<in> S"
  shows "ok s'" and "s_s1 c' = s_s1 c" and "s_s2 c' = s_s2 c"
    and "\<forall>m\<in>S. m \<noteq> s_s1 c \<longrightarrow> m \<noteq> s_s2 c \<longrightarrow> val s' m = val s m"
  using assms by (cases p; auto dest: dn_law up_law split: if_splits)+

lemma semaphore_inv_step:
  assumes "semaphore_step dn up i p (c, s) p' (c', s')" and "ok s" and "s_s1 c \<in> S" and "s_s2 c \<in> S"
    and "semaphore_inv (val s) c P" and "i < NPROC" and "P i = Some p"
  shows "semaphore_inv (val s') c' (P(i := p'))"
proof -
  have inv: "s_s1 c \<noteq> s_s2 c" "0 \<le> s_value c" "sem_excl1 (val s (s_s1 c)) P" "0 \<le> val s (s_s2 c)"
    "val s (s_s2 c) + gate_sum (s_value c) P = (if s_value c > 0 then 1 else 0)"
    using assms(5) by (simp_all add: semaphore_inv_def)
  have "s_value c' = s_value c \<or> \<not> sem_cs (P j)" if "j < NPROC" "j \<noteq> i" for j
  proof (cases "sem_cs (P i)")
    case True
    then show ?thesis using sem_excl1_other [OF inv(3)] assms(6) that by blast
  next
    case False
    then show ?thesis using assms(1,7) by (cases p) auto
  qed
  then have sum: "gate_sum (s_value c') (P(i := p')) =
      gate_sum (s_value c) P - gate (s_value c) (P i) + gate (s_value c') p'"
    by (intro gate_sum_upd assms(6))
  have le: "gate (s_value c) (P i) \<le> gate_sum (s_value c) P" by (rule gate_sum_le [OF assms(6)])
  have excl: "sem_excl1 (val s' (s_s1 c')) (P(i := p'))"
    using assms(1) dn_law [OF assms(2)] up_law [OF assms(2)] assms(3,4,7) inv(1)
      sem_excl1_enter [OF inv(3) _ assms(6)] sem_excl1_leave [OF inv(3) _ assms(6)]
      sem_excl1_stay [OF inv(3), of p' i]
    by (cases p) (auto split: if_splits)
  have nz: "p = D_s2 \<Longrightarrow> 1 \<le> val s (s_s2 c)" using assms(1) dn_law [OF assms(2,4)] inv(4) by fastforce
  have "0 \<le> s_value c'" using assms(1,7) inv(2,4,5) le by (cases p) (auto split: if_splits)
  moreover have "0 \<le> val s' (s_s2 c') \<and>
      val s' (s_s2 c') + gate_sum (s_value c') (P(i := p')) = (if s_value c' > 0 then 1 else 0)"
    using assms(1) dn_law [OF assms(2)] up_law [OF assms(2)] assms(3,4,7) inv(1,2,4,5) sum le nz
    by (cases p) (auto split: if_splits)
  ultimately show ?thesis
    using inv excl semaphore_step_frame(2,3) [OF assms(1-4)] by (simp add: semaphore_inv_def)
qed

end

section \<open>The kernel provides the contract\<close>

text \<open>
  For processes that use the semaphores \<open>S\<close>: the CPU is idle, the locks are free and the semaphores
  exist. A call returns either at once or after sleeping.
\<close>

definition sems_ok :: "int set \<Rightarrow> ptable_state \<Rightarrow> bool" where
  "sems_ok S s \<longleftrightarrow> (\<forall>n\<in>S. 0 \<le> n \<and> sem_ok (nat n) s)"

definition sem_val :: "ptable_state \<Rightarrow> int \<Rightarrow> int" where
  "sem_val s n = sem_value (binary_semaphores s (nat n))"

definition down_returns :: "nat \<Rightarrow> int \<Rightarrow> ptable_state \<Rightarrow> ptable_state \<Rightarrow> bool" where
  "down_returns i n s u \<longleftrightarrow> ready i s \<and> (\<exists>r t. end_call t = Ret None u \<and>
     (run_call i (binary_semaphore_down n) s = Ret r t \<or>
      run_resume i (binary_semaphore_down_resume n) s = Ret r t))"

definition up_returns :: "nat \<Rightarrow> int \<Rightarrow> ptable_state \<Rightarrow> ptable_state \<Rightarrow> bool" where
  "up_returns i n s u \<longleftrightarrow> ready i s \<and>
     (\<exists>r t. run_call i (binary_semaphore_up n) s = Ret r t \<and> end_call t = Ret None u)"

definition sem_other :: "int set \<Rightarrow> ptable_state \<Rightarrow> ptable_state \<Rightarrow> bool" where
  "sem_other S s u \<longleftrightarrow> (\<exists>i t. ready i s \<and>
     ((\<exists>n\<in>S. (run_call i (binary_semaphore_down n) s = Asleep t \<or>
             run_resume i (binary_semaphore_down_resume n) s = Asleep t) \<and> back_to_idle t = Ret None u) \<or>
      (\<exists>pid r. run_call i (kill pid) s = Ret r t \<and> end_call t = Ret None u)))"

lemma sems_ok_frame:
  assumes "sems_ok S s" and "n \<in> S" and "sem_ok (nat n) u" and "sem_frame (nat n) s u"
  shows "sems_ok S u" and "\<And>m. m \<in> S \<Longrightarrow> m \<noteq> n \<Longrightarrow> sem_val u m = sem_val s m"
proof -
  have "nat m \<noteq> nat n" if "m \<in> S" "m \<noteq> n" for m
    using assms(1,2) that by (metis sems_ok_def nat_0_le)
  then show "\<And>m. m \<in> S \<Longrightarrow> m \<noteq> n \<Longrightarrow> sem_val u m = sem_val s m"
    using assms(4) by (auto simp: sem_val_def sem_frame_def)
  show "sems_ok S u"
    unfolding sems_ok_def
  proof
    fix m assume "m \<in> S"
    then show "0 \<le> m \<and> sem_ok (nat m) u"
      using assms \<open>\<And>m. m \<in> S \<Longrightarrow> m \<noteq> n \<Longrightarrow> nat m \<noteq> nat n\<close>
      by (cases "m = n") (auto simp: sems_ok_def sem_ok_def sem_frame_def)
  qed
qed

interpretation kernel_sem: binary_sem "sems_ok S" sem_val S down_returns up_returns "sem_other S"
  for S :: "int set"
proof
  fix s s' :: ptable_state and n i
  assume s: "sems_ok S s" and n: "n \<in> S"
  then have k: "sem_ok (nat n) s" "0 \<le> n" by (auto simp: sems_ok_def)
  { assume "down_returns i n s s'"
    then have "sem_taken (nat n) i s s'"
      using down_call_ends [OF k(1), of i] down_wake_ends [OF k(1), of i]
      by (auto simp: down_returns_def k(2) dest: down_ends_Ret)
    then show "sems_ok S s' \<and> sem_val s n \<noteq> 0 \<and> (\<forall>m\<in>S. sem_val s' m = (if m = n then 0 else sem_val s m))"
      using sems_ok_frame [OF s n] by (auto simp: sem_taken_def sem_val_def) }
  { assume "up_returns i n s s'"
    then have "sem_ok (nat n) s'" "sem_frame (nat n) s s'" "sem_val s' n = 1"
      using up_call_ends [OF k(1), of i] by (auto simp: up_returns_def k(2) sem_val_def)
    then show "sems_ok S s' \<and> (\<forall>m\<in>S. sem_val s' m = (if m = n then 1 else sem_val s m))"
      using sems_ok_frame [OF s n] by auto }
next
  fix s s' :: ptable_state
  assume s: "sems_ok S s" and "sem_other S s s'"
  then obtain i t where i: "ready i s"
    and "(\<exists>n\<in>S. (run_call i (binary_semaphore_down n) s = Asleep t \<or>
            run_resume i (binary_semaphore_down_resume n) s = Asleep t) \<and> back_to_idle t = Ret None s') \<or>
         (\<exists>pid r. run_call i (kill pid) s = Ret r t \<and> end_call t = Ret None s')"
    unfolding sem_other_def by blast
  then consider (sleeps) n where "n \<in> S" "run_call i (binary_semaphore_down n) s = Asleep t \<or>
      run_resume i (binary_semaphore_down_resume n) s = Asleep t" "back_to_idle t = Ret None s'"
    | (kills) pid r where "run_call i (kill pid) s = Ret r t" "end_call t = Ret None s'"
    by blast
  then show "sems_ok S s' \<and> (\<forall>m\<in>S. sem_val s' m = sem_val s m)"
  proof cases
    case sleeps
    then have k: "sem_ok (nat n) s" "0 \<le> n" using s by (auto simp: sems_ok_def)
    then have "sem_blocked (nat n) i s s'"
      using sleeps(2,3) down_call_ends [OF k(1) i] down_wake_ends [OF k(1) i]
      by (auto simp: k(2) dest: down_ends_Asleep)
    then show ?thesis using sems_ok_frame [OF s sleeps(1)] by (auto simp: sem_blocked_def sem_val_def)
  next
    case kills
    have "sem_ok (nat m) s' \<and> sem_val s' m = sem_val s m" if "m \<in> S" for m
      using kill_call_ends [of "nat m" s i pid] kills i s that by (auto simp: sems_ok_def sem_val_def)
    then show ?thesis using s by (auto simp: sems_ok_def)
  qed
qed

section \<open>Creating a semaphore\<close>

text \<open>A new binary semaphore takes the first free slot; nothing else changes but its lock.\<close>

definition created_sem :: "int \<Rightarrow> nat \<Rightarrow> 'm ptable_state_scheme \<Rightarrow> 'm ptable_state_scheme \<Rightarrow> bool" where
  "created_sem v k s t \<longleftrightarrow> k < NSEM \<and> \<not> sem_created (binary_semaphores s k) \<and>
     binary_semaphores t =
       (binary_semaphores s)(k := (binary_semaphores s k)\<lparr>sem_created := True, sem_value := v\<rparr>) \<and>
     procs t = procs s \<and> c_proc (cpu t) = c_proc (cpu s) \<and> c_ncli (cpu t) = c_ncli (cpu s) \<and> cpu_ok t \<and>
     (\<forall>l. unlocked l t \<longleftrightarrow> l = Sem_lock k \<or> unlocked l s)"

lemma initlock_simps [simp]:
  "cpu (initlock l n s) = cpu s" "holding k (initlock l n s) \<longleftrightarrow> k \<noteq> l \<and> holding k s"
  "unlocked k (initlock l n s) \<longleftrightarrow> k = l \<or> unlocked k s" "cpu_ok (initlock l n s) = cpu_ok s"
  "procs (initlock l n s) = procs s" "binary_semaphores (initlock l n s) = binary_semaphores s"
  by (auto simp: initlock_def holding_def unlocked_def cpu_ok_def)

lemma binary_semaphore_create_returns:
  assumes "unlocked Semtable_lock s" and "cpu_ok s"
  shows "returns (binary_semaphore_create v s)
    (\<lambda>r t. r = - 1 \<or> (\<exists>k. r = int k \<and> created_sem v k s t))"
  supply cpu_ok_nonneg [simp del]
  using assms cpu_ok_nonneg [OF assms(2)]
  by (auto simp: binary_semaphore_create_def acquire_free Let_def release_held created_sem_def
      dest: first_index_Some split: option.splits)

lemma semaphore_create_returns:
  assumes "unlocked Semtable_lock s" and "cpu_ok s"
  shows "returns (semaphore_create v name s) (\<lambda>r t. \<forall>m. r = Some m \<longrightarrow>
    (\<exists>k1 k2 u. m = \<lparr>s_value = v, s_s1 = int k1, s_s2 = int k2, s_name = name\<rparr> \<and>
       created_sem 1 k1 s u \<and> created_sem (if v < 1 then v else 1) k2 u t))"
proof -
  let ?mn = "if v < 1 then v else 1"
  obtain r u where r: "binary_semaphore_create 1 s = Ret r u"
    "r = - 1 \<or> (\<exists>k. r = int k \<and> created_sem 1 k s u)"
    using binary_semaphore_create_returns [OF assms, of 1] unfolding returns_iff by blast
  show ?thesis
  proof (cases "r = - 1")
    case True
    then show ?thesis using r(1) by (simp add: semaphore_create_def)
  next
    case False
    then obtain k where k: "r = int k" "created_sem 1 k s u" using r(2) by blast
    then have "unlocked Semtable_lock u" "cpu_ok u" using assms by (auto simp: created_sem_def)
    then obtain r' t where t: "binary_semaphore_create ?mn u = Ret r' t"
      "r' = - 1 \<or> (\<exists>k. r' = int k \<and> created_sem ?mn k u t)"
      using binary_semaphore_create_returns [of u ?mn] unfolding returns_iff by blast
    then show ?thesis using r(1) k by (auto simp: semaphore_create_def Let_def)
  qed
qed

section \<open>Counting\<close>

text \<open>
  Threads that use one counting semaphore in any order. \<open>cs_ups\<close> counts the calls of \<open>semaphore_up\<close>
  that have begun, \<open>cs_downs\<close> those of \<open>semaphore_down\<close> that have returned.
\<close>

record 's csem_sys =
  cs_sem :: semaphore
  cs_ker :: 's
  cs_pc :: "nat \<Rightarrow> sem_pc option"
  cs_downs :: nat
  cs_ups :: nat

inductive csem_step :: "'s sem_call \<Rightarrow> 's sem_call \<Rightarrow> ('s \<Rightarrow> 's \<Rightarrow> bool) \<Rightarrow> 's csem_sys \<Rightarrow> 's csem_sys \<Rightarrow> bool"
  for dn up other where
  call_down:
    "i < NPROC \<Longrightarrow> cs_pc c i = None \<Longrightarrow> csem_step dn up other c (c\<lparr>cs_pc := (cs_pc c)(i := Some D_s2)\<rparr>)"
| call_up:
    "i < NPROC \<Longrightarrow> cs_pc c i = None \<Longrightarrow>
     csem_step dn up other c (c\<lparr>cs_pc := (cs_pc c)(i := Some U_s1), cs_ups := cs_ups c + 1\<rparr>)"
| run:
    "i < NPROC \<Longrightarrow> cs_pc c i = Some p \<Longrightarrow>
     semaphore_step dn up i p (cs_sem c, cs_ker c) p' (m, s) \<Longrightarrow>
     csem_step dn up other c
       (c\<lparr>cs_sem := m, cs_ker := s, cs_pc := (cs_pc c)(i := p'),
          cs_downs := cs_downs c + (if p = D_rel then 1 else 0)\<rparr>)"
| other: "other (cs_ker c) s \<Longrightarrow> csem_step dn up other c (c\<lparr>cs_ker := s\<rparr>)"

text \<open>Downs that have taken their unit but not returned, and ups that have begun but not added theirs.\<close>

fun in_transit :: "sem_pc option \<Rightarrow> int" where
  "in_transit (Some p) = (if p \<in> {D_test, D_rel, U_s1, U_inc} then 1 else 0)"
| "in_transit None = 0"

definition transit_sum :: "(nat \<Rightarrow> sem_pc option) \<Rightarrow> int" where
  "transit_sum P = (\<Sum>j<NPROC. in_transit (P j))"

lemma transit_sum_upd:
  "i < NPROC \<Longrightarrow> transit_sum (P(i := x)) = transit_sum P - in_transit (P i) + in_transit x"
  unfolding transit_sum_def by (rule sum_upd) auto

lemma transit_sum_nonneg: "0 \<le> transit_sum P"
  unfolding transit_sum_def
proof (rule sum_nonneg)
  fix j show "0 \<le> in_transit (P j)" by (cases "P j") auto
qed

lemma sem_excl1_start: "\<not> sem_cs x \<Longrightarrow> \<not> sem_cs (P i) \<Longrightarrow> sem_excl1 v P \<Longrightarrow> sem_excl1 v (P(i := x))"
  by (rule sem_excl1_stay) auto

lemma semaphore_inv_call:
  assumes "semaphore_inv val c P" and "i < NPROC" and "P i = None" and "x = D_s2 \<or> x = U_s1"
  shows "semaphore_inv val c (P(i := Some x))"
proof -
  have "gate_sum (s_value c) (P(i := Some x)) = gate_sum (s_value c) P"
    using assms(2-4) by (subst gate_sum_upd [where v = "s_value c"]) auto
  moreover have "sem_excl1 (val (s_s1 c)) (P(i := Some x))"
    using assms by (intro sem_excl1_start) (auto simp: semaphore_inv_def)
  ultimately show ?thesis using assms(1) by (simp add: semaphore_inv_def)
qed

definition csem_inv ::
  "('s \<Rightarrow> bool) \<Rightarrow> ('s \<Rightarrow> int \<Rightarrow> int) \<Rightarrow> int set \<Rightarrow> int \<Rightarrow> 's csem_sys \<Rightarrow> bool" where
  "csem_inv ok val S v0 c \<longleftrightarrow> ok (cs_ker c) \<and> s_s1 (cs_sem c) \<in> S \<and> s_s2 (cs_sem c) \<in> S \<and>
     semaphore_inv (val (cs_ker c)) (cs_sem c) (cs_pc c) \<and>
     s_value (cs_sem c) + int (cs_downs c) + transit_sum (cs_pc c) = v0 + int (cs_ups c)"

context binary_sem
begin

lemma csem_inv_step:
  assumes "csem_step dn up other c c'" and "csem_inv ok val S v0 c"
  shows "csem_inv ok val S v0 c'"
  using assms(1)
proof (cases rule: csem_step.cases)
  case (call_down i)
  then show ?thesis
    using assms(2) by (auto simp: csem_inv_def transit_sum_upd semaphore_inv_call)
next
  case (call_up i)
  then show ?thesis
    using assms(2) by (auto simp: csem_inv_def transit_sum_upd semaphore_inv_call)
next
  case (run i p p' m s)
  have c: "ok (cs_ker c)" "s_s1 (cs_sem c) \<in> S" "s_s2 (cs_sem c) \<in> S"
    "semaphore_inv (val (cs_ker c)) (cs_sem c) (cs_pc c)"
    using assms(2) by (auto simp: csem_inv_def)
  have "semaphore_inv (val s) m ((cs_pc c)(i := p'))"
    by (rule semaphore_inv_step [OF run(4) c run(2,3)])
  moreover have "s_value m + (if p = D_rel then 1 else 0) + in_transit p' - in_transit (Some p) = s_value (cs_sem c)"
    using run(4) by (cases p) (auto split: if_splits)
  ultimately show ?thesis
    using run assms(2) semaphore_step_frame [OF run(4) c(1-3)]
    by (auto simp: csem_inv_def transit_sum_upd split: if_splits)
next
  case (other s)
  then have "ok s" "\<forall>m\<in>S. val s m = val (cs_ker c) m"
    using assms(2) other_law by (auto simp: csem_inv_def)
  then show ?thesis
    using other assms(2) semaphore_inv_cong [of "cs_ker c" "cs_sem c" "cs_pc c" s] by (auto simp: csem_inv_def)
qed

lemma csem_reachable:
  assumes "(csem_step dn up other)\<^sup>*\<^sup>* c c'" and "csem_inv ok val S v0 c"
  shows "csem_inv ok val S v0 c'"
  using assms by (induction rule: rtranclp_induct) (auto intro: csem_inv_step)

lemma csem_bound:
  assumes "csem_inv ok val S v0 c"
  shows "0 \<le> s_value (cs_sem c)" and "int (cs_downs c) \<le> v0 + int (cs_ups c)"
  using assms transit_sum_nonneg [of "cs_pc c"] by (auto simp: csem_inv_def semaphore_inv_def)

end

lemma created_sems_ok:
  assumes "created_sem v1 k1 s u" and "created_sem v2 k2 u t" and "unlocked Ptable_lock s"
    and "c_ncli (cpu s) = 0" and "c_proc (cpu s) = Some i"
  shows "sems_ok {int k1, int k2} (preempted i t)" and "end_call t = Ret None (preempted i t)"
    and "k1 \<noteq> k2" and "sem_val (preempted i t) (int k1) = v1" and "sem_val (preempted i t) (int k2) = v2"
proof -
  have "end_call t = Ret None (preempted i t)" "idle (preempted i t)"
    using assms by (intro end_call_eq; simp add: created_sem_def)+
  moreover show "k1 \<noteq> k2" using assms(1,2) by (auto simp: created_sem_def)
  ultimately show "sems_ok {int k1, int k2} (preempted i t)" "end_call t = Ret None (preempted i t)"
    "sem_val (preempted i t) (int k1) = v1" "sem_val (preempted i t) (int k2) = v2"
    using assms(1,2) by (auto simp: sems_ok_def sem_ok_def sem_val_def created_sem_def)
qed

lemma semaphore_inv_fresh:
  assumes "s_s1 m \<noteq> s_s2 m" and "0 \<le> s_value m" and "val (s_s1 m) = 1"
    and "val (s_s2 m) = (if s_value m < 1 then s_value m else 1)"
  shows "semaphore_inv val m (\<lambda>_. None)"
  using assms by (auto simp: semaphore_inv_def sem_excl1_def gate_sum_def)


text \<open>A kernel with three processes and no semaphore yet, in which one is created.\<close>

definition no_sems :: "nat \<Rightarrow> b_semaphore" where
  "no_sems = (\<lambda>_. \<lparr>sem_value = 0, sem_created = False, sem_waiting = 0\<rparr>)"

lemma binary_semaphore_create_free:
  assumes "unlocked Semtable_lock s" and "cpu_ok s" and "k < NSEM"
    and "\<not> sem_created (binary_semaphores s k)" and "\<forall>j<k. sem_created (binary_semaphores s j)"
  shows "\<exists>t. binary_semaphore_create v s = Ret (int k) t \<and> created_sem v k s t"
proof -
  have "first_index NSEM (\<lambda>i. \<not> sem_created (binary_semaphores s i)) = Some k"
    using assms by (intro first_indexI) auto
  then have "returns (binary_semaphore_create v s) (\<lambda>r t. r = int k)"
    using assms cpu_ok_nonneg [OF assms(2)]
    by (auto simp: binary_semaphore_create_def acquire_free Let_def release_held)
  moreover note binary_semaphore_create_returns [OF assms(1,2), of v]
  ultimately show ?thesis by (auto simp: returns_iff)
qed


end
