(* ===== verification/BoundedBuffer.thy ===== *)
theory BoundedBuffer
  imports Semaphore
begin

text \<open>
  The bounded buffer of the user library (\<open>boundedbuffer.c\<close>): a ring of pointers guarded by a binary
  semaphore and two counting semaphores. Any number of threads put and pop, their statements and
  system calls interleaving freely.
\<close>

section \<open>The library\<close>

record BB =
  BUFFER_SIZE :: nat
  bb_mutex :: int
  bb_empty :: semaphore
  bb_full :: semaphore
  bb_start :: nat
  bb_end :: nat
  bb_name :: string
  bb_elements :: "addr list"

definition BB_create ::
  "nat \<Rightarrow> string \<Rightarrow> 'm ptable_state_scheme \<Rightarrow> (BB option, 'm ptable_state_scheme) kres" where
  "BB_create max_capacity name s =
     bind (binary_semaphore_create 1 s) (\<lambda>mutex s.
     if mutex \<noteq> - 1 then
       bind (semaphore_create (int max_capacity) name s) (\<lambda>e s.
       case e of
         None \<Rightarrow> Ret None s
       | Some em \<Rightarrow>
           bind (semaphore_create 0 name s) (\<lambda>f s.
           case f of
             None \<Rightarrow> Ret None s
           | Some fu \<Rightarrow>
               Ret (Some \<lparr>BUFFER_SIZE = max_capacity, bb_mutex = mutex, bb_empty = em, bb_full = fu,
                          bb_start = 0, bb_end = 0, bb_name = name,
                          bb_elements = replicate max_capacity 0\<rparr>) s))
     else Ret None s)"

text \<open>
  Where a thread is in \<open>BB_put\<close> and in \<open>BB_pop\<close>, and one step of it: the next statement, or the next
  step of the semaphore operation it is in. \<open>x\<close> is the parameter \<open>element\<close> of \<open>BB_put\<close>, or the
  variable \<open>item\<close> of \<open>BB_pop\<close>.
\<close>

datatype bb_pc =
    Put_empty sem_pc | Put_lock | Put_store | Put_inc | Put_mod | Put_unlock | Put_full sem_pc
  | Pop_full sem_pc | Pop_lock | Pop_load | Pop_clear | Pop_inc | Pop_mod | Pop_unlock | Pop_empty sem_pc

fun bb_step ::
  "'s sem_call \<Rightarrow> 's sem_call \<Rightarrow> nat \<Rightarrow> bb_pc \<Rightarrow> BB \<times> 's \<times> addr \<Rightarrow> bb_pc option \<Rightarrow> BB \<times> 's \<times> addr \<Rightarrow> bool"
where
  "bb_step dn up i (Put_empty p) (b, s, x) pc (b', s', x') \<longleftrightarrow>
     (\<exists>p' m. semaphore_step dn up i p (bb_empty b, s) p' (m, s') \<and> b' = b\<lparr>bb_empty := m\<rparr> \<and> x' = x \<and>
        pc = Some (case p' of Some q \<Rightarrow> Put_empty q | None \<Rightarrow> Put_lock))"
| "bb_step dn up i Put_lock (b, s, x) pc (b', s', x') \<longleftrightarrow>
     dn i (bb_mutex b) s s' \<and> b' = b \<and> x' = x \<and> pc = Some Put_store"
| "bb_step dn up i Put_store (b, s, x) pc (b', s', x') \<longleftrightarrow>
     s' = s \<and> b' = b\<lparr>bb_elements := (bb_elements b)[bb_end b := x]\<rparr> \<and> x' = x \<and> pc = Some Put_inc"
| "bb_step dn up i Put_inc (b, s, x) pc (b', s', x') \<longleftrightarrow>
     s' = s \<and> b' = b\<lparr>bb_end := bb_end b + 1\<rparr> \<and> x' = x \<and> pc = Some Put_mod"
| "bb_step dn up i Put_mod (b, s, x) pc (b', s', x') \<longleftrightarrow>
     s' = s \<and> b' = b\<lparr>bb_end := bb_end b mod BUFFER_SIZE b\<rparr> \<and> x' = x \<and> pc = Some Put_unlock"
| "bb_step dn up i Put_unlock (b, s, x) pc (b', s', x') \<longleftrightarrow>
     up i (bb_mutex b) s s' \<and> b' = b \<and> x' = x \<and> pc = Some (Put_full U_s1)"
| "bb_step dn up i (Put_full p) (b, s, x) pc (b', s', x') \<longleftrightarrow>
     (\<exists>p' m. semaphore_step dn up i p (bb_full b, s) p' (m, s') \<and> b' = b\<lparr>bb_full := m\<rparr> \<and> x' = x \<and>
        pc = map_option Put_full p')"
| "bb_step dn up i (Pop_full p) (b, s, x) pc (b', s', x') \<longleftrightarrow>
     (\<exists>p' m. semaphore_step dn up i p (bb_full b, s) p' (m, s') \<and> b' = b\<lparr>bb_full := m\<rparr> \<and> x' = x \<and>
        pc = Some (case p' of Some q \<Rightarrow> Pop_full q | None \<Rightarrow> Pop_lock))"
| "bb_step dn up i Pop_lock (b, s, x) pc (b', s', x') \<longleftrightarrow>
     dn i (bb_mutex b) s s' \<and> b' = b \<and> x' = x \<and> pc = Some Pop_load"
| "bb_step dn up i Pop_load (b, s, x) pc (b', s', x') \<longleftrightarrow>
     s' = s \<and> b' = b \<and> x' = bb_elements b ! bb_start b \<and> pc = Some Pop_clear"
| "bb_step dn up i Pop_clear (b, s, x) pc (b', s', x') \<longleftrightarrow>
     s' = s \<and> b' = b\<lparr>bb_elements := (bb_elements b)[bb_start b := 0]\<rparr> \<and> x' = x \<and> pc = Some Pop_inc"
| "bb_step dn up i Pop_inc (b, s, x) pc (b', s', x') \<longleftrightarrow>
     s' = s \<and> b' = b\<lparr>bb_start := bb_start b + 1\<rparr> \<and> x' = x \<and> pc = Some Pop_mod"
| "bb_step dn up i Pop_mod (b, s, x) pc (b', s', x') \<longleftrightarrow>
     s' = s \<and> b' = b\<lparr>bb_start := bb_start b mod BUFFER_SIZE b\<rparr> \<and> x' = x \<and> pc = Some Pop_unlock"
| "bb_step dn up i Pop_unlock (b, s, x) pc (b', s', x') \<longleftrightarrow>
     up i (bb_mutex b) s s' \<and> b' = b \<and> x' = x \<and> pc = Some (Pop_empty U_s1)"
| "bb_step dn up i (Pop_empty p) (b, s, x) pc (b', s', x') \<longleftrightarrow>
     (\<exists>p' m. semaphore_step dn up i p (bb_empty b, s) p' (m, s') \<and> b' = b\<lparr>bb_empty := m\<rparr> \<and> x' = x \<and>
        pc = map_option Pop_empty p')"

section \<open>Threads that share a buffer\<close>

text \<open>
  \<open>bs_puts\<close> are the elements stored so far, \<open>bs_gets\<close> the items loaded so far, both in order;
  \<open>bs_var\<close> is the parameter or variable of each thread.
\<close>

record 's bb_sys =
  bs_bb :: BB
  bs_ker :: 's
  bs_pc :: "nat \<Rightarrow> bb_pc option"
  bs_var :: "nat \<Rightarrow> addr"
  bs_puts :: "addr list"
  bs_gets :: "addr list"

inductive bb_run :: "'s sem_call \<Rightarrow> 's sem_call \<Rightarrow> ('s \<Rightarrow> 's \<Rightarrow> bool) \<Rightarrow> 's bb_sys \<Rightarrow> 's bb_sys \<Rightarrow> bool"
  for dn up other where
  call_put:
    "i < NPROC \<Longrightarrow> bs_pc c i = None \<Longrightarrow>
     bb_run dn up other c (c\<lparr>bs_pc := (bs_pc c)(i := Some (Put_empty D_s2)), bs_var := (bs_var c)(i := x)\<rparr>)"
| call_pop:
    "i < NPROC \<Longrightarrow> bs_pc c i = None \<Longrightarrow>
     bb_run dn up other c (c\<lparr>bs_pc := (bs_pc c)(i := Some (Pop_full D_s2))\<rparr>)"
| run:
    "i < NPROC \<Longrightarrow> bs_pc c i = Some p \<Longrightarrow>
     bb_step dn up i p (bs_bb c, bs_ker c, bs_var c i) p' (b, s, x) \<Longrightarrow>
     bb_run dn up other c
       (c\<lparr>bs_bb := b, bs_ker := s, bs_pc := (bs_pc c)(i := p'), bs_var := (bs_var c)(i := x),
          bs_puts := bs_puts c @ (if p = Put_store then [x] else []),
          bs_gets := bs_gets c @ (if p = Pop_load then [x] else [])\<rparr>)"
| other: "other (bs_ker c) s \<Longrightarrow> bb_run dn up other c (c\<lparr>bs_ker := s\<rparr>)"

section \<open>The invariant\<close>

text \<open>Which semaphore operation a thread is in, on \<open>empty\<close> and on \<open>full\<close>.\<close>

fun on_empty :: "bb_pc option \<Rightarrow> sem_pc option" where
  "on_empty (Some (Put_empty p)) = Some p"
| "on_empty (Some (Pop_empty p)) = Some p"
| "on_empty _ = None"

fun on_full :: "bb_pc option \<Rightarrow> sem_pc option" where
  "on_full (Some (Put_full p)) = Some p"
| "on_full (Some (Pop_full p)) = Some p"
| "on_full _ = None"

text \<open>
  The section guarded by \<open>mutex\<close>; the slots a thread has claimed (taken from one counting semaphore and
  not yet given to the other); of these, the ones that hold an element: put and not yet announced, or
  announced and not yet popped.
\<close>

fun guarded :: "bb_pc option \<Rightarrow> bool" where
  "guarded (Some p) \<longleftrightarrow> p \<in> {Put_store, Put_inc, Put_mod, Put_unlock, Pop_load, Pop_clear, Pop_inc, Pop_mod, Pop_unlock}"
| "guarded None \<longleftrightarrow> False"

lemma guarded_done [simp]:
  "\<not> guarded (map_option Put_full q)" "\<not> guarded (map_option Pop_empty q)"
  by (cases q; simp)+

fun claimed :: "bb_pc option \<Rightarrow> int" where
  "claimed None = 0"
| "claimed (Some (Put_empty p)) = (if p = D_test \<or> p = D_rel then 1 else 0)"
| "claimed (Some (Pop_full p)) = (if p = D_test \<or> p = D_rel then 1 else 0)"
| "claimed (Some (Put_full p)) = (if p = U_s1 \<or> p = U_inc then 1 else 0)"
| "claimed (Some (Pop_empty p)) = (if p = U_s1 \<or> p = U_inc then 1 else 0)"
| "claimed (Some p) = 1"

fun loaded :: "bb_pc option \<Rightarrow> int" where
  "loaded None = 0"
| "loaded (Some (Put_empty p)) = 0"
| "loaded (Some (Pop_full p)) = (if p = D_test \<or> p = D_rel then 1 else 0)"
| "loaded (Some (Put_full p)) = (if p = U_s1 \<or> p = U_inc then 1 else 0)"
| "loaded (Some (Pop_empty p)) = 0"
| "loaded (Some p) = (if p \<in> {Put_inc, Put_mod, Put_unlock, Pop_lock, Pop_load} then 1 else 0)"

definition bb_sum :: "(bb_pc option \<Rightarrow> int) \<Rightarrow> (nat \<Rightarrow> bb_pc option) \<Rightarrow> int" where
  "bb_sum f P = (\<Sum>j<NPROC. f (P j))"

lemma bb_sum_upd: "i < NPROC \<Longrightarrow> bb_sum f (P(i := x)) = bb_sum f P - f (P i) + f x"
  unfolding bb_sum_def by (rule sum_upd) auto

lemma loaded_le_claimed: "loaded p \<le> claimed p"
  by (cases p rule: loaded.cases) auto

lemma loaded_nonneg: "0 \<le> loaded p"
  by (cases p rule: loaded.cases) auto

lemma bb_sum_le: "bb_sum loaded P \<le> bb_sum claimed P"
  unfolding bb_sum_def by (intro sum_mono loaded_le_claimed)

lemma bb_sum_nonneg: "0 \<le> bb_sum loaded P"
  unfolding bb_sum_def by (intro sum_nonneg loaded_nonneg)

lemma bb_sum_less:
  assumes "i < NPROC" and "loaded (P i) < claimed (P i)"
  shows "bb_sum loaded P < bb_sum claimed P"
  unfolding bb_sum_def
  by (rule sum_strict_mono_ex1) (use assms in \<open>auto simp: loaded_le_claimed\<close>)

lemma bb_sum_pos:
  assumes "i < NPROC" and "0 < loaded (P i)"
  shows "0 < bb_sum loaded P"
  unfolding bb_sum_def by (rule sum_pos2 [of _ i]) (use assms in \<open>auto simp: loaded_nonneg\<close>)

text \<open>
  \<open>section_at v P m\<close>: with the value \<open>v\<close> of \<open>mutex\<close>, \<open>m\<close> is where the thread in the guarded section
  is, if there is one.
\<close>

definition section_at :: "int \<Rightarrow> (nat \<Rightarrow> bb_pc option) \<Rightarrow> bb_pc option \<Rightarrow> bool" where
  "section_at v P m \<longleftrightarrow>
     v = 1 \<and> m = None \<and> (\<forall>j<NPROC. \<not> guarded (P j)) \<or>
     v = 0 \<and> (\<exists>i<NPROC. guarded (P i) \<and> m = P i \<and> (\<forall>j<NPROC. guarded (P j) \<longrightarrow> j = i))"

lemma section_enter:
  "section_at v P m \<Longrightarrow> v \<noteq> 0 \<Longrightarrow> i < NPROC \<Longrightarrow> guarded x \<Longrightarrow> m = None \<and> section_at 0 (P(i := x)) x"
  by (auto simp: section_at_def)

lemma section_leave:
  "section_at v P m \<Longrightarrow> guarded (P i) \<Longrightarrow> i < NPROC \<Longrightarrow> \<not> guarded x \<Longrightarrow>
   m = P i \<and> section_at 1 (P(i := x)) None"
  by (auto simp: section_at_def)

lemma section_move:
  "section_at v P m \<Longrightarrow> guarded (P i) \<Longrightarrow> i < NPROC \<Longrightarrow> guarded x \<Longrightarrow>
   m = P i \<and> section_at v (P(i := x)) x"
  by (auto simp: section_at_def)

lemma section_out:
  assumes "section_at v P m" and "\<not> guarded (P i)" and "\<not> guarded x"
  shows "section_at v (P(i := x)) m"
proof (cases "v = 1")
  case True
  then show ?thesis using assms by (simp add: section_at_def)
next
  case False
  then obtain k where k: "v = 0" "k < NPROC" "guarded (P k)" "m = P k" "\<forall>j<NPROC. guarded (P j) \<longrightarrow> j = k"
    using assms(1) unfolding section_at_def by blast
  then have "k \<noteq> i" using assms(2) by blast
  then have pk: "(P(i := x)) k = P k" by simp
  have "j = k" if "j < NPROC" "guarded ((P(i := x)) j)" for j
  proof (cases "j = i")
    case True
    then show ?thesis using that(2) assms(3) by simp
  next
    case False
    then have "guarded (P j)" using that(2) by simp
    then show ?thesis using k(5) that(1) by blast
  qed
  then have "\<exists>k<NPROC. guarded ((P(i := x)) k) \<and> m = (P(i := x)) k \<and> (\<forall>j<NPROC. guarded ((P(i := x)) j) \<longrightarrow> j = k)"
    using k(2-4) unfolding pk [symmetric] by blast
  then show ?thesis using k(1) unfolding section_at_def by blast
qed

text \<open>What the fields \<open>start\<close> and \<open>end\<close> hold while \<open>g\<close> items have been loaded and \<open>p\<close> elements stored.\<close>

fun start_at :: "nat \<Rightarrow> nat \<Rightarrow> bb_pc option \<Rightarrow> nat" where
  "start_at n g (Some Pop_clear) = (g - 1) mod n"
| "start_at n g (Some Pop_inc) = (g - 1) mod n"
| "start_at n g (Some Pop_mod) = (g - 1) mod n + 1"
| "start_at n g _ = g mod n"

fun end_at :: "nat \<Rightarrow> nat \<Rightarrow> bb_pc option \<Rightarrow> nat" where
  "end_at n p (Some Put_inc) = (p - 1) mod n"
| "end_at n p (Some Put_mod) = (p - 1) mod n + 1"
| "end_at n p _ = p mod n"

text \<open>The binary semaphores a buffer uses.\<close>

definition bb_ids :: "BB \<Rightarrow> int list" where
  "bb_ids b = [bb_mutex b, s_s1 (bb_empty b), s_s2 (bb_empty b), s_s1 (bb_full b), s_s2 (bb_full b)]"

lemma on_upd:
  "on_empty \<circ> P(i := x) = (on_empty \<circ> P)(i := on_empty x)"
  "on_full \<circ> P(i := x) = (on_full \<circ> P)(i := on_full x)"
  by auto

lemma semaphore_inv_val:
  assumes "semaphore_inv v c P" and "w (s_s1 c) = v (s_s1 c)" and "w (s_s2 c) = v (s_s2 c)"
  shows "semaphore_inv w c P"
  using assms by (simp add: semaphore_inv_def)

lemma semaphore_step_value:
  assumes "semaphore_step dn up i q (c, s) q' (m, s')"
  shows "s_value m = s_value c + (if q = D_dec then - 1 else if q = U_inc then 1 else 0)"
    and "q' = (case q of D_s2 \<Rightarrow> Some D_s1 | D_s1 \<Rightarrow> Some D_dec | D_dec \<Rightarrow> Some D_test | D_test \<Rightarrow> Some D_rel
              | D_rel \<Rightarrow> None | U_s1 \<Rightarrow> Some U_inc | U_inc \<Rightarrow> Some U_test | U_test \<Rightarrow> Some U_rel | U_rel \<Rightarrow> None)"
  using assms by (cases q; auto split: if_splits)+

definition sem_entry :: "sem_pc option \<Rightarrow> sem_pc option \<Rightarrow> bool" where
  "sem_entry p q \<longleftrightarrow> q = p \<or> p = None \<and> q \<in> {Some D_s2, Some U_s1}"

lemma semaphore_inv_entry:
  "semaphore_inv v c Q \<Longrightarrow> i < NPROC \<Longrightarrow> sem_entry (Q i) x \<Longrightarrow> semaphore_inv v c (Q(i := x))"
  using semaphore_inv_call [of v c Q i] by (auto simp: sem_entry_def fun_upd_idem)

text \<open>A thread does downs before its section and ups after it.\<close>

fun pc_ok :: "bb_pc option \<Rightarrow> bool" where
  "pc_ok (Some (Put_empty p)) \<longleftrightarrow> p \<in> {D_s2, D_s1, D_dec, D_test, D_rel}"
| "pc_ok (Some (Pop_full p)) \<longleftrightarrow> p \<in> {D_s2, D_s1, D_dec, D_test, D_rel}"
| "pc_ok (Some (Put_full p)) \<longleftrightarrow> p \<in> {U_s1, U_inc, U_test, U_rel}"
| "pc_ok (Some (Pop_empty p)) \<longleftrightarrow> p \<in> {U_s1, U_inc, U_test, U_rel}"
| "pc_ok _ \<longleftrightarrow> True"

definition bb_sems :: 
  "('s \<Rightarrow> bool) \<Rightarrow> ('s \<Rightarrow> int \<Rightarrow> int) \<Rightarrow> int set \<Rightarrow> 's \<Rightarrow> BB \<Rightarrow> (nat \<Rightarrow> bb_pc option) \<Rightarrow> bool" where
  "bb_sems ok val S s b P \<longleftrightarrow> ok s \<and> set (bb_ids b) \<subseteq> S \<and> distinct (bb_ids b) \<and>
     semaphore_inv (val s) (bb_empty b) (on_empty \<circ> P) \<and>
     semaphore_inv (val s) (bb_full b) (on_full \<circ> P)"

context binary_sem
begin

lemma bb_sems_empty:
  assumes "semaphore_step dn up i q (bb_empty b, s) q' (m, s')" and "bb_sems ok val S s b P" and "i < NPROC"
    and "on_empty (P i) = Some q" and "on_empty p' = q'" and "on_full p' = on_full (P i)"
  shows "bb_sems ok val S s' (b\<lparr>bb_empty := m\<rparr>) (P(i := p')) \<and> bb_ids (b\<lparr>bb_empty := m\<rparr>) = bb_ids b"
proof -
  have inv: "ok s" "s_s1 (bb_empty b) \<in> S" "s_s2 (bb_empty b) \<in> S"
    "semaphore_inv (val s) (bb_empty b) (on_empty \<circ> P)"
    "semaphore_inv (val s) (bb_full b) (on_full \<circ> P)"
    using assms(2) by (auto simp: bb_sems_def bb_ids_def)
  note f = semaphore_step_frame [OF assms(1) inv(1-3)]
  have 1: "semaphore_inv (val s') m ((on_empty \<circ> P)(i := on_empty p'))" unfolding assms(5)
    by (rule semaphore_inv_step [OF assms(1) inv(1-4) assms(3)]) (simp add: assms(4))
  have "m \<in> S \<and> m \<noteq> s_s1 (bb_empty b) \<and> m \<noteq> s_s2 (bb_empty b)"
    if "m = s_s1 (bb_full b) \<or> m = s_s2 (bb_full b)" for m
    using assms(2) that by (auto simp: bb_sems_def bb_ids_def)
  then have "val s' (s_s1 (bb_full b)) = val s (s_s1 (bb_full b))" "val s' (s_s2 (bb_full b)) = val s (s_s2 (bb_full b))"
    using f(4) by blast+
  then have "semaphore_inv (val s') (bb_full b) (on_full \<circ> P)"
    by (rule semaphore_inv_val [OF inv(5)])
  then have 2: "semaphore_inv (val s') (bb_full b) ((on_full \<circ> P)(i := on_full p'))"
    unfolding assms(6) by (simp add: fun_upd_idem)
  have 3: "bb_ids (b\<lparr>bb_empty := m\<rparr>) = bb_ids b" using f(2,3) by (simp add: bb_ids_def)
  show ?thesis
    using 1 2 f(1) assms(2) unfolding bb_sems_def on_upd 3 by simp
qed

lemma bb_sems_full:
  assumes "semaphore_step dn up i q (bb_full b, s) q' (m, s')" and "bb_sems ok val S s b P" and "i < NPROC"
    and "on_full (P i) = Some q" and "on_full p' = q'" and "on_empty p' = on_empty (P i)"
  shows "bb_sems ok val S s' (b\<lparr>bb_full := m\<rparr>) (P(i := p')) \<and> bb_ids (b\<lparr>bb_full := m\<rparr>) = bb_ids b"
proof -
  have inv: "ok s" "s_s1 (bb_full b) \<in> S" "s_s2 (bb_full b) \<in> S"
    "semaphore_inv (val s) (bb_full b) (on_full \<circ> P)"
    "semaphore_inv (val s) (bb_empty b) (on_empty \<circ> P)"
    using assms(2) by (auto simp: bb_sems_def bb_ids_def)
  note f = semaphore_step_frame [OF assms(1) inv(1-3)]
  have 1: "semaphore_inv (val s') m ((on_full \<circ> P)(i := on_full p'))" unfolding assms(5)
    by (rule semaphore_inv_step [OF assms(1) inv(1-4) assms(3)]) (simp add: assms(4))
  have "m \<in> S \<and> m \<noteq> s_s1 (bb_full b) \<and> m \<noteq> s_s2 (bb_full b)"
    if "m = s_s1 (bb_empty b) \<or> m = s_s2 (bb_empty b)" for m
    using assms(2) that by (auto simp: bb_sems_def bb_ids_def)
  then have "val s' (s_s1 (bb_empty b)) = val s (s_s1 (bb_empty b))" "val s' (s_s2 (bb_empty b)) = val s (s_s2 (bb_empty b))"
    using f(4) by blast+
  then have "semaphore_inv (val s') (bb_empty b) (on_empty \<circ> P)"
    by (rule semaphore_inv_val [OF inv(5)])
  then have 2: "semaphore_inv (val s') (bb_empty b) ((on_empty \<circ> P)(i := on_empty p'))"
    unfolding assms(6) by (simp add: fun_upd_idem)
  have 3: "bb_ids (b\<lparr>bb_full := m\<rparr>) = bb_ids b" using f(2,3) by (simp add: bb_ids_def)
  show ?thesis
    using 1 2 f(1) assms(2) unfolding bb_sems_def on_upd 3 by simp
qed

lemma bb_sems_mutex:
  assumes "bb_sems ok val S s b P" and "ok s'" and "\<forall>m\<in>S. m \<noteq> bb_mutex b \<longrightarrow> val s' m = val s m"
    and "bb_empty b' = bb_empty b" and "bb_full b' = bb_full b" and "bb_mutex b' = bb_mutex b"
    and "i < NPROC" and "sem_entry (on_empty (P i)) (on_empty p')" and "sem_entry (on_full (P i)) (on_full p')"
  shows "bb_sems ok val S s' b' (P(i := p')) \<and> bb_ids b' = bb_ids b"
proof -
  have inv: "semaphore_inv (val s) (bb_empty b) (on_empty \<circ> P)" "semaphore_inv (val s) (bb_full b) (on_full \<circ> P)"
    using assms(1) by (simp_all add: bb_sems_def)
  have "m \<in> S \<and> m \<noteq> bb_mutex b"
    if "m = s_s1 (bb_empty b) \<or> m = s_s2 (bb_empty b) \<or> m = s_s1 (bb_full b) \<or> m = s_s2 (bb_full b)" for m
    using assms(1) that by (auto simp: bb_sems_def bb_ids_def)
  then have same: "val s' (s_s1 (bb_empty b)) = val s (s_s1 (bb_empty b))"
    "val s' (s_s2 (bb_empty b)) = val s (s_s2 (bb_empty b))"
    "val s' (s_s1 (bb_full b)) = val s (s_s1 (bb_full b))"
    "val s' (s_s2 (bb_full b)) = val s (s_s2 (bb_full b))"
    using assms(3) by blast+
  have "semaphore_inv (val s') (bb_empty b) (on_empty \<circ> P)"
    by (rule semaphore_inv_val [OF inv(1) same(1,2)])
  then have 1: "semaphore_inv (val s') (bb_empty b) ((on_empty \<circ> P)(i := on_empty p'))"
    by (rule semaphore_inv_entry) (use assms(7,8) in simp_all)
  have "semaphore_inv (val s') (bb_full b) (on_full \<circ> P)"
    by (rule semaphore_inv_val [OF inv(2) same(3,4)])
  then have 2: "semaphore_inv (val s') (bb_full b) ((on_full \<circ> P)(i := on_full p'))"
    by (rule semaphore_inv_entry) (use assms(7,9) in simp_all)
  have 3: "bb_ids b' = bb_ids b" using assms(4-6) by (simp add: bb_ids_def)
  show ?thesis using 1 2 assms(1,2) unfolding bb_sems_def on_upd 3 assms(4,5) by simp
qed

lemma bb_sems_step:
  assumes "bb_step dn up i p (b, s, x) p' (b', s', x')" and "i < NPROC" and "P i = Some p"
    and "bb_sems ok val S s b P" and "pc_ok (Some p)"
  shows "bb_sems ok val S s' b' (P(i := p')) \<and> bb_ids b' = bb_ids b"
proof -
  have m: "ok s" "bb_mutex b \<in> S" using assms(4) by (auto simp: bb_sems_def bb_ids_def)
  have "ok s' \<and> (\<forall>m\<in>S. m \<noteq> bb_mutex b \<longrightarrow> val s' m = val s m) \<and> bb_empty b' = bb_empty b \<and>
      bb_full b' = bb_full b \<and> bb_mutex b' = bb_mutex b \<and> sem_entry (on_empty (P i)) (on_empty p') \<and>
      sem_entry (on_full (P i)) (on_full p')"
    if "on_empty (Some p) = None" "on_full (Some p) = None"
    using that assms(1,3) m dn_law [OF m, of i s'] up_law [OF m, of i s']
    by (cases p) (auto simp: sem_entry_def)
  then have rest: ?thesis if "on_empty (Some p) = None" "on_full (Some p) = None"
    using that assms(2,4) by (intro bb_sems_mutex [where s = s]) auto
  show ?thesis
  proof (cases p)
    case (Put_empty q)
    then obtain q' c where c: "semaphore_step dn up i q (bb_empty b, s) q' (c, s')" "b' = b\<lparr>bb_empty := c\<rparr>"
      "p' = Some (case q' of Some q \<Rightarrow> Put_empty q | None \<Rightarrow> Put_lock)" using assms(1) by auto
    show ?thesis unfolding c(2)
      by (rule bb_sems_empty [OF c(1) assms(4,2)]) (use Put_empty assms(3) c(3) in \<open>auto split: option.splits\<close>)
  next
    case (Pop_empty q)
    then obtain q' c where c: "semaphore_step dn up i q (bb_empty b, s) q' (c, s')" "b' = b\<lparr>bb_empty := c\<rparr>"
      "p' = map_option Pop_empty q'" using assms(1) by auto
    show ?thesis unfolding c(2)
      by (rule bb_sems_empty [OF c(1) assms(4,2)]) (use Pop_empty assms(3) c(3) in \<open>cases q'; auto\<close>)+
  next
    case (Put_full q)
    then obtain q' c where c: "semaphore_step dn up i q (bb_full b, s) q' (c, s')" "b' = b\<lparr>bb_full := c\<rparr>"
      "p' = map_option Put_full q'" using assms(1) by auto
    show ?thesis unfolding c(2)
      by (rule bb_sems_full [OF c(1) assms(4,2)]) (use Put_full assms(3) c(3) in \<open>cases q'; auto\<close>)+
  next
    case (Pop_full q)
    then obtain q' c where c: "semaphore_step dn up i q (bb_full b, s) q' (c, s')" "b' = b\<lparr>bb_full := c\<rparr>"
      "p' = Some (case q' of Some q \<Rightarrow> Pop_full q | None \<Rightarrow> Pop_lock)" using assms(1) by auto
    show ?thesis unfolding c(2)
      by (rule bb_sems_full [OF c(1) assms(4,2)]) (use Pop_full assms(3) c(3) in \<open>auto split: option.splits\<close>)
  qed (use rest in simp_all)
qed

lemma bb_mutex_kept:
  assumes "bb_step dn up i p (b, s, x) p' (b', s', x')" and "bb_sems ok val S s b P"
    and "p \<notin> {Put_lock, Put_unlock, Pop_lock, Pop_unlock}"
  shows "val s' (bb_mutex b) = val s (bb_mutex b)"
proof -
  have "ok s" and ids: "set (bb_ids b) \<subseteq> S" "distinct (bb_ids b)" using assms(2) by (simp_all add: bb_sems_def)
  have "val s' (bb_mutex b) = val s (bb_mutex b)"
    if "semaphore_step dn up i q (c, s) q' (m, s')" "c = bb_empty b \<or> c = bb_full b" for q q' c m
  proof -
    have "s_s1 c \<in> S" "s_s2 c \<in> S" "bb_mutex b \<in> S" "bb_mutex b \<noteq> s_s1 c" "bb_mutex b \<noteq> s_s2 c"
      using ids that(2) by (auto simp: bb_ids_def)
    then show ?thesis using semaphore_step_frame(4) [OF that(1) \<open>ok s\<close>] by blast
  qed
  then show ?thesis using assms(1,3) by (cases p) auto
qed

end

text \<open>Every slot is free, announced or claimed; the elements in the buffer are announced or loaded.\<close>

definition bb_count :: "BB \<Rightarrow> (nat \<Rightarrow> bb_pc option) \<Rightarrow> int" where
  "bb_count b P = s_value (bb_empty b) + s_value (bb_full b) + bb_sum claimed P"

definition bb_items :: "BB \<Rightarrow> (nat \<Rightarrow> bb_pc option) \<Rightarrow> int" where
  "bb_items b P = s_value (bb_full b) + bb_sum loaded P"

lemma bb_count_step:
  assumes "bb_step dn up i p (b, s, x) p' (b', s', x')" and "i < NPROC" and "P i = Some p" and "pc_ok (Some p)"
  shows "bb_count b' (P(i := p')) = bb_count b P"
    and "bb_items b' (P(i := p')) = bb_items b P + (if p = Put_store then 1 else if p = Pop_load then - 1 else 0)"
    and "pc_ok p'"
proof -
  have d: "s_value (bb_empty b') + s_value (bb_full b') + claimed p' = s_value (bb_empty b) + s_value (bb_full b) + claimed (Some p) \<and>
    s_value (bb_full b') + loaded p' =
      s_value (bb_full b) + loaded (Some p) + (if p = Put_store then 1 else if p = Pop_load then - 1 else 0) \<and> pc_ok p'"
  proof (cases "on_empty (Some p) = None \<and> on_full (Some p) = None")
    case True
    then show ?thesis using assms(1) by (cases p) auto
  next
    case False
    then obtain q where "p \<in> {Put_empty q, Put_full q, Pop_full q, Pop_empty q}" by (cases p) auto
    then show ?thesis
      using assms(1,4) by (cases q) (auto dest!: semaphore_step_value)
  qed
  then show "bb_count b' (P(i := p')) = bb_count b P" "pc_ok p'"
    "bb_items b' (P(i := p')) = bb_items b P + (if p = Put_store then 1 else if p = Pop_load then - 1 else 0)"
    using assms(2,3) by (auto simp: bb_count_def bb_items_def bb_sum_upd)
qed

text \<open>
  The ring: the elements stored and not loaded yet are in the slots from \<open>start\<close> on, and what has been
  loaded is a prefix of what has been stored; \<open>m\<close> is where the thread in the guarded section is.
\<close>

definition bb_ring :: "nat \<Rightarrow> BB \<Rightarrow> addr list \<Rightarrow> addr list \<Rightarrow> bb_pc option \<Rightarrow> bool" where
  "bb_ring n b puts gets m \<longleftrightarrow> 0 < n \<and> BUFFER_SIZE b = n \<and> length (bb_elements b) = n \<and>
     take (length gets) puts = gets \<and> length gets \<le> length puts \<and>
     (\<forall>k. length gets \<le> k \<and> k < length puts \<longrightarrow> bb_elements b ! (k mod n) = puts ! k) \<and>
     bb_start b = start_at n (length gets) m \<and> bb_end b = end_at n (length puts) m \<and>
     (m \<in> {Some Pop_clear, Some Pop_inc, Some Pop_mod} \<longrightarrow> 0 < length gets) \<and>
     (m \<in> {Some Put_inc, Some Put_mod} \<longrightarrow> 0 < length puts)"

lemma mod_neq_close:
  fixes k l n :: nat
  assumes "k < l" and "l < k + n"
  shows "k mod n \<noteq> l mod n"
proof
  assume "k mod n = l mod n"
  then have "n dvd l - k" using assms(1) by (metis mod_eq_dvd_iff_nat less_imp_le)
  then show False using assms by (auto dest!: dvd_imp_le)
qed

lemma mod_step: "xs \<noteq> [] \<Longrightarrow> Suc ((length xs - Suc 0) mod n) mod n = length xs mod n"
  by (cases xs) (simp_all add: mod_Suc_eq)

lemma bb_ring_stores:
  assumes "bb_ring n b puts gets (Some Put_store)" and "length puts < length gets + n"
  shows "bb_end b < n" and
    "bb_ring n (b\<lparr>bb_elements := (bb_elements b)[bb_end b := x]\<rparr>) (puts @ [x]) gets (Some Put_inc)"
proof -
  have e: "bb_end b = length puts mod n" "0 < n" using assms(1) by (simp_all add: bb_ring_def)
  then show "bb_end b < n" by simp
  have "(bb_elements b)[bb_end b := x] ! (k mod n) = (puts @ [x]) ! k"
    if "length gets \<le> k" "k < length (puts @ [x])" for k
  proof (cases "k = length puts")
    case True
    then show ?thesis using assms(1) e by (simp add: bb_ring_def)
  next
    case False
    then have "k mod n \<noteq> length puts mod n" using that assms(2) by (intro mod_neq_close) auto
    then show ?thesis using False that assms(1) e by (simp add: bb_ring_def nth_append)
  qed
  then show "bb_ring n (b\<lparr>bb_elements := (bb_elements b)[bb_end b := x]\<rparr>) (puts @ [x]) gets (Some Put_inc)"
    using assms(1) by (simp add: bb_ring_def)
qed

lemma bb_ring_loads:
  assumes "bb_ring n b puts gets (Some Pop_load)" and "length gets < length puts"
  shows "bb_start b < n" and "bb_elements b ! bb_start b = puts ! length gets"
    and "bb_ring n b puts (gets @ [bb_elements b ! bb_start b]) (Some Pop_clear)"
proof -
  have st: "bb_start b = length gets mod n" "0 < n" "take (length gets) puts = gets"
    using assms(1) by (simp_all add: bb_ring_def)
  then show "bb_start b < n" by simp
  have slots: "\<And>k. length gets \<le> k \<and> k < length puts \<longrightarrow> bb_elements b ! (k mod n) = puts ! k"
    using assms(1) unfolding bb_ring_def by blast
  then show *: "bb_elements b ! bb_start b = puts ! length gets"
    using st(1) assms(2) by (metis order_refl)
  have "take (Suc (length gets)) puts = gets @ [puts ! length gets]"
    using assms(2) st(3) by (metis take_Suc_conv_app_nth)
  then show "bb_ring n b puts (gets @ [bb_elements b ! bb_start b]) (Some Pop_clear)"
    using assms(1) assms(2) st slots unfolding * bb_ring_def by simp
qed

lemma bb_ring_clears:
  assumes "bb_ring n b puts gets (Some Pop_clear)" and "length puts < length gets + n"
  shows "bb_ring n (b\<lparr>bb_elements := (bb_elements b)[bb_start b := 0]\<rparr>) puts gets (Some Pop_inc)"
proof -
  have st: "bb_start b = (length gets - 1) mod n" "0 < length gets" using assms(1) by (simp_all add: bb_ring_def)
  have "k mod n \<noteq> (length gets - 1) mod n" if "length gets \<le> k" "k < length puts" for k
  proof -
    have "length gets - 1 < k" "k < length gets - 1 + n" using that st(2) assms(2) by linarith+
    then show ?thesis by (metis mod_neq_close)
  qed
  then have "(bb_elements b)[bb_start b := 0] ! (k mod n) = bb_elements b ! (k mod n)"
    if "length gets \<le> k" "k < length puts" for k
    using that st(1) by (metis nth_list_update_neq)
  then show ?thesis using assms(1) unfolding bb_ring_def by simp
qed

lemma bb_ring_fields:
  assumes "bb_ring n b puts gets m" and "puts' = puts" and "gets' = gets"
    and "BUFFER_SIZE b' = BUFFER_SIZE b" and "bb_elements b' = bb_elements b"
    and "bb_start b' = start_at n (length gets) m'" and "bb_end b' = end_at n (length puts) m'"
    and "m' \<in> {Some Pop_clear, Some Pop_inc, Some Pop_mod} \<longrightarrow> 0 < length gets"
    and "m' \<in> {Some Put_inc, Some Put_mod} \<longrightarrow> 0 < length puts"
  shows "bb_ring n b' puts' gets' m'"
  using assms unfolding bb_ring_def by simp

lemma bb_ring_cong:
  "BUFFER_SIZE b' = BUFFER_SIZE b \<Longrightarrow> bb_elements b' = bb_elements b \<Longrightarrow> bb_start b' = bb_start b \<Longrightarrow>
   bb_end b' = bb_end b \<Longrightarrow> bb_ring n b' puts gets m = bb_ring n b puts gets m"
  by (simp add: bb_ring_def)

lemma bb_ring_step:
  assumes "bb_step dn up i p (b, s, x) p' (b', s', x')" and "bb_ring n b puts gets (Some p)" and "guarded (Some p)"
    and "p = Put_store \<or> p = Pop_clear \<Longrightarrow> length puts < length gets + n"
    and "p = Pop_load \<Longrightarrow> length gets < length puts"
  shows "bb_ring n b' (puts @ (if p = Put_store then [x'] else [])) (gets @ (if p = Pop_load then [x'] else []))
           (if guarded p' then p' else None)"
proof -
  have ring: "BUFFER_SIZE b = n" "bb_start b = start_at n (length gets) (Some p)"
    "bb_end b = end_at n (length puts) (Some p)"
    "Some p \<in> {Some Pop_clear, Some Pop_inc, Some Pop_mod} \<longrightarrow> 0 < length gets"
    "Some p \<in> {Some Put_inc, Some Put_mod} \<longrightarrow> 0 < length puts"
    using assms(2) unfolding bb_ring_def by blast+
  have "p = Put_store \<or> p = Pop_load \<or> p = Pop_clear \<or> p = Put_inc \<or> p = Put_mod \<or> p = Put_unlock \<or>
      p = Pop_inc \<or> p = Pop_mod \<or> p = Pop_unlock"
    using assms(3) by auto
  then show ?thesis
  proof (elim disjE)
    assume p: "p = Put_store"
    then have "b' = b\<lparr>bb_elements := (bb_elements b)[bb_end b := x]\<rparr>" "x' = x" "p' = Some Put_inc"
      using assms(1) by simp_all
    then show ?thesis using p bb_ring_stores(2) [OF assms(2) [unfolded p] assms(4)] by simp
  next
    assume p: "p = Pop_load"
    then have "b' = b" "x' = bb_elements b ! bb_start b" "p' = Some Pop_clear" using assms(1) by simp_all
    then show ?thesis using p bb_ring_loads(3) [OF assms(2) [unfolded p] assms(5)] by simp
  next
    assume p: "p = Pop_clear"
    then have "b' = b\<lparr>bb_elements := (bb_elements b)[bb_start b := 0]\<rparr>" "p' = Some Pop_inc"
      using assms(1) by simp_all
    moreover have "bb_ring n (b\<lparr>bb_elements := (bb_elements b)[bb_start b := 0]\<rparr>) puts gets (Some Pop_inc)"
      using assms(2,4) unfolding p by (intro bb_ring_clears) blast+
    ultimately show ?thesis unfolding p by simp
  next
    assume p: "p = Put_inc"
    then have "b' = b\<lparr>bb_end := bb_end b + 1\<rparr>" "p' = Some Put_mod" using assms(1) by simp_all
    then show ?thesis using p ring by (intro bb_ring_fields [OF assms(2)]) (simp_all)
  next
    assume p: "p = Put_mod"
    then have "b' = b\<lparr>bb_end := bb_end b mod BUFFER_SIZE b\<rparr>" "p' = Some Put_unlock" using assms(1) by simp_all
    then show ?thesis using p ring by (intro bb_ring_fields [OF assms(2)]) (simp_all add: mod_step)
  next
    assume p: "p = Put_unlock"
    then have "b' = b" "p' = Some (Put_full U_s1)" using assms(1) by simp_all
    then show ?thesis using p ring by (intro bb_ring_fields [OF assms(2)]) (simp_all)
  next
    assume p: "p = Pop_inc"
    then have "b' = b\<lparr>bb_start := bb_start b + 1\<rparr>" "p' = Some Pop_mod" using assms(1) by simp_all
    then show ?thesis using p ring by (intro bb_ring_fields [OF assms(2)]) (simp_all)
  next
    assume p: "p = Pop_mod"
    then have "b' = b\<lparr>bb_start := bb_start b mod BUFFER_SIZE b\<rparr>" "p' = Some Pop_unlock" using assms(1) by simp_all
    then show ?thesis using p ring by (intro bb_ring_fields [OF assms(2)]) (simp_all add: mod_step)
  next
    assume p: "p = Pop_unlock"
    then have "b' = b" "p' = Some (Pop_empty U_s1)" using assms(1) by simp_all
    then show ?thesis using p ring by (intro bb_ring_fields [OF assms(2)]) (simp_all)
  qed
qed

lemma bb_ring_section:
  "bb_ring n b puts gets None \<longleftrightarrow> bb_ring n b puts gets (Some Put_store)"
  "bb_ring n b puts gets None \<longleftrightarrow> bb_ring n b puts gets (Some Pop_load)"
  by (simp_all add: bb_ring_def)

section \<open>All interleavings\<close>

definition bb_inv ::
  "('s \<Rightarrow> bool) \<Rightarrow> ('s \<Rightarrow> int \<Rightarrow> int) \<Rightarrow> int set \<Rightarrow> nat \<Rightarrow> 's bb_sys \<Rightarrow> bool" where
  "bb_inv ok val S n c \<longleftrightarrow> bb_sems ok val S (bs_ker c) (bs_bb c) (bs_pc c) \<and>
     (\<forall>j<NPROC. pc_ok (bs_pc c j)) \<and> bb_count (bs_bb c) (bs_pc c) = int n \<and>
     bb_items (bs_bb c) (bs_pc c) = int (length (bs_puts c)) - int (length (bs_gets c)) \<and>
     (\<exists>m. section_at (val (bs_ker c) (bb_mutex (bs_bb c))) (bs_pc c) m \<and>
          bb_ring n (bs_bb c) (bs_puts c) (bs_gets c) m)"

text \<open>A thread that is about to store finds a free slot, one that is about to load an element.\<close>

lemma bb_room:
  assumes "bb_inv ok val S n c" and "i < NPROC"
  shows "loaded (bs_pc c i) < claimed (bs_pc c i) \<Longrightarrow> length (bs_puts c) < length (bs_gets c) + n"
    and "0 < loaded (bs_pc c i) \<Longrightarrow> length (bs_gets c) < length (bs_puts c)"
proof -
  have v: "0 \<le> s_value (bb_empty (bs_bb c))" "0 \<le> s_value (bb_full (bs_bb c))"
    and n: "bb_count (bs_bb c) (bs_pc c) = int n"
    "bb_items (bs_bb c) (bs_pc c) = int (length (bs_puts c)) - int (length (bs_gets c))"
    using assms(1) by (auto simp: bb_inv_def bb_sems_def semaphore_inv_def)
  show "length (bs_puts c) < length (bs_gets c) + n" if "loaded (bs_pc c i) < claimed (bs_pc c i)"
    using bb_sum_less [of i "bs_pc c", OF assms(2) that] v n by (simp add: bb_count_def bb_items_def)
  show "length (bs_gets c) < length (bs_puts c)" if "0 < loaded (bs_pc c i)"
    using bb_sum_pos [of i "bs_pc c", OF assms(2) that] v n by (simp add: bb_items_def)
qed

lemma bb_inv_call:
  assumes "bb_inv ok val S n c" and "i < NPROC" and "bs_pc c i = None" and "p = Put_empty D_s2 \<or> p = Pop_full D_s2"
    and "bs_bb c' = bs_bb c" "bs_ker c' = bs_ker c" "bs_puts c' = bs_puts c" "bs_gets c' = bs_gets c"
    and "bs_pc c' = (bs_pc c)(i := Some p)"
  shows "bb_inv ok val S n c'"
proof -
  let ?P = "(bs_pc c)(i := Some p)"
  have "semaphore_inv (val (bs_ker c)) (bb_empty (bs_bb c)) (on_empty \<circ> ?P)"
    "semaphore_inv (val (bs_ker c)) (bb_full (bs_bb c)) (on_full \<circ> ?P)"
    using assms(1-4) unfolding on_upd
    by (auto simp: bb_inv_def bb_sems_def sem_entry_def intro!: semaphore_inv_entry)
  then have "bb_sems ok val S (bs_ker c) (bs_bb c) ?P" using assms(1) by (simp add: bb_inv_def bb_sems_def)
  moreover have "bb_sum claimed ?P = bb_sum claimed (bs_pc c)" "bb_sum loaded ?P = bb_sum loaded (bs_pc c)"
    using assms(2-4) by (auto simp: bb_sum_upd)
  moreover have "section_at v ?P m" if "section_at v (bs_pc c) m" for v m
    using that assms(3,4) by (intro section_out) auto
  moreover have "\<forall>j<NPROC. pc_ok (?P j)" using assms(1,4) by (auto simp: bb_inv_def)
  ultimately show ?thesis
    using assms(1,5-9) unfolding bb_inv_def bb_count_def bb_items_def by auto
qed

context binary_sem
begin

lemma bb_inv_run:
  assumes "bb_inv ok val S n c" and "i < NPROC" and p: "bs_pc c i = Some p"
    and st: "bb_step dn up i p (bs_bb c, bs_ker c, bs_var c i) p' (b, s, x)"
  shows "bb_inv ok val S n
    (c\<lparr>bs_bb := b, bs_ker := s, bs_pc := (bs_pc c)(i := p'), bs_var := (bs_var c)(i := x),
       bs_puts := bs_puts c @ (if p = Put_store then [x] else []),
       bs_gets := bs_gets c @ (if p = Pop_load then [x] else [])\<rparr>)"
proof -
  let ?v = "val (bs_ker c) (bb_mutex (bs_bb c))" and ?P = "(bs_pc c)(i := p')"
  obtain m where sems: "bb_sems ok val S (bs_ker c) (bs_bb c) (bs_pc c)"
    and m: "section_at ?v (bs_pc c) m" "bb_ring n (bs_bb c) (bs_puts c) (bs_gets c) m"
    using assms(1) unfolding bb_inv_def by blast
  have pc: "pc_ok (Some p)" using assms(1,2) p by (metis bb_inv_def)
  note sems' = bb_sems_step [where P = "bs_pc c", OF st assms(2) p sems pc]
    and count = bb_count_step [where P = "bs_pc c", OF st assms(2) p pc]
  have "ok (bs_ker c)" "bb_mutex (bs_bb c) \<in> S" using sems by (auto simp: bb_sems_def bb_ids_def)
  note mutex = dn_law [OF this, of i s] up_law [OF this, of i s]
  have mx: "bb_mutex b = bb_mutex (bs_bb c)" using sems' by (simp add: bb_ids_def)
  have "\<exists>m'. section_at (val s (bb_mutex b)) ?P m' \<and>
      bb_ring n b (bs_puts c @ (if p = Put_store then [x] else [])) (bs_gets c @ (if p = Pop_load then [x] else [])) m'"
  proof (cases "guarded (Some p)")
    case in_section: True
    then have "guarded (bs_pc c i)" using p by simp
    then have "m = bs_pc c i" using section_move [OF m(1) _ assms(2)] by blast
    then have "bb_ring n b (bs_puts c @ (if p = Put_store then [x] else []))
        (bs_gets c @ (if p = Pop_load then [x] else [])) (if guarded p' then p' else None)"
      using m(2) bb_room [OF assms(1,2)] p by (intro bb_ring_step [OF st _ in_section]) auto
    moreover have "section_at (val s (bb_mutex b)) ?P (if guarded p' then p' else None)"
    proof (cases "guarded p'")
      case True
      then have "p \<notin> {Put_lock, Put_unlock, Pop_lock, Pop_unlock}" using st in_section by auto
      then have "val s (bb_mutex b) = ?v" unfolding mx by (rule bb_mutex_kept [OF st sems])
      then show ?thesis using section_move [OF m(1) \<open>guarded (bs_pc c i)\<close> assms(2) True] True by simp
    next
      case False
      then have "p = Put_unlock \<or> p = Pop_unlock" using st in_section by auto
      then have "val s (bb_mutex b) = 1" using st mutex(2) \<open>bb_mutex (bs_bb c) \<in> S\<close> unfolding mx by auto
      then show ?thesis using section_leave [OF m(1) \<open>guarded (bs_pc c i)\<close> assms(2) False] False by simp
    qed
    ultimately show ?thesis by blast
  next
    case out: False
    then have ng: "\<not> guarded (bs_pc c i)" "p \<noteq> Put_store" "p \<noteq> Pop_load" using p by auto
    show ?thesis
    proof (cases "guarded p'")
      case True
      then have "p = Put_lock \<and> p' = Some Put_store \<or> p = Pop_lock \<and> p' = Some Pop_load"
        using st out by (cases p) (auto split: option.splits)
      moreover from this have "?v \<noteq> 0 \<and> val s (bb_mutex b) = 0 \<and> b = bs_bb c"
        using st mutex(1) \<open>bb_mutex (bs_bb c) \<in> S\<close> unfolding mx by auto
      moreover from this have "m = None \<and> section_at 0 ?P p'" using section_enter [OF m(1) _ assms(2) True] by blast
      ultimately show ?thesis using m(2) bb_ring_section [of n b] ng(2,3) by auto
    next
      case False
      then have "p \<notin> {Put_lock, Put_unlock, Pop_lock, Pop_unlock}" using st out False by auto
      then have "val s (bb_mutex b) = ?v" unfolding mx by (rule bb_mutex_kept [OF st sems])
      moreover have "bb_ring n b (bs_puts c) (bs_gets c) m"
      proof -
        have "BUFFER_SIZE b = BUFFER_SIZE (bs_bb c)" "bb_elements b = bb_elements (bs_bb c)"
          "bb_start b = bb_start (bs_bb c)" "bb_end b = bb_end (bs_bb c)"
          using st out by (cases p; auto)+
        then show ?thesis using m(2) by (metis bb_ring_cong)
      qed
      ultimately show ?thesis using section_out [OF m(1) ng(1) False] ng(2,3) by auto
    qed
  qed
  moreover have "\<forall>j<NPROC. pc_ok (?P j)" using assms(1) count(3) by (auto simp: bb_inv_def)
  ultimately show ?thesis using assms(1) sems' count(1,2) unfolding bb_inv_def by auto
qed

lemma bb_inv_other:
  assumes "bb_inv ok val S n c" and "other (bs_ker c) s"
  shows "bb_inv ok val S n (c\<lparr>bs_ker := s\<rparr>)"
proof -
  have sems: "bb_sems ok val S (bs_ker c) (bs_bb c) (bs_pc c)" using assms(1) by (simp add: bb_inv_def)
  then have "ok s" and v: "\<forall>m\<in>S. val s m = val (bs_ker c) m"
    using other_law [OF _ assms(2)] by (auto simp: bb_sems_def)
  moreover have "val s m = val (bs_ker c) m" if "m \<in> set (bb_ids (bs_bb c))" for m
    using that sems v by (auto simp: bb_sems_def)
  ultimately have ids: "ok s" "\<And>m. m \<in> set (bb_ids (bs_bb c)) \<Longrightarrow> val s m = val (bs_ker c) m" by blast+
  then have "semaphore_inv (val s) (bb_empty (bs_bb c)) (on_empty \<circ> bs_pc c)"
    "semaphore_inv (val s) (bb_full (bs_bb c)) (on_full \<circ> bs_pc c)"
    using sems by (auto simp: bb_sems_def bb_ids_def intro: semaphore_inv_cong [of "bs_ker c"])
  then have "bb_sems ok val S s (bs_bb c) (bs_pc c)" using sems ids(1) unfolding bb_sems_def by blast
  moreover have "val s (bb_mutex (bs_bb c)) = val (bs_ker c) (bb_mutex (bs_bb c))"
    by (rule ids(2)) (simp add: bb_ids_def)
  ultimately show ?thesis using assms(1) unfolding bb_inv_def by simp
qed

lemma bb_inv_step: "bb_run dn up other c c' \<Longrightarrow> bb_inv ok val S n c \<Longrightarrow> bb_inv ok val S n c'"
proof (induction rule: bb_run.induct)
  case (call_put i c x)
  show ?case by (rule bb_inv_call [OF call_put(3,1,2), of "Put_empty D_s2"]) simp_all
next
  case (call_pop i c)
  show ?case by (rule bb_inv_call [OF call_pop(3,1,2), of "Pop_full D_s2"]) simp_all
next
  case (run i c p p' b s x)
  show ?case by (rule bb_inv_run [OF run(4,1,2,3)])
next
  case (other c s)
  show ?case by (rule bb_inv_other [OF other(2,1)])
qed

lemma bb_reachable: "(bb_run dn up other)\<^sup>*\<^sup>* c c' \<Longrightarrow> bb_inv ok val S n c \<Longrightarrow> bb_inv ok val S n c'"
  by (induction rule: rtranclp_induct) (auto intro: bb_inv_step)

end

text \<open>What the invariant says of the elements, and of the slots a thread is about to access.\<close>

lemma bb_inv_fifo:
  assumes "bb_inv ok val S n c"
  shows "take (length (bs_gets c)) (bs_puts c) = bs_gets c"
    and "length (bs_gets c) \<le> length (bs_puts c)" and "length (bs_puts c) \<le> length (bs_gets c) + n"
proof -
  show "take (length (bs_gets c)) (bs_puts c) = bs_gets c" using assms unfolding bb_inv_def bb_ring_def by blast
  have "0 \<le> s_value (bb_empty (bs_bb c))" "0 \<le> s_value (bb_full (bs_bb c))"
    and "bb_count (bs_bb c) (bs_pc c) = int n"
    "bb_items (bs_bb c) (bs_pc c) = int (length (bs_puts c)) - int (length (bs_gets c))"
    using assms by (auto simp: bb_inv_def bb_sems_def semaphore_inv_def)
  then show "length (bs_gets c) \<le> length (bs_puts c)" "length (bs_puts c) \<le> length (bs_gets c) + n"
    using bb_sum_nonneg [of "bs_pc c"] bb_sum_le [of "bs_pc c"] by (simp_all add: bb_count_def bb_items_def)
qed

lemma bb_inv_slots:
  assumes "bb_inv ok val S n c" and "i < NPROC"
  shows "bs_pc c i = Some Put_store \<Longrightarrow> bb_end (bs_bb c) < n"
    and "bs_pc c i = Some Pop_load \<Longrightarrow> bb_start (bs_bb c) < n \<and> length (bs_gets c) < length (bs_puts c) \<and>
      bb_elements (bs_bb c) ! bb_start (bs_bb c) = bs_puts c ! length (bs_gets c)"
    and "length (bb_elements (bs_bb c)) = n"
proof -
  obtain m where m: "section_at (val (bs_ker c) (bb_mutex (bs_bb c))) (bs_pc c) m"
    "bb_ring n (bs_bb c) (bs_puts c) (bs_gets c) m"
    using assms(1) unfolding bb_inv_def by blast
  then show "length (bb_elements (bs_bb c)) = n" unfolding bb_ring_def by blast
  have at: "m = bs_pc c i" if "guarded (bs_pc c i)" using section_move [OF m(1) that assms(2) that] by blast
  show "bb_end (bs_bb c) < n" if "bs_pc c i = Some Put_store"
    using m(2) at bb_room(1) [OF assms] that bb_ring_stores(1) [of n "bs_bb c"] by auto
  show "bb_start (bs_bb c) < n \<and> length (bs_gets c) < length (bs_puts c) \<and>
      bb_elements (bs_bb c) ! bb_start (bs_bb c) = bs_puts c ! length (bs_gets c)"
    if "bs_pc c i = Some Pop_load"
    using m(2) at bb_room(2) [OF assms] that bb_ring_loads(1,2) [of n "bs_bb c"] by auto
qed

section \<open>A created buffer\<close>

fun created_all :: "(int \<times> nat) list \<Rightarrow> 'm ptable_state_scheme \<Rightarrow> 'm ptable_state_scheme \<Rightarrow> bool" where
  "created_all [] s t \<longleftrightarrow> t = s"
| "created_all ((v, k) # ks) s t \<longleftrightarrow> (\<exists>u. created_sem v k s u \<and> created_all ks u t)"

lemma created_all_frame:
  "created_all ks s t \<Longrightarrow> procs t = procs s \<and> c_proc (cpu t) = c_proc (cpu s) \<and> c_ncli (cpu t) = c_ncli (cpu s)"
  "created_all ks s t \<Longrightarrow> unlocked l s \<Longrightarrow> unlocked l t"
  "created_all ks s t \<Longrightarrow> sem_created (binary_semaphores s k) \<Longrightarrow> binary_semaphores t k = binary_semaphores s k"
  by (induction ks s t rule: created_all.induct) (auto simp: created_sem_def)

lemma created_all_new:
  assumes "created_all ks s t"
  shows "distinct (map snd ks) \<and> (\<forall>x\<in>set ks. snd x < NSEM \<and> \<not> sem_created (binary_semaphores s (snd x)) \<and>
     sem_created (binary_semaphores t (snd x)) \<and> sem_value (binary_semaphores t (snd x)) = fst x \<and>
     unlocked (Sem_lock (snd x)) t)"
  using assms
proof (induction ks s t rule: created_all.induct)
  case (2 v k ks s t)
  then obtain u where u: "created_sem v k s u" "created_all ks u t" by auto
  note IH = "2.IH" [OF u(2)]
  have "k < NSEM" "\<not> sem_created (binary_semaphores s k)" "sem_created (binary_semaphores u k)"
    "sem_value (binary_semaphores u k) = v" "unlocked (Sem_lock k) u"
    using u(1) by (simp_all add: created_sem_def)
  moreover from this have "binary_semaphores t k = binary_semaphores u k" "unlocked (Sem_lock k) t"
    using created_all_frame(2,3) [OF u(2)] by blast+
  moreover have "sem_created (binary_semaphores s m) \<Longrightarrow> sem_created (binary_semaphores u m)" for m
    using u(1) by (simp add: created_sem_def)
  ultimately show ?case using IH by auto
qed simp

lemma created_all_ok:
  assumes "created_all ks s t" and "unlocked Ptable_lock s" and "cpu_ok s"
    and "c_ncli (cpu s) = 0" and "c_proc (cpu s) = Some i"
  shows "end_call t = Ret None (preempted i t)"
    and "\<forall>x\<in>set ks. sem_ok (snd x) (preempted i t) \<and> sem_val (preempted i t) (int (snd x)) = fst x"
proof -
  have "cpu_ok t" using assms(1,3) by (induction ks s t rule: created_all.induct) (auto simp: created_sem_def)
  then have "end_call t = Ret None (preempted i t)" "idle (preempted i t)"
    using assms created_all_frame [OF assms(1)] by (intro end_call_eq; simp)+
  then show "end_call t = Ret None (preempted i t)"
    "\<forall>x\<in>set ks. sem_ok (snd x) (preempted i t) \<and> sem_val (preempted i t) (int (snd x)) = fst x"
    using created_all_new [OF assms(1)] by (auto simp: sem_ok_def sem_val_def)
qed

lemma BB_create_returns:
  assumes "unlocked Semtable_lock s" and "cpu_ok s"
  shows "returns (BB_create n name s) (\<lambda>r t. \<forall>b. r = Some b \<longrightarrow>
    (\<exists>k0 k1 k2 k3 k4.
       created_all [(1, k0), (1, k1), (if int n < 1 then int n else 1, k2), (1, k3), (0, k4)] s t \<and>
       b = \<lparr>BUFFER_SIZE = n, bb_mutex = int k0,
            bb_empty = \<lparr>s_value = int n, s_s1 = int k1, s_s2 = int k2, s_name = name\<rparr>,
            bb_full = \<lparr>s_value = 0, s_s1 = int k3, s_s2 = int k4, s_name = name\<rparr>,
            bb_start = 0, bb_end = 0, bb_name = name, bb_elements = replicate n 0\<rparr>))"
proof -
  obtain r u where r: "binary_semaphore_create 1 s = Ret r u"
    "r = - 1 \<or> (\<exists>k. r = int k \<and> created_sem 1 k s u)"
    using binary_semaphore_create_returns [OF assms, of 1] unfolding returns_iff by blast
  show ?thesis
  proof (cases "r = - 1")
    case True
    then show ?thesis using r(1) by (simp add: BB_create_def)
  next
    case False
    then obtain k0 where k0: "r = int k0" "created_sem 1 k0 s u" using r(2) by blast
    then have "unlocked Semtable_lock u" "cpu_ok u" using assms by (auto simp: created_sem_def)
    then obtain e t where t: "semaphore_create (int n) name u = Ret e t"
      "\<And>m. e = Some m \<Longrightarrow> \<exists>k1 k2 w. m = \<lparr>s_value = int n, s_s1 = int k1, s_s2 = int k2, s_name = name\<rparr> \<and>
         created_sem 1 k1 u w \<and> created_sem (if int n < 1 then int n else 1) k2 w t"
      using semaphore_create_returns [of u "int n" name] unfolding returns_iff by blast
    show ?thesis
    proof (cases e)
      case None
      then show ?thesis using r(1) k0(1) t(1) by (simp add: BB_create_def)
    next
      case (Some em)
      then obtain k1 k2 w where e: "em = \<lparr>s_value = int n, s_s1 = int k1, s_s2 = int k2, s_name = name\<rparr>"
        "created_sem 1 k1 u w" "created_sem (if int n < 1 then int n else 1) k2 w t" using t(2) by blast
      then have "unlocked Semtable_lock t" "cpu_ok t"
        using \<open>unlocked Semtable_lock u\<close> by (auto simp: created_sem_def)
      then have "returns (semaphore_create 0 name t) (\<lambda>r t'. \<forall>m. r = Some m \<longrightarrow>
        (\<exists>k3 k4 w'. m = \<lparr>s_value = 0, s_s1 = int k3, s_s2 = int k4, s_name = name\<rparr> \<and>
         created_sem 1 k3 t w' \<and> created_sem 0 k4 w' t'))"
        using semaphore_create_returns [of t 0 name] by simp
      then obtain f t' where "semaphore_create 0 name t = Ret f t'"
        "\<And>m. f = Some m \<Longrightarrow> \<exists>k3 k4 w'. m = \<lparr>s_value = 0, s_s1 = int k3, s_s2 = int k4, s_name = name\<rparr> \<and>
         created_sem 1 k3 t w' \<and> created_sem 0 k4 w' t'" unfolding returns_iff by blast
      then show ?thesis using r(1) k0 t(1) Some e
        by (cases f) (fastforce simp: BB_create_def)+
    qed
  qed
qed

lemma bb_inv_fresh:
  assumes "ok s" and "set (bb_ids b) \<subseteq> S" and "distinct (bb_ids b)" and "0 < n"
    and "val s (bb_mutex b) = 1" and "val s (s_s1 (bb_empty b)) = 1" and "val s (s_s2 (bb_empty b)) = 1"
    and "val s (s_s1 (bb_full b)) = 1" and "val s (s_s2 (bb_full b)) = 0"
    and "s_value (bb_empty b) = int n" and "s_value (bb_full b) = 0" and "BUFFER_SIZE b = n"
    and "bb_start b = 0" and "bb_end b = 0" and "length (bb_elements b) = n"
  shows "bb_inv ok val S n \<lparr>bs_bb = b, bs_ker = s, bs_pc = (\<lambda>_. None), bs_var = v, bs_puts = [], bs_gets = []\<rparr>"
proof -
  have "semaphore_inv (val s) (bb_empty b) (\<lambda>_. None)" "semaphore_inv (val s) (bb_full b) (\<lambda>_. None)"
    using assms by (auto intro!: semaphore_inv_fresh simp: bb_ids_def)
  moreover have "on_empty \<circ> (\<lambda>_::nat. None) = (\<lambda>_. None)" "on_full \<circ> (\<lambda>_::nat. None) = (\<lambda>_. None)" by auto
  moreover have "section_at 1 (\<lambda>_. None) None" by (simp add: section_at_def)
  ultimately show ?thesis
    using assms by (auto simp: bb_inv_def bb_sems_def bb_count_def bb_items_def bb_sum_def bb_ring_def)
qed


text \<open>A kernel whose first \<open>k\<close> semaphores are in use creates the next one.\<close>

definition first_free :: "nat \<Rightarrow> 'm ptable_state_scheme \<Rightarrow> bool" where
  "first_free k s \<longleftrightarrow> unlocked Semtable_lock s \<and> cpu_ok s \<and> (\<forall>j. sem_created (binary_semaphores s j) \<longleftrightarrow> j < k)"

lemma create_next:
  assumes "first_free k s" and "k < NSEM"
  shows "\<exists>t. binary_semaphore_create v s = Ret (int k) t \<and> created_sem v k s t \<and> first_free (Suc k) t"
proof -
  obtain t where "binary_semaphore_create v s = Ret (int k) t" "created_sem v k s t"
    using binary_semaphore_create_free [of s k v] assms by (auto simp: first_free_def)
  moreover from this have "first_free (Suc k) t" using assms by (auto simp: first_free_def created_sem_def)
  ultimately show ?thesis by blast
qed


end
