(* ===== verification/Ide.thy ===== *)
theory Ide
  imports Proc
begin

text \<open>
  The disk driver (\<open>ide.c\<close>), the in-memory disk that can replace it (\<open>memide.c\<close>) and \<open>struct buf\<close>
  (\<open>buf.h\<close>). A pointer to a buffer is its index in the buffer cache. The controller is a device that
  decodes the bytes written to its ports, performs one command at a time and then interrupts.
\<close>

section \<open>State\<close>

text \<open>The flags \<open>B_BUSY\<close>, \<open>B_VALID\<close> and \<open>B_DIRTY\<close> are three booleans.\<close>

record buf =
  b_busy :: bool
  b_valid :: bool
  b_dirty :: bool
  b_dev :: uint
  b_sector :: uint
  b_prev :: nat
  b_next :: nat
  b_qnext :: "nat option"
  b_data :: "byte list"

text \<open>
  The controller: the contents of the two drives by drive and sector, the command in progress (with
  the data of a write), whether the status register shows an error, whether the second drive answers,
  and the sectors written so far, in order.
\<close>

record ide_hw =
  h_disk :: "bool \<Rightarrow> nat \<Rightarrow> byte list"
  h_cmd :: "(bool \<times> nat \<times> byte list option) option"
  h_err :: bool
  h_present1 :: bool
  h_writes :: "(bool \<times> nat \<times> byte list) list"

record ide_state = ptable_state +
  bufs :: "nat \<Rightarrow> buf"
  idequeue :: "nat option"
  havedisk1 :: bool
  hw :: ide_hw

abbreviation NBUF :: nat where "NBUF \<equiv> 10"

definition upd_buf :: "nat \<Rightarrow> (buf \<Rightarrow> buf) \<Rightarrow> 'm ide_state_scheme \<Rightarrow> 'm ide_state_scheme" where
  "upd_buf b f s = s\<lparr>bufs := (bufs s)(b := f (bufs s b))\<rparr>"

section \<open>The controller\<close>

text \<open>The bytes sent to ports \<open>0x1f3\<close> to \<open>0x1f6\<close>, and how the controller reads them.\<close>

definition ide_ports :: "buf \<Rightarrow> byte \<times> byte \<times> byte \<times> byte" where
  "ide_ports b =
     (ucast (b_sector b AND 0xFF), ucast (drop_bit 8 (b_sector b) AND 0xFF),
      ucast (drop_bit 16 (b_sector b) AND 0xFF),
      0xE0 OR push_bit 4 (ucast (b_dev b AND 1)) OR ucast (drop_bit 24 (b_sector b) AND 0x0F))"

fun hw_lba :: "byte \<times> byte \<times> byte \<times> byte \<Rightarrow> nat" where
  "hw_lba (p3, p4, p5, p6) = unat p3 + 2 ^ 8 * unat p4 + 2 ^ 16 * unat p5 + 2 ^ 24 * unat (p6 AND 0x0F)"

fun hw_drive :: "byte \<times> byte \<times> byte \<times> byte \<Rightarrow> bool" where
  "hw_drive (p3, p4, p5, p6) = bit p6 4"

definition hw_complete :: "ide_hw \<Rightarrow> ide_hw" where
  "hw_complete h =
     (case h_cmd h of
        Some (d, n, Some data) \<Rightarrow>
          h\<lparr>h_disk := (h_disk h)(d := (h_disk h d)(n := data)), h_writes := h_writes h @ [(d, n, data)]\<rparr>
      | _ \<Rightarrow> h)"

definition hw_data :: "ide_hw \<Rightarrow> byte list" where
  "hw_data h = (case h_cmd h of Some (d, n, None) \<Rightarrow> h_disk h d n | _ \<Rightarrow> replicate 512 0)"

section \<open>The driver\<close>

definition idewait :: "bool \<Rightarrow> 'm ide_state_scheme \<Rightarrow> int" where
  "idewait checkerr s = (if checkerr \<and> h_err (hw s) then - 1 else 0)"

definition ideinit :: "'m ide_state_scheme \<Rightarrow> 'm ide_state_scheme" where
  "ideinit s =
     (let s = initlock Ide_lock ''ide'' s
      in if h_present1 (hw s) then s\<lparr>havedisk1 := True\<rparr> else s)"

definition idestart :: "nat option \<Rightarrow> 'm ide_state_scheme \<Rightarrow> (unit, 'm ide_state_scheme) kres" where
  "idestart b s =
     (case b of
        None \<Rightarrow> Panic ''idestart''
      | Some b \<Rightarrow>
          let ports = ide_ports (bufs s b);
              data = (if b_dirty (bufs s b) then Some (b_data (bufs s b)) else None)
          in Ret () (s\<lparr>hw := (hw s)\<lparr>h_cmd := Some (hw_drive ports, hw_lba ports, data)\<rparr>\<rparr>))"

definition ideintr :: "'m ide_state_scheme \<Rightarrow> (unit, 'm ide_state_scheme) kres" where
  "ideintr s =
     bind (acquire Ide_lock s) (\<lambda>_ s.
     case idequeue s of
       None \<Rightarrow> release Ide_lock s
     | Some b \<Rightarrow>
         let s = s\<lparr>idequeue := b_qnext (bufs s b)\<rparr>;
             s = (if \<not> b_dirty (bufs s b) \<and> idewait True s \<ge> 0
                  then upd_buf b (\<lambda>p. p\<lparr>b_data := hw_data (hw s)\<rparr>) s else s);
             s = upd_buf b (\<lambda>p. p\<lparr>b_valid := True, b_dirty := False\<rparr>) s
         in bind (wakeup (Some (Buf_chan b)) s) (\<lambda>_ s.
            bind (if idequeue s \<noteq> None then idestart (idequeue s) s else Ret () s) (\<lambda>_ s.
            release Ide_lock s)))"

text \<open>
  The walk \<open>for(pp=&idequeue; *pp; pp=&(*pp)->qnext)\<close> from a buffer to the last one of the queue. The
  fuel covers a queue of all buffers; a cyclic queue would make the walk spin.
\<close>

fun queue_last :: "nat \<Rightarrow> nat \<Rightarrow> 'm ide_state_scheme \<Rightarrow> (nat, 'm ide_state_scheme) kres" where
  "queue_last fuel b s =
     (case b_qnext (bufs s b) of
        None \<Rightarrow> Ret b s
      | Some c \<Rightarrow> (case fuel of 0 \<Rightarrow> Spins s | Suc fuel \<Rightarrow> queue_last fuel c s))"

declare queue_last.simps [simp del]

definition queue_append :: "nat \<Rightarrow> 'm ide_state_scheme \<Rightarrow> (unit, 'm ide_state_scheme) kres" where
  "queue_append b s =
     (let s = upd_buf b (\<lambda>p. p\<lparr>b_qnext := None\<rparr>) s
      in case idequeue s of
           None \<Rightarrow> Ret () (s\<lparr>idequeue := Some b\<rparr>)
         | Some h \<Rightarrow> bind (queue_last NBUF h s) (\<lambda>l s. Ret () (upd_buf l (\<lambda>p. p\<lparr>b_qnext := Some b\<rparr>) s)))"

text \<open>
  Waiting for the disk. The process sleeps and the CPU goes idle; the controller completes its command
  and interrupts, as often as it takes to make the process runnable; the scheduler runs it again and
  it tests the flags. Other processes do not run meanwhile. \<open>Asleep\<close> marks a process still asleep
  when the rounds, one more than there are buffers, are spent.
\<close>

fun disk_interrupts :: "nat \<Rightarrow> nat \<Rightarrow> 'm ide_state_scheme \<Rightarrow> (unit, 'm ide_state_scheme) kres" where
  "disk_interrupts n i s =
     (if p_state (procs s i) = RUNNABLE then Ret () s
      else case n of
             0 \<Rightarrow> Asleep s
           | Suc n \<Rightarrow> bind (ideintr (s\<lparr>hw := hw_complete (hw s)\<rparr>)) (\<lambda>_ s. disk_interrupts n i s))"

declare disk_interrupts.simps [simp del]

definition sleep_on_disk :: "nat \<Rightarrow> 'm ide_state_scheme \<Rightarrow> (unit, 'm ide_state_scheme) kres" where
  "sleep_on_disk b s =
     with_proc s (\<lambda>i.
     case (sleep (Buf_chan b) (Some Ide_lock) s :: (unit, 'm ide_state_scheme) kres) of
       Asleep s \<Rightarrow>
         bind (back_to_idle s) (\<lambda>_ s.
         bind (disk_interrupts (Suc NBUF) i s) (\<lambda>_ s.
         run_resume i (sleep_resume Ide_lock) s))
     | m \<Rightarrow> m)"

fun disk_wait :: "nat \<Rightarrow> nat \<Rightarrow> 'm ide_state_scheme \<Rightarrow> (unit, 'm ide_state_scheme) kres" where
  "disk_wait n b s =
     (if b_valid (bufs s b) \<and> \<not> b_dirty (bufs s b) then Ret () s
      else case n of
             0 \<Rightarrow> Asleep s
           | Suc n \<Rightarrow> bind (sleep_on_disk b s) (\<lambda>_ s. disk_wait n b s))"

declare disk_wait.simps [simp del]

definition iderw :: "nat \<Rightarrow> 'm ide_state_scheme \<Rightarrow> (unit, 'm ide_state_scheme) kres" where
  "iderw b s =
     (if \<not> b_busy (bufs s b) then Panic ''iderw: buf not busy''
      else if b_valid (bufs s b) \<and> \<not> b_dirty (bufs s b) then Panic ''iderw: nothing to do''
      else if b_dev (bufs s b) \<noteq> 0 \<and> \<not> havedisk1 s then Panic ''iderw: ide disk 1 not present''
      else bind (acquire Ide_lock s) (\<lambda>_ s.
           bind (queue_append b s) (\<lambda>_ s.
           bind (if idequeue s = Some b then idestart (Some b) s else Ret () s) (\<lambda>_ s.
           bind (disk_wait (Suc NBUF) b s) (\<lambda>_ s.
           release Ide_lock s)))))"

section \<open>One request at a time\<close>

text \<open>
  The context of a system call: process \<open>i\<close> runs with interrupts on and no lock is held. \<open>quiet\<close>: no
  process waits for a buffer.
\<close>

definition user_ctx :: "nat \<Rightarrow> 'm ptable_state_scheme \<Rightarrow> bool" where
  "user_ctx i s \<longleftrightarrow> i < NPROC \<and> c_proc (cpu s) = Some i \<and> c_ncli (cpu s) = 0 \<and> c_if (cpu s) \<and> c_intena (cpu s) \<and>
     p_state (procs s i) = RUNNING \<and> p_chan (procs s i) = None \<and> p_pgdir (procs s i) \<noteq> 0 \<and>
     c_cr3 (cpu s) = v2p (p_pgdir (procs s i)) \<and> c_esp0 (cpu s) = p_kstack (procs s i) + KSTACKSIZE \<and>
     (\<forall>l. \<not> lk_locked (locks s l) \<and> lk_cpu (locks s l) = None)"

definition quiet :: "'m ptable_state_scheme \<Rightarrow> bool" where
  "quiet s \<longleftrightarrow> (\<forall>j<NPROC. \<forall>b. p_state (procs s j) = SLEEPING \<longrightarrow> p_chan (procs s j) \<noteq> Some (Buf_chan b))"

text \<open>What the controller does with a command, and the buffer when the request has been served.\<close>

definition request :: "buf \<Rightarrow> bool \<times> nat \<times> byte list option" where
  "request p = (hw_drive (ide_ports p), hw_lba (ide_ports p), if b_dirty p then Some (b_data p) else None)"

definition served_hw :: "buf \<Rightarrow> ide_hw \<Rightarrow> ide_hw" where
  "served_hw p h = hw_complete (h\<lparr>h_cmd := Some (request p)\<rparr>)"

definition served :: "ide_hw \<Rightarrow> buf \<Rightarrow> buf" where
  "served h p = p\<lparr>b_qnext := None,
     b_data := (if b_dirty p then b_data p else h_disk h (hw_drive (ide_ports p)) (hw_lba (ide_ports p))),
     b_valid := True, b_dirty := False\<rparr>"

lemma served_hw_simps [simp]:
  "h_err (served_hw p h) = h_err h" "h_present1 (served_hw p h) = h_present1 h"
  "h_disk (served_hw p h) = (let d = hw_drive (ide_ports p); n = hw_lba (ide_ports p)
     in if b_dirty p then (h_disk h)(d := (h_disk h d)(n := b_data p)) else h_disk h)"
  "h_writes (served_hw p h) = h_writes h @
     (if b_dirty p then [(hw_drive (ide_ports p), hw_lba (ide_ports p), b_data p)] else [])"
  by (simp_all add: served_hw_def hw_complete_def request_def Let_def)

lemma served_simps [simp]:
  "b_valid (served h p)" "\<not> b_dirty (served h p)" "b_busy (served h p) = b_busy p" "b_dev (served h p) = b_dev p"
  "b_sector (served h p) = b_sector p" "b_prev (served h p) = b_prev p" "b_next (served h p) = b_next p"
  "b_data (served h p) = (if b_dirty p then b_data p else h_disk h (hw_drive (ide_ports p)) (hw_lba (ide_ports p)))"
  by (simp_all add: served_def)

lemma wakeup_none:
  assumes "quiet s" and "i < NPROC"
  shows "(\<lambda>j. if j < NPROC then woken (Some (Buf_chan b)) (((procs s)(i := p)) j) else ((procs s)(i := p)) j)
     = (procs s)(i := woken (Some (Buf_chan b)) p)"
  using assms by (auto simp: quiet_def woken_def fun_eq_iff)

lemma woken_sleeper: "woken c (p\<lparr>p_chan := c, p_state := SLEEPING\<rparr>) = p\<lparr>p_chan := c, p_state := RUNNABLE\<rparr>"
  by (simp add: woken_def)

lemma cpu_frame [simp]:
  "c_cr3 (cpu (take_lock l s)) = c_cr3 (cpu s)" "c_cr3 (cpu (drop_lock l s)) = c_cr3 (cpu s)"
  "c_cr3 (cpu (dispatched i s)) = v2p (p_pgdir (procs s i))"
  "c_esp0 (cpu (take_lock l s)) = c_esp0 (cpu s)" "c_esp0 (cpu (drop_lock l s)) = c_esp0 (cpu s)"
  "c_esp0 (cpu (dispatched i s)) = p_kstack (procs s i) + KSTACKSIZE"
  "cpu.more (cpu (take_lock l s)) = cpu.more (cpu s)" "cpu.more (cpu (drop_lock l s)) = cpu.more (cpu s)"
  by (simp_all add: take_lock_def drop_lock_def pushcli_def dispatched_def Let_def)

lemma lock_fields [simp]:
  "lk_locked (locks (dispatched i s) k) \<longleftrightarrow> k = Ptable_lock \<or> lk_locked (locks s k)"
  "lk_cpu (locks (dispatched i s) k) = (if k = Ptable_lock then Some (c_id (cpu s)) else lk_cpu (locks s k))"
  "lk_locked (locks (idled s) k) \<longleftrightarrow> k \<noteq> Ptable_lock \<and> lk_locked (locks s k)"
  "lk_cpu (locks (idled s) k) = (if k = Ptable_lock then None else lk_cpu (locks s k))"
  "lk_name (locks (dispatched i s) k) = lk_name (locks s k)" "lk_name (locks (idled s) k) = lk_name (locks s k)"
  "lk_name (locks (take_lock l s) k) = lk_name (locks s k)" "lk_name (locks (drop_lock l s) k) = lk_name (locks s k)"
  by (auto simp: dispatched_def idled_def take_lock_def drop_lock_def pushcli_def Let_def)

lemma lock_frame_ide [simp]:
  "bufs (take_lock l s) = bufs s" "bufs (drop_lock l s) = bufs s" "bufs (wakeup1 c s) = bufs s"
  "bufs (upd_proc i f s) = bufs s" "bufs (idled s) = bufs s" "bufs (dispatched i s) = bufs s"
  "idequeue (take_lock l s) = idequeue s" "idequeue (drop_lock l s) = idequeue s" "idequeue (wakeup1 c s) = idequeue s"
  "idequeue (upd_proc i f s) = idequeue s" "idequeue (idled s) = idequeue s" "idequeue (dispatched i s) = idequeue s"
  "hw (take_lock l s) = hw s" "hw (drop_lock l s) = hw s" "hw (wakeup1 c s) = hw s"
  "hw (upd_proc i f s) = hw s" "hw (idled s) = hw s" "hw (dispatched i s) = hw s"
  "havedisk1 (take_lock l s) = havedisk1 s"
  by (simp_all add: take_lock_def drop_lock_def pushcli_def wakeup1_eq upd_proc_def idled_def scheduler_back_def
      switchkvm_def dispatched_def Let_def)

lemma upd_buf_simps [simp]:
  "bufs (upd_buf b f s) = (bufs s)(b := f (bufs s b))" "cpu (upd_buf b f s) = cpu s" "locks (upd_buf b f s) = locks s"
  "procs (upd_buf b f s) = procs s" "idequeue (upd_buf b f s) = idequeue s" "hw (upd_buf b f s) = hw s"
  "unlocked l (upd_buf b f s) = unlocked l s" "holding l (upd_buf b f s) = holding l s"
  "cpu_ok (upd_buf b f s) = cpu_ok s" "havedisk1 (upd_buf b f s) = havedisk1 s"
  by (simp_all add: upd_buf_def unlocked_def holding_def cpu_ok_def)

lemma ide_upd_simps [simp]:
  "unlocked l (s\<lparr>idequeue := q\<rparr>) = unlocked l s" "holding l (s\<lparr>idequeue := q\<rparr>) = holding l s"
  "cpu_ok (s\<lparr>idequeue := q\<rparr>) = cpu_ok s" "unlocked l (s\<lparr>hw := h\<rparr>) = unlocked l s"
  "holding l (s\<lparr>hw := h\<rparr>) = holding l s" "cpu_ok (s\<lparr>hw := h\<rparr>) = cpu_ok s"
  by (simp_all add: unlocked_def holding_def cpu_ok_def)

text \<open>The process goes to sleep with the disk busy on its buffer.\<close>

lemma sleep_disk:
  assumes "c_proc (cpu s) = Some i" and "unlocked Ptable_lock s" and "holding Ide_lock s" and "c_ncli (cpu s) = 1"
    and "\<not> c_if (cpu s)"
  shows "(sleep (Buf_chan b) (Some Ide_lock) s :: (unit, 'm ide_state_scheme) kres) =
    Asleep (upd_proc i (\<lambda>p. p\<lparr>p_chan := Some (Buf_chan b), p_state := SLEEPING\<rparr>)
      (drop_lock Ide_lock (take_lock Ptable_lock s)))"
proof -
  have "holding Ide_lock (take_lock Ptable_lock s)" "cpu_ok (take_lock Ptable_lock s)"
    using assms by (simp_all add: holding_def cpu_ok_def)
  then show ?thesis
    using assms by (simp add: sleep_def acquire_free release_held sched_def with_proc_def holding_def)
qed

lemma ideintr_one:
  assumes "unlocked Ide_lock s" and "unlocked Ptable_lock s" and "c_ncli (cpu s) = 0" and "idequeue s = Some b"
    and "b_qnext (bufs s b) = None" and "\<not> h_err (hw s)"
  shows "ideintr s = Ret () (drop_lock Ide_lock (drop_lock Ptable_lock (wakeup1 (Some (Buf_chan b))
     (take_lock Ptable_lock (upd_buf b (\<lambda>p. p\<lparr>b_data := (if b_dirty p then b_data p else hw_data (hw s)),
        b_valid := True, b_dirty := False\<rparr>)
        ((take_lock Ide_lock s)\<lparr>idequeue := None\<rparr>))))))"
proof -
  let ?t = "upd_buf b (\<lambda>p. p\<lparr>b_data := (if b_dirty p then b_data p else hw_data (hw s)),
        b_valid := True, b_dirty := False\<rparr>) ((take_lock Ide_lock s)\<lparr>idequeue := None\<rparr>)"
  have "cpu_ok s" using assms(3) by (simp add: cpu_ok_def)
  then have "wakeup (Some (Buf_chan b)) ?t =
      Ret () (drop_lock Ptable_lock (wakeup1 (Some (Buf_chan b)) (take_lock Ptable_lock ?t)))"
    using assms by (simp add: wakeup_def acquire_free release_held)
  moreover have "\<not> b_dirty (bufs s b) \<Longrightarrow> upd_buf b (\<lambda>p. p\<lparr>b_valid := True, b_dirty := False\<rparr>)
      (upd_buf b (\<lambda>p. p\<lparr>b_data := hw_data (hw s)\<rparr>) ((take_lock Ide_lock s)\<lparr>idequeue := None\<rparr>)) = ?t"
    "b_dirty (bufs s b) \<Longrightarrow>
      upd_buf b (\<lambda>p. p\<lparr>b_valid := True, b_dirty := False\<rparr>) ((take_lock Ide_lock s)\<lparr>idequeue := None\<rparr>) = ?t"
    by (simp_all add: upd_buf_def)
  ultimately show ?thesis
    using assms \<open>cpu_ok s\<close>
    by (cases "b_dirty (bufs s b)") (simp_all add: ideintr_def acquire_free Let_def idewait_def release_held)
qed

text \<open>
  The wait for the disk, from the sleep to the return of \<open>sleep\<close>: the driver's lock is held before and
  after, and only the buffer, the queue and the controller have changed.
\<close>

definition ide_locked :: "nat \<Rightarrow> 'm ptable_state_scheme \<Rightarrow> bool" where
  "ide_locked i s \<longleftrightarrow> i < NPROC \<and> c_proc (cpu s) = Some i \<and> c_ncli (cpu s) = 1 \<and> \<not> c_if (cpu s) \<and> c_intena (cpu s) \<and>
     p_state (procs s i) = RUNNING \<and> p_chan (procs s i) = None \<and> p_pgdir (procs s i) \<noteq> 0 \<and>
     c_cr3 (cpu s) = v2p (p_pgdir (procs s i)) \<and> c_esp0 (cpu s) = p_kstack (procs s i) + KSTACKSIZE \<and>
     lk_locked (locks s Ide_lock) \<and> lk_cpu (locks s Ide_lock) = Some (c_id (cpu s)) \<and>
     (\<forall>l. l \<noteq> Ide_lock \<longrightarrow> \<not> lk_locked (locks s l) \<and> lk_cpu (locks s l) = None)"

lemma sleep_on_disk_eq:
  assumes "ide_locked i s" and "quiet s" and "idequeue s = Some b" and "b_qnext (bufs s b) = None" and "\<not> h_err (hw s)"
  shows "sleep_on_disk b s = Ret () (s\<lparr>idequeue := None, hw := hw_complete (hw s),
     bufs := (bufs s)(b := (bufs s b)\<lparr>b_data := (if b_dirty (bufs s b) then b_data (bufs s b) else hw_data (hw_complete (hw s))),
        b_valid := True, b_dirty := False\<rparr>)\<rparr>)"
proof -
  let ?s4 = "upd_proc i (\<lambda>p. p\<lparr>p_chan := Some (Buf_chan b), p_state := SLEEPING\<rparr>) (drop_lock Ide_lock (take_lock Ptable_lock s))"
  have ctx: "c_proc (cpu s) = Some i" "unlocked Ptable_lock s" "holding Ide_lock s" "c_ncli (cpu s) = 1" "\<not> c_if (cpu s)"
    using assms(1) by (auto simp: ide_locked_def unlocked_def holding_def)
  have idle: "back_to_idle ?s4 = Ret None (idled ?s4)" "idle (idled ?s4)"
    using ctx by (intro back_to_idle_eq; simp add: holding_def)+
  let ?s5 = "(idled ?s4)\<lparr>hw := hw_complete (hw s)\<rparr>"
  have intr: "ideintr ?s5 = Ret () (drop_lock Ide_lock (drop_lock Ptable_lock (wakeup1 (Some (Buf_chan b))
     (take_lock Ptable_lock (upd_buf b (\<lambda>p. p\<lparr>b_data := (if b_dirty p then b_data p else hw_data (hw ?s5)),
        b_valid := True, b_dirty := False\<rparr>) ((take_lock Ide_lock ?s5)\<lparr>idequeue := None\<rparr>))))))"
    using assms ctx by (intro ideintr_one) (auto simp: hw_complete_def split: option.splits)
  let ?s6 = "drop_lock Ide_lock (drop_lock Ptable_lock (wakeup1 (Some (Buf_chan b))
     (take_lock Ptable_lock (upd_buf b (\<lambda>p. p\<lparr>b_data := (if b_dirty p then b_data p else hw_data (hw ?s5)),
        b_valid := True, b_dirty := False\<rparr>) ((take_lock Ide_lock ?s5)\<lparr>idequeue := None\<rparr>)))))"
  have i: "i < NPROC" "p_pgdir (procs s i) \<noteq> 0" using assms(1) by (auto simp: ide_locked_def)
  have procs6: "procs ?s6 = (procs s)(i := (procs s i)\<lparr>p_chan := Some (Buf_chan b), p_state := RUNNABLE\<rparr>)"
    using wakeup_none [OF assms(2) i(1), of b] by (simp add: wakeup1_eq woken_sleeper cong: if_cong)
  have idle6: "idle ?s6" using ctx by (simp add: idle_def)
  have "disk_interrupts (Suc NBUF) i (idled ?s4) = Ret () ?s6"
    using intr procs6 by (simp add: disk_interrupts.simps)
  moreover have "run_resume i (sleep_resume Ide_lock) ?s6 = sleep_resume Ide_lock True (dispatched i ?s6)"
    using idle6 procs6 i by (intro run_resume_eq) auto
  moreover have "sleep_resume Ide_lock True (dispatched i ?s6) =
      Ret () (take_lock Ide_lock (drop_lock Ptable_lock (upd_proc i (\<lambda>p. p\<lparr>p_chan := None\<rparr>) (dispatched i ?s6))))"
    using ctx by (simp add: sleep_resume_def with_proc_def release_held acquire_free)
  ultimately have "sleep_on_disk b s =
      Ret () (take_lock Ide_lock (drop_lock Ptable_lock (upd_proc i (\<lambda>p. p\<lparr>p_chan := None\<rparr>) (dispatched i ?s6))))"
    using sleep_disk [OF ctx] idle ctx(1) by (simp add: sleep_on_disk_def with_proc_def)
  moreover have "take_lock Ide_lock (drop_lock Ptable_lock (upd_proc i (\<lambda>p. p\<lparr>p_chan := None\<rparr>) (dispatched i ?s6))) =
     s\<lparr>idequeue := None, hw := hw_complete (hw s),
       bufs := (bufs s)(b := (bufs s b)\<lparr>b_data := (if b_dirty (bufs s b) then b_data (bufs s b) else hw_data (hw_complete (hw s))),
        b_valid := True, b_dirty := False\<rparr>)\<rparr>" (is "?l = ?r")
  proof (rule ide_state.equality)
    have "(procs s i)\<lparr>p_state := RUNNING, p_chan := None\<rparr> = procs s i"
      using assms(1) by (intro proc.equality) (simp_all add: ide_locked_def)
    then show "procs ?l = procs ?r" using procs6 by simp
    show "cpu ?l = cpu ?r" using assms(1) procs6 by (intro cpu.equality) (simp_all add: ide_locked_def)
    show "locks ?l = locks ?r" using assms(1)
      by (intro ext spinlock.equality) (auto simp: ide_locked_def)
  qed (simp_all add: take_lock_def drop_lock_def pushcli_def wakeup1_eq upd_proc_def upd_buf_def idled_def
      scheduler_back_def switchkvm_def dispatched_def Let_def)
  ultimately show ?thesis by simp
qed

lemma lock_cycle:
  assumes "user_ctx i s"
  shows "ide_locked i (take_lock Ide_lock s)"
    and "drop_lock l ((take_lock l s)\<lparr>idequeue := q, hw := h, bufs := B\<rparr>) = s\<lparr>idequeue := q, hw := h, bufs := B\<rparr>"
proof -
  show "ide_locked i (take_lock Ide_lock s)" using assms by (simp add: user_ctx_def ide_locked_def)
  let ?l = "drop_lock l ((take_lock l s)\<lparr>idequeue := q, hw := h, bufs := B\<rparr>)"
  have "cpu ?l = cpu s" using assms by (intro cpu.equality) (simp_all add: user_ctx_def)
  moreover have "locks ?l = locks s" using assms by (intro ext spinlock.equality) (auto simp: user_ctx_def)
  ultimately show "?l = s\<lparr>idequeue := q, hw := h, bufs := B\<rparr>"
    by (intro ide_state.equality) (simp_all add: take_lock_def drop_lock_def pushcli_def Let_def)
qed

lemma disk_wait_done: "b_valid (bufs s b) \<Longrightarrow> \<not> b_dirty (bufs s b) \<Longrightarrow> disk_wait n b s = Ret () s"
  by (subst disk_wait.simps) simp

lemma disk_wait_step:
  "\<not> b_valid (bufs s b) \<or> b_dirty (bufs s b) \<Longrightarrow>
   disk_wait (Suc n) b s = bind (sleep_on_disk b s) (\<lambda>_ s. disk_wait n b s)"
  by (subst disk_wait.simps) auto

text \<open>A request when the disk is idle is served at once.\<close>

lemma iderw_eq:
  assumes "user_ctx i s" and "quiet s" and "idequeue s = None" and "\<not> h_err (hw s)"
    and "b_busy (bufs s b)" and "\<not> b_valid (bufs s b) \<or> b_dirty (bufs s b)" and "b_dev (bufs s b) = 0 \<or> havedisk1 s"
  shows "iderw b s = Ret () (s\<lparr>hw := served_hw (bufs s b) (hw s), bufs := (bufs s)(b := served (hw s) (bufs s b))\<rparr>)"
proof -
  let ?p = "(bufs s b)\<lparr>b_qnext := None\<rparr>"
  let ?h = "(hw s)\<lparr>h_cmd := Some (request (bufs s b))\<rparr>"
  let ?s3 = "(take_lock Ide_lock s)\<lparr>bufs := (bufs s)(b := ?p), idequeue := Some b, hw := ?h\<rparr>"
  have start: "bind (queue_append b (take_lock Ide_lock s)) (\<lambda>_ s. if idequeue s = Some b then idestart (Some b) s else Ret () s)
      = Ret () ?s3"
    using assms(3) by (simp add: queue_append_def upd_buf_def idestart_def request_def ide_ports_def Let_def)
  have "ide_locked i ?s3" "quiet ?s3"
    using lock_cycle(1) [OF assms(1)] assms(2) by (simp_all add: ide_locked_def quiet_def)
  then have "sleep_on_disk b ?s3 = Ret () ((take_lock Ide_lock s)\<lparr>idequeue := None, hw := hw_complete ?h,
      bufs := (bufs s)(b := ?p\<lparr>b_data := (if b_dirty ?p then b_data ?p else hw_data (hw_complete ?h)), b_valid := True, b_dirty := False\<rparr>)\<rparr>)"
    using assms(4) by (subst sleep_on_disk_eq) simp_all
  moreover have "?p\<lparr>b_data := (if b_dirty ?p then b_data ?p else hw_data (hw_complete ?h)), b_valid := True, b_dirty := False\<rparr>
      = served (hw s) (bufs s b)"
    by (simp add: served_def request_def hw_data_def hw_complete_def)
  ultimately have wait: "disk_wait (Suc NBUF) b ?s3 = Ret () ((take_lock Ide_lock s)\<lparr>idequeue := None,
      hw := served_hw (bufs s b) (hw s), bufs := (bufs s)(b := served (hw s) (bufs s b))\<rparr>)" (is "_ = Ret () ?t")
    using assms(6) by (subst disk_wait_step) (auto simp: disk_wait_done served_hw_def served_def)
  have "unlocked Ide_lock s" "cpu_ok s" using assms(1) by (simp_all add: user_ctx_def unlocked_def cpu_ok_def)
  moreover from this have "release Ide_lock ?t = Ret () (drop_lock Ide_lock ?t)"
    using assms(1) by (intro release_held) (simp_all add: user_ctx_def holding_def cpu_ok_def)
  moreover have "s\<lparr>idequeue := None\<rparr> = s" using assms(3) by simp
  ultimately show ?thesis
    using start wait assms(5,6,7) lock_cycle(2) [OF assms(1)]
    by (auto simp: iderw_def acquire_free bind_Ret_iff simp del: bind_assoc)
qed



section \<open>The in-memory disk\<close>

record memide_state =
  m_disksize :: nat
  m_memdisk :: "byte list"
  m_bufs :: "nat \<Rightarrow> buf"

definition mem_ideinit :: "byte list \<Rightarrow> memide_state \<Rightarrow> memide_state" where
  "mem_ideinit img s = s\<lparr>m_memdisk := img, m_disksize := length img div 512\<rparr>"

definition mem_ideintr :: "memide_state \<Rightarrow> memide_state" where
  "mem_ideintr s = s"

definition mem_iderw :: "nat \<Rightarrow> memide_state \<Rightarrow> (unit, memide_state) kres" where
  "mem_iderw b s =
     (let p = m_bufs s b
      in if \<not> b_busy p then Panic ''iderw: buf not busy''
         else if b_valid p \<and> \<not> b_dirty p then Panic ''iderw: nothing to do''
         else if b_dev p \<noteq> 1 then Panic ''iderw: request not for disk 1''
         else if unat (b_sector p) \<ge> m_disksize s then Panic ''iderw: sector out of range''
         else let at = unat (b_sector p) * 512
              in if b_dirty p
                 then Ret () (s\<lparr>m_memdisk := take at (m_memdisk s) @ b_data p @ drop (at + 512) (m_memdisk s),
                               m_bufs := (m_bufs s)(b := p\<lparr>b_dirty := False, b_valid := True\<rparr>)\<rparr>)
                 else Ret () (s\<lparr>m_bufs := (m_bufs s)(b := p\<lparr>b_data := take 512 (drop at (m_memdisk s)),
                                                     b_valid := True\<rparr>)\<rparr>))"

section \<open>What both disks promise\<close>

text \<open>How the controller reads the bytes \<open>idestart\<close> sends: the drive is the lowest bit of the device number.\<close>

lemma low_bits:
  fixes y :: uint
  shows "y AND 0xFF = take_bit 8 y" and "y AND 0x0F = take_bit 4 y"
  by (simp_all add: take_bit_eq_mask mask_eq_exp_minus_1)

lemma field_nat:
  fixes x :: uint
  shows "k < 8 + 1 \<Longrightarrow> unat (ucast (take_bit k (drop_bit n x)) :: byte) = unat x div 2 ^ n mod 2 ^ k"
proof -
  assume k: "k < 8 + 1"
  have "unat (ucast (take_bit k (drop_bit n x)) :: byte) = take_bit (min k 8) (unat (drop_bit n x))"
    by (simp add: unsigned_ucast_eq unsigned_take_bit_eq)
  also have "min k 8 = k" using k by simp
  also have "unat (drop_bit n x) = unat x div 2 ^ n"
  proof -
    have "unat (drop_bit n x) = drop_bit n (take_bit LENGTH(32) (unat x))" by (rule unsigned_drop_bit_eq)
    also have "take_bit LENGTH(32) (unat x) = unat x"
      using unsigned_less [of x, where ?'a = nat] by (simp add: take_bit_nat_eq_self)
    finally show ?thesis by (simp add: drop_bit_eq_div)
  qed
  finally show ?thesis by (simp add: take_bit_eq_mod)
qed

lemma port_sector:
  fixes x d :: uint
  shows "(0xE0 OR push_bit 4 (ucast (d AND 1)) OR ucast (take_bit 4 (drop_bit 24 x)) :: byte) AND 0x0F = ucast (take_bit 4 (drop_bit 24 x))" (is "?p AND _ = _")
proof -
  have "?p AND 0x0F = take_bit 4 ?p" by (simp add: take_bit_eq_mask mask_eq_exp_minus_1)
  also have "\<dots> = take_bit 4 0xE0 OR take_bit 4 (push_bit 4 (ucast (d AND 1))) OR take_bit 4 (ucast (take_bit 4 (drop_bit 24 x)))"
    by (simp only: take_bit_or)
  also have "take_bit 4 (push_bit 4 (ucast (d AND 1))) = (0 :: byte)" by (simp only: take_bit_push_bit) simp
  also have "take_bit 4 (0xE0 :: byte) = 0" by simp
  also have "take_bit 4 (ucast (take_bit 4 (drop_bit 24 x)) :: byte) = ucast (take_bit 4 (drop_bit 24 x))"
    by (rule bit_word_eqI) (auto simp: bit_simps)
  finally show ?thesis by simp
qed
lemma port_drive:
  fixes x d :: uint
  shows "bit ((0xE0 OR push_bit 4 (ucast (d AND 1)) OR ucast (take_bit 4 (drop_bit 24 x))) :: byte) 4 = bit d 0"
  by (simp add: bit_or_iff bit_push_bit_iff bit_ucast_iff bit_take_bit_iff bit_and_iff)
lemma nat_fields:
  fixes k :: nat
  assumes "k < 268435456"
  shows "k mod 256 + 256 * (k div 256 mod 256) + 65536 * (k div 65536 mod 256) + 16777216 * (k div 16777216 mod 16) = k"
proof -
  have "k div 256 = k div 256 mod 256 + 256 * (k div 65536)" "k div 65536 = k div 65536 mod 256 + 256 * (k div 16777216)"
    using mod_mult_div_eq [of "k div 256" 256] mod_mult_div_eq [of "k div 65536" 256]
    by (simp_all add: div_mult2_eq [symmetric])
  moreover have "k = k mod 256 + 256 * (k div 256)" by simp
  moreover have "k div 16777216 mod 16 = k div 16777216" using assms by simp
  ultimately show ?thesis by linarith
qed

lemma ide_ports_decoded:
  assumes "unat (b_sector p) < 2 ^ 28"
  shows "hw_lba (ide_ports p) = unat (b_sector p)" and "hw_drive (ide_ports p) = bit (b_dev p) 0"
proof -
  have "b_sector p AND 0xFF = take_bit 8 (drop_bit 0 (b_sector p))" by (simp add: low_bits)
  then show "hw_lba (ide_ports p) = unat (b_sector p)"
    using nat_fields [of "unat (b_sector p)"] assms
    by (simp only: ide_ports_def low_bits hw_lba.simps port_sector field_nat) simp
  show "hw_drive (ide_ports p) = bit (b_dev p) 0"
    by (simp only: ide_ports_def low_bits hw_drive.simps port_drive)
qed

text \<open>
  The contract of a disk: a request for a sector the disk has is served; a dirty buffer goes to its
  sector, any other buffer is filled from it, and nothing else changes.
\<close>

locale block_device =
  fixes ready :: "'s \<Rightarrow> bool" and rw :: "nat \<Rightarrow> 's \<Rightarrow> (unit, 's) kres" and cache :: "'s \<Rightarrow> nat \<Rightarrow> buf"
    and sectors :: "'s \<Rightarrow> nat" and block :: "'s \<Rightarrow> nat \<Rightarrow> byte list"
  assumes rw_law: "ready s \<Longrightarrow> b_busy (cache s b) \<Longrightarrow> \<not> b_valid (cache s b) \<or> b_dirty (cache s b) \<Longrightarrow>
      b_dev (cache s b) = 1 \<Longrightarrow> unat (b_sector (cache s b)) < sectors s \<Longrightarrow> length (b_data (cache s b)) = 512 \<Longrightarrow>
      \<exists>s'. rw b s = Ret () s' \<and> ready s' \<and> sectors s' = sectors s \<and> (\<forall>c. c \<noteq> b \<longrightarrow> cache s' c = cache s c) \<and>
        b_valid (cache s' b) \<and> \<not> b_dirty (cache s' b) \<and> b_busy (cache s' b) \<and> b_dev (cache s' b) = 1 \<and>
        b_sector (cache s' b) = b_sector (cache s b) \<and>
        (if b_dirty (cache s b)
         then b_data (cache s' b) = b_data (cache s b) \<and>
              block s' = (block s)(unat (b_sector (cache s b)) := b_data (cache s b))
         else b_data (cache s' b) = block s (unat (b_sector (cache s b))) \<and> block s' = block s)"
begin

text \<open>What one buffer writes, another buffer for the same sector reads.\<close>

lemma write_read:
  assumes "ready s" and "b_busy (cache s b)" and "b_dirty (cache s b)" and "b_dev (cache s b) = 1"
    and "unat (b_sector (cache s b)) < sectors s" and "length (b_data (cache s b)) = 512"
    and "c \<noteq> b" and "b_busy (cache s c)" and "\<not> b_valid (cache s c)" and "\<not> b_dirty (cache s c)"
    and "b_dev (cache s c) = 1" and "b_sector (cache s c) = b_sector (cache s b)" and "length (b_data (cache s c)) = 512"
  shows "\<exists>t u. rw b s = Ret () t \<and> rw c t = Ret () u \<and> b_data (cache u c) = b_data (cache s b) \<and>
    (\<forall>n. n \<noteq> unat (b_sector (cache s b)) \<longrightarrow> block u n = block s n)"
proof -
  obtain t where t: "rw b s = Ret () t" "ready t" "sectors t = sectors s" "cache t c = cache s c"
    "block t = (block s)(unat (b_sector (cache s b)) := b_data (cache s b))"
    using rw_law [OF assms(1,2) _ assms(4-6)] assms(3,7) by auto
  then obtain u where "rw c t = Ret () u" "b_data (cache u c) = block t (unat (b_sector (cache s b)))" "block u = block t"
    using rw_law [of t c] assms(5,8-13) by auto
  then show ?thesis using t by auto
qed

end

text \<open>The disk driver, for the second drive, while process \<open>i\<close> runs.\<close>

definition ide_ready :: "nat \<Rightarrow> 'm ide_state_scheme \<Rightarrow> bool" where
  "ide_ready i s \<longleftrightarrow> user_ctx i s \<and> quiet s \<and> idequeue s = None \<and> \<not> h_err (hw s) \<and> havedisk1 s"

definition ide_block :: "'m ide_state_scheme \<Rightarrow> nat \<Rightarrow> byte list" where
  "ide_block s = h_disk (hw s) True"

interpretation ide: block_device "ide_ready i" iderw bufs "\<lambda>_. 2 ^ 28" ide_block for i
proof
  fix s :: "'m ide_state_scheme" and b
  assume r: "ide_ready i s" and busy: "b_busy (bufs s b)" and rw: "\<not> b_valid (bufs s b) \<or> b_dirty (bufs s b)"
    and dev: "b_dev (bufs s b) = 1" and sec: "unat (b_sector (bufs s b)) < 2 ^ 28"
  let ?s = "s\<lparr>hw := served_hw (bufs s b) (hw s), bufs := (bufs s)(b := served (hw s) (bufs s b))\<rparr>"
  have "iderw b s = Ret () ?s" using r busy rw by (intro iderw_eq) (auto simp: ide_ready_def)
  moreover have "ide_ready i ?s"
    using r by (auto simp: ide_ready_def user_ctx_def quiet_def)
  moreover have "hw_drive (ide_ports (bufs s b))" using ide_ports_decoded(2) [OF sec] dev by simp
  ultimately show "\<exists>s'. iderw b s = Ret () s' \<and> ide_ready i s' \<and> (2::nat) ^ 28 = 2 ^ 28 \<and> (\<forall>c. c \<noteq> b \<longrightarrow> bufs s' c = bufs s c) \<and>
        b_valid (bufs s' b) \<and> \<not> b_dirty (bufs s' b) \<and> b_busy (bufs s' b) \<and> b_dev (bufs s' b) = 1 \<and>
        b_sector (bufs s' b) = b_sector (bufs s b) \<and>
        (if b_dirty (bufs s b)
         then b_data (bufs s' b) = b_data (bufs s b) \<and>
              ide_block s' = (ide_block s)(unat (b_sector (bufs s b)) := b_data (bufs s b))
         else b_data (bufs s' b) = ide_block s (unat (b_sector (bufs s b))) \<and> ide_block s' = ide_block s)"
    using busy dev ide_ports_decoded(1) [OF sec]
    by (intro exI [of _ ?s]) (auto simp: Let_def ide_block_def)
qed

text \<open>The in-memory disk.\<close>

definition mem_ready :: "memide_state \<Rightarrow> bool" where
  "mem_ready s \<longleftrightarrow> length (m_memdisk s) = m_disksize s * 512"

definition mem_block :: "memide_state \<Rightarrow> nat \<Rightarrow> byte list" where
  "mem_block s n = take 512 (drop (n * 512) (m_memdisk s))"

lemma overwrite_slice:
  assumes "length d = k" and "c + k \<le> length L"
  shows "take k (drop c (take c L @ d @ drop (c + k) L)) = d"
    and "a + k \<le> c \<Longrightarrow> take k (drop a (take c L @ d @ drop (c + k) L)) = take k (drop a L)"
    and "c + k \<le> a \<Longrightarrow> take k (drop a (take c L @ d @ drop (c + k) L)) = take k (drop a L)"
proof -
  have c: "length (take c L) = c" using assms(2) by simp
  show "take k (drop c (take c L @ d @ drop (c + k) L)) = d" using c assms(1) by simp
  show "take k (drop a (take c L @ d @ drop (c + k) L)) = take k (drop a L)" if "a + k \<le> c"
  proof -
    have "take k (drop a (take c L @ d @ drop (c + k) L)) = take k (drop a (take c L))"
      using c that by (simp add: take_append)
    also have "\<dots> = take k (drop a L)" using that by (simp add: drop_take min_def)
    finally show ?thesis .
  qed
  show "take k (drop a (take c L @ d @ drop (c + k) L)) = take k (drop a L)" if "c + k \<le> a"
  proof -
    have "drop a (take c L @ d @ drop (c + k) L) = drop (a - c - k) (drop (c + k) L)"
      using c that assms(1) by (simp add: drop_append)
    also have "\<dots> = drop a L" using that by simp
    finally show ?thesis by simp
  qed
qed

lemma mem_block_write:
  assumes "length d = 512" and "n * 512 + 512 \<le> length L"
  shows "take 512 (drop (m * 512) (take (n * 512) L @ d @ drop (n * 512 + 512) L)) =
    (if m = n then d else take 512 (drop (m * 512) L))"
  using overwrite_slice(1) [OF assms] overwrite_slice(2,3) [OF assms, of "m * 512"]
  by (cases m n rule: linorder_cases) auto

interpretation memide: block_device mem_ready mem_iderw m_bufs m_disksize mem_block
proof
  fix s :: memide_state and b
  let ?p = "m_bufs s b" and ?n = "unat (b_sector (m_bufs s b))"
  assume r: "mem_ready s" and "b_busy ?p" and "\<not> b_valid ?p \<or> b_dirty ?p" and "b_dev ?p = 1" and n: "?n < m_disksize s"
    and len: "length (b_data ?p) = 512"
  moreover have at: "?n * 512 + 512 \<le> length (m_memdisk s)" using r n by (simp add: mem_ready_def)
  moreover have "(\<lambda>m. take 512 (drop (m * 512) (take (?n * 512) (m_memdisk s) @ b_data ?p @ drop (?n * 512 + 512) (m_memdisk s)))) =
      (mem_block s)(?n := b_data ?p)"
    using mem_block_write [OF len at] by (auto simp: mem_block_def)
  ultimately show "\<exists>s'. mem_iderw b s = Ret () s' \<and> mem_ready s' \<and> m_disksize s' = m_disksize s \<and>
        (\<forall>c. c \<noteq> b \<longrightarrow> m_bufs s' c = m_bufs s c) \<and>
        b_valid (m_bufs s' b) \<and> \<not> b_dirty (m_bufs s' b) \<and> b_busy (m_bufs s' b) \<and> b_dev (m_bufs s' b) = 1 \<and>
        b_sector (m_bufs s' b) = b_sector ?p \<and>
        (if b_dirty ?p
         then b_data (m_bufs s' b) = b_data ?p \<and> mem_block s' = (mem_block s)(?n := b_data ?p)
         else b_data (m_bufs s' b) = mem_block s ?n \<and> mem_block s' = mem_block s)"
    by (cases "b_dirty ?p") (auto simp: mem_iderw_def Let_def mem_ready_def mem_block_def fun_eq_iff)
qed

section \<open>Properties\<close>


definition disk_buf :: "bool \<Rightarrow> uint \<Rightarrow> byte list \<Rightarrow> buf" where
  "disk_buf dirty sec d = \<lparr>b_busy = True, b_valid = dirty, b_dirty = dirty, b_dev = 1, b_sector = sec, b_prev = 0,
     b_next = 0, b_qnext = None, b_data = d\<rparr>"

text \<open>A kernel in which process 0 runs and the second drive is there.\<close>

definition disk_example :: "(nat \<Rightarrow> buf) \<Rightarrow> ide_state" where
  "disk_example B =
     \<lparr>cpu = \<lparr>c_id = 0, c_ncli = 0, c_intena = True, c_if = True, c_proc = Some 0, c_cr3 = v2p 0x803FE000,
             c_esp0 = 0x803FE000\<rparr>,
      locks = (\<lambda>_. free_lock), mem = (\<lambda>_. 0), k_use_lock = True, k_freelist = 0, k_end = 0x80110000,
      kpgdir = 0x803FF000, k_data = 0x80108000,
      procs = (\<lambda>_. blank_proc)(0 := (runnable_proc 1)\<lparr>p_state := RUNNING\<rparr>), nextpid = 2, initproc = Some 0,
      binary_semaphores = (\<lambda>_. \<lparr>sem_value = 0, sem_created = False, sem_waiting = 0\<rparr>),
      a_forkret = 0x80104000, a_trapret = 0x80105000, bufs = B, idequeue = None, havedisk1 = True,
      hw = \<lparr>h_disk = (\<lambda>_ _. replicate 512 0), h_cmd = None, h_err = False, h_present1 = True, h_writes = []\<rparr>\<rparr>"

lemma disk_example_ctx [simp]:
  "user_ctx 0 (disk_example B)" "quiet (disk_example B)" "idequeue (disk_example B) = None"
  "\<not> h_err (hw (disk_example B))" "havedisk1 (disk_example B)" "bufs (disk_example B) = B"
  by (auto simp: disk_example_def user_ctx_def quiet_def free_lock_def runnable_proc_def blank_proc_def)


text \<open>
  C28. The in-memory disk keeps the same contract as the disk driver: for a sector it has, a dirty buffer
  is written to exactly that sector, and another buffer for the sector then reads the same contents.
\<close>

theorem memide_write_read:
  fixes s :: memide_state
  assumes "length (m_memdisk s) = m_disksize s * 512"
    and "b_busy (m_bufs s b)" and "b_dirty (m_bufs s b)" and "b_dev (m_bufs s b) = 1"
    and "unat (b_sector (m_bufs s b)) < m_disksize s" and "length (b_data (m_bufs s b)) = 512"
    and "c \<noteq> b" and "b_busy (m_bufs s c)" and "\<not> b_valid (m_bufs s c)" and "\<not> b_dirty (m_bufs s c)"
    and "b_dev (m_bufs s c) = 1" and "b_sector (m_bufs s c) = b_sector (m_bufs s b)" and "length (b_data (m_bufs s c)) = 512"
  shows "\<exists>t u. mem_iderw b s = Ret () t \<and> mem_iderw c t = Ret () u \<and> b_data (m_bufs u c) = b_data (m_bufs s b) \<and>
    (\<forall>n. n \<noteq> unat (b_sector (m_bufs s b)) \<longrightarrow>
       take 512 (drop (n * 512) (m_memdisk u)) = take 512 (drop (n * 512) (m_memdisk s)))"
  using memide.write_read [OF _ assms(2-13)] assms(1) unfolding mem_ready_def mem_block_def by blast

lemma memide_write_read_witness:
  "\<exists>t u. mem_iderw 0 \<lparr>m_disksize = 8, m_memdisk = replicate 4096 0,
         m_bufs = (\<lambda>_. disk_buf False 7 (replicate 512 0))(0 := disk_buf True 7 (replicate 512 65))\<rparr> = Ret () t \<and>
     mem_iderw 1 t = Ret () u \<and> b_data (m_bufs u 1) = replicate 512 65"
  using memide_write_read [of "\<lparr>m_disksize = 8, m_memdisk = replicate 4096 0,
         m_bufs = (\<lambda>_. disk_buf False 7 (replicate 512 0))(0 := disk_buf True 7 (replicate 512 65))\<rparr>" 0 1]
  by (auto simp: disk_buf_def)

end
