(* ===== verification/Bio.thy ===== *)
theory Bio
  imports Ide
begin

text \<open>
  The buffer cache (\<open>bio.c\<close>). The buffers are linked through \<open>prev\<close> and \<open>next\<close> into a circular list
  whose head is the entry \<open>NBUF\<close> of the table; \<open>head.next\<close> is the most recently used buffer.
\<close>

section \<open>Operations\<close>

definition set_next :: "nat \<Rightarrow> nat \<Rightarrow> 'm ide_state_scheme \<Rightarrow> 'm ide_state_scheme" where
  "set_next b c s = upd_buf b (\<lambda>p. p\<lparr>b_next := c\<rparr>) s"

definition set_prev :: "nat \<Rightarrow> nat \<Rightarrow> 'm ide_state_scheme \<Rightarrow> 'm ide_state_scheme" where
  "set_prev b c s = upd_buf b (\<lambda>p. p\<lparr>b_prev := c\<rparr>) s"

text \<open>The four assignments that link a buffer in after the head.\<close>

definition link_first :: "nat \<Rightarrow> 'm ide_state_scheme \<Rightarrow> 'm ide_state_scheme" where
  "link_first b s =
     (let s = set_next b (b_next (bufs s NBUF)) s;
          s = set_prev b NBUF s;
          s = set_prev (b_next (bufs s NBUF)) b s
      in set_next NBUF b s)"

definition binit :: "'m ide_state_scheme \<Rightarrow> 'm ide_state_scheme" where
  "binit s =
     (let s = initlock Bcache_lock ''bcache'' s;
          s = set_next NBUF NBUF (set_prev NBUF NBUF s)
      in fold (\<lambda>b s. link_first b (upd_buf b (\<lambda>p. p\<lparr>b_dev := - 1\<rparr>) s)) [0..<NBUF] s)"

text \<open>
  The two loops over the list: from buffer \<open>b\<close> along \<open>nxt\<close> to the first one with a property, or to the
  head. The fuel is the number of buffers; a list that does not come back to the head would make the
  loop spin.
\<close>

fun bwalk ::
  "nat \<Rightarrow> (buf \<Rightarrow> nat) \<Rightarrow> (buf \<Rightarrow> bool) \<Rightarrow> nat \<Rightarrow> 'm ide_state_scheme \<Rightarrow> (nat option, 'm ide_state_scheme) kres"
where
  "bwalk fuel nxt P b s =
     (if b = NBUF then Ret None s
      else if P (bufs s b) then Ret (Some b) s
      else case fuel of 0 \<Rightarrow> Spins s | Suc fuel \<Rightarrow> bwalk fuel nxt P (nxt (bufs s b)) s)"

declare bwalk.simps [simp del]

text \<open>From the label \<open>loop\<close> on, up to the sleep, and what follows the sleep.\<close>

definition bget_loop :: "uint \<Rightarrow> uint \<Rightarrow> 'm ide_state_scheme \<Rightarrow> (nat, 'm ide_state_scheme) kres" where
  "bget_loop dev sector s =
     bind (bwalk NBUF b_next (\<lambda>p. b_dev p = dev \<and> b_sector p = sector) (b_next (bufs s NBUF)) s) (\<lambda>r s.
     case r of
       Some b \<Rightarrow>
         if \<not> b_busy (bufs s b) then
           bind (release Bcache_lock (upd_buf b (\<lambda>p. p\<lparr>b_busy := True\<rparr>) s)) (\<lambda>_ s. Ret b s)
         else sleep (Buf_chan b) (Some Bcache_lock) s
     | None \<Rightarrow>
         bind (bwalk NBUF b_prev (\<lambda>p. \<not> b_busy p \<and> \<not> b_dirty p) (b_prev (bufs s NBUF)) s) (\<lambda>r s.
         case r of
           Some b \<Rightarrow>
             bind (release Bcache_lock
                     (upd_buf b (\<lambda>p. p\<lparr>b_dev := dev, b_sector := sector,
                                      b_busy := True, b_valid := False, b_dirty := False\<rparr>) s)) (\<lambda>_ s.
             Ret b s)
         | None \<Rightarrow> Panic ''bget: no buffers''))"

definition bget :: "uint \<Rightarrow> uint \<Rightarrow> 'm ide_state_scheme \<Rightarrow> (nat, 'm ide_state_scheme) kres" where
  "bget dev sector s = bind (acquire Bcache_lock s) (\<lambda>_ s. bget_loop dev sector s)"

definition bget_resume ::
  "uint \<Rightarrow> uint \<Rightarrow> bool \<Rightarrow> 'm ide_state_scheme \<Rightarrow> (nat, 'm ide_state_scheme) kres" where
  "bget_resume dev sector intena s =
     bind (sleep_resume Bcache_lock intena s) (\<lambda>_ s. bget_loop dev sector s)"

definition bread :: "uint \<Rightarrow> uint \<Rightarrow> 'm ide_state_scheme \<Rightarrow> (nat, 'm ide_state_scheme) kres" where
  "bread dev sector s =
     bind (bget dev sector s) (\<lambda>b s.
     bind (if \<not> b_valid (bufs s b) then iderw b s else Ret () s) (\<lambda>_ s.
     Ret b s))"

definition bwrite :: "nat \<Rightarrow> 'm ide_state_scheme \<Rightarrow> (unit, 'm ide_state_scheme) kres" where
  "bwrite b s =
     (if \<not> b_busy (bufs s b) then Panic ''bwrite''
      else iderw b (upd_buf b (\<lambda>p. p\<lparr>b_dirty := True\<rparr>) s))"

definition brelse :: "nat \<Rightarrow> 'm ide_state_scheme \<Rightarrow> (unit, 'm ide_state_scheme) kres" where
  "brelse b s =
     (if \<not> b_busy (bufs s b) then Panic ''brelse''
      else bind (acquire Bcache_lock s) (\<lambda>_ s.
           let s = set_prev (b_next (bufs s b)) (b_prev (bufs s b)) s;
               s = set_next (b_prev (bufs s b)) (b_next (bufs s b)) s;
               s = link_first b s;
               s = upd_buf b (\<lambda>p. p\<lparr>b_busy := False\<rparr>) s
           in bind (wakeup (Some (Buf_chan b)) s) (\<lambda>_ s.
              release Bcache_lock s)))"

text \<open>Writing the contents of a buffer held by the caller.\<close>

definition set_data :: "nat \<Rightarrow> byte list \<Rightarrow> 'm ide_state_scheme \<Rightarrow> 'm ide_state_scheme" where
  "set_data b d s = upd_buf b (\<lambda>p. p\<lparr>b_data := d\<rparr>) s"

section \<open>Words in a block\<close>

text \<open>Little-endian access to the bytes of a block, as the casts of \<open>b->data\<close> to a structure do.\<close>

definition ld16 :: "byte list \<Rightarrow> nat \<Rightarrow> 16 word" where
  "ld16 d k = ucast (d ! k) OR push_bit 8 (ucast (d ! (k + 1)))"

definition st16 :: "byte list \<Rightarrow> nat \<Rightarrow> 16 word \<Rightarrow> byte list" where
  "st16 d k w = d[k := ucast w, k + 1 := ucast (drop_bit 8 w)]"

definition ld32 :: "byte list \<Rightarrow> nat \<Rightarrow> uint" where
  "ld32 d k = ucast (d ! k) OR push_bit 8 (ucast (d ! (k + 1))) OR push_bit 16 (ucast (d ! (k + 2))) OR
     push_bit 24 (ucast (d ! (k + 3)))"

definition st32 :: "byte list \<Rightarrow> nat \<Rightarrow> uint \<Rightarrow> byte list" where
  "st32 d k w = d[k := ucast w, k + 1 := ucast (drop_bit 8 w), k + 2 := ucast (drop_bit 16 w),
     k + 3 := ucast (drop_bit 24 w)]"

text \<open>Overwriting the bytes from \<open>k\<close> on.\<close>

definition put_bytes :: "byte list \<Rightarrow> nat \<Rightarrow> byte list \<Rightarrow> byte list" where
  "put_bytes d k xs = take k d @ xs @ drop (k + length xs) d"

section \<open>The list of buffers\<close>

text \<open>\<open>lpath f a xs z\<close>: following \<open>f\<close> from \<open>a\<close> visits \<open>xs\<close> and then arrives at \<open>z\<close>.\<close>

fun lpath :: "(nat \<Rightarrow> nat) \<Rightarrow> nat \<Rightarrow> nat list \<Rightarrow> nat \<Rightarrow> bool" where
  "lpath f a [] z \<longleftrightarrow> f a = z"
| "lpath f a (x # xs) z \<longleftrightarrow> f a = x \<and> lpath f x xs z"

lemma lpath_append: "lpath f a (xs @ y # ys) z \<longleftrightarrow> lpath f a xs y \<and> lpath f y ys z"
  by (induction xs arbitrary: a) auto

lemma lpath_frame: "u \<noteq> a \<Longrightarrow> u \<notin> set xs \<Longrightarrow> lpath (f(u := v)) a xs z = lpath f a xs z"
  by (induction xs arbitrary: a) auto

lemma lpath_first: "lpath f a xs z \<Longrightarrow> f a = hd (xs @ [z])"
  by (cases xs) auto

text \<open>Redirecting the last link of a path.\<close>

lemma lpath_redirect:
  "lpath f a xs y \<Longrightarrow> distinct (a # xs) \<Longrightarrow> lpath (f(last (a # xs) := z)) a xs z"
proof (induction xs arbitrary: a)
  case (Cons x xs)
  then have "a \<noteq> last (x # xs)" using last_in_set [of "x # xs"] by auto
  then show ?case using Cons by auto
qed simp

text \<open>Entering a path from another element.\<close>

lemma lpath_from:
  "lpath f a xs z \<Longrightarrow> b \<notin> set xs \<Longrightarrow> lpath (f(b := f a)) b xs z"
  by (cases xs) (auto simp: lpath_frame)

text \<open>The circular list with head \<open>N\<close>, in both directions.\<close>

definition ring :: "nat \<Rightarrow> (nat \<Rightarrow> nat) \<Rightarrow> (nat \<Rightarrow> nat) \<Rightarrow> nat list \<Rightarrow> bool" where
  "ring N f g xs \<longleftrightarrow> distinct (N # xs) \<and> lpath f N xs N \<and> lpath g N (rev xs) N"

lemma ring_unlink:
  assumes "ring N f g (ys @ b # zs)"
  shows "ring N (f(g b := f b)) (g(f b := g b)) (ys @ zs)"
    and "f b = hd (zs @ [N])" and "g b = last (N # ys)"
proof -
  have d: "distinct (N # ys @ b # zs)" and f: "lpath f N ys b" "lpath f b zs N"
    and g: "lpath g N (rev zs) b" "lpath g b (rev ys) N"
    using assms by (auto simp: ring_def lpath_append)
  show fb: "f b = hd (zs @ [N])" using lpath_first [OF f(2)] .
  have "hd (rev ys @ [N]) = last (N # ys)" by (cases ys rule: rev_cases) auto
  then show gb: "g b = last (N # ys)" using lpath_first [OF g(2)] by simp
  have f1: "lpath (f(last (N # ys) := hd (zs @ [N]))) N ys (hd (zs @ [N]))"
    using d f(1) by (intro lpath_redirect) auto
  have l: "last (N # rev zs) = hd (zs @ [N])" by (cases zs) auto
  have g1: "lpath (g(hd (zs @ [N]) := last (N # ys))) N (rev zs) (last (N # ys))"
    using lpath_redirect [OF g(1), of "last (N # ys)"] d unfolding l by auto
  have "lpath (f(last (N # ys) := hd (zs @ [N]))) N (ys @ zs) N"
  proof (cases zs)
    case (Cons z zs')
    have "last (N # ys) \<notin> set (z # zs')" using d Cons last_in_set [of "N # ys"] by auto
    then show ?thesis using f1 f(2) Cons by (auto simp: lpath_append lpath_frame)
  qed (use f1 in simp)
  moreover have "lpath (g(hd (zs @ [N]) := last (N # ys))) N (rev zs @ rev ys) N"
  proof (cases ys rule: rev_cases)
    case (snoc ys' y)
    have "hd (zs @ [N]) \<notin> set (y # rev ys')" using d snoc by (cases zs) auto
    then show ?thesis using g1 g(2) snoc by (auto simp: lpath_append lpath_frame)
  qed (use g1 in simp)
  ultimately show "ring N (f(g b := f b)) (g(f b := g b)) (ys @ zs)"
    using d unfolding fb gb by (simp add: ring_def)
qed

lemma ring_link:
  assumes "ring N f g xs" and "b \<notin> set xs" and "b \<noteq> N"
  shows "ring N (f(b := f N, N := b)) (g(b := N, f N := b)) (b # xs)"
proof -
  have d: "distinct (N # xs)" and f: "lpath f N xs N" and g: "lpath g N (rev xs) N" using assms(1) by (auto simp: ring_def)
  have fN: "f N = last (N # rev xs)" using lpath_first [OF f] by (cases xs) auto
  have "lpath (f(b := f N)) b xs N" using lpath_from [OF f assms(2)] .
  then have "lpath (f(b := f N, N := b)) b xs N" using d assms(3) lpath_frame [of N b xs "f(b := f N)" b N] by simp
  moreover have "lpath (g(f N := b)) N (rev xs) b" unfolding fN using g d by (intro lpath_redirect) auto
  moreover have fb: "f N \<noteq> b" using lpath_first [OF f] assms(2,3) by (cases xs) auto
  ultimately have "lpath (f(b := f N, N := b)) b xs N" "lpath (g(b := N, f N := b)) N (rev xs) b"
    using lpath_frame [of b N "rev xs" "g(f N := b)" N b] assms(2,3) by (simp_all add: fun_upd_twist)
  then show ?thesis using d fb assms(2,3) by (simp add: ring_def lpath_append)
qed

section \<open>The cache\<close>

abbreviation nx :: "'m ide_state_scheme \<Rightarrow> nat \<Rightarrow> nat" where
  "nx s \<equiv> \<lambda>a. b_next (bufs s a)"

abbreviation pv :: "'m ide_state_scheme \<Rightarrow> nat \<Rightarrow> nat" where
  "pv s \<equiv> \<lambda>a. b_prev (bufs s a)"

text \<open>
  The invariant of the cache, with the list of its buffers from the most to the least recently used:
  the links are a ring of all the buffers, no two buffers are for the same sector of the file system's
  drive, and a buffer nobody holds is dirty or has the contents of its sector.
\<close>

definition clean_ok :: "(nat \<Rightarrow> byte list) \<Rightarrow> buf \<Rightarrow> bool" where
  "clean_ok D p \<longleftrightarrow> (b_dev p = 1 \<and> b_valid p \<and> \<not> b_dirty p \<longrightarrow> b_data p = D (unat (b_sector p)))"

definition buf_ok :: "(nat \<Rightarrow> byte list) \<Rightarrow> buf \<Rightarrow> bool" where
  "buf_ok D p \<longleftrightarrow> length (b_data p) = 512 \<and> (b_dirty p \<longrightarrow> b_valid p) \<and> (b_dev p = 1 \<longrightarrow> unat (b_sector p) < 2 ^ 28) \<and>
     (b_busy p \<or> clean_ok D p)"

definition bcache_ok :: "nat list \<Rightarrow> 'm ide_state_scheme \<Rightarrow> bool" where
  "bcache_ok xs s \<longleftrightarrow> ring NBUF (nx s) (pv s) xs \<and> set xs = {..<NBUF} \<and> (\<forall>n. length (ide_block s n) = 512) \<and>
     (\<forall>b<NBUF. buf_ok (ide_block s) (bufs s b)) \<and>
     (\<forall>b<NBUF. \<forall>c<NBUF. b_dev (bufs s b) = 1 \<and> b_dev (bufs s c) = 1 \<and> b_sector (bufs s b) = b_sector (bufs s c) \<longrightarrow> b = c)"

text \<open>The contents of a sector as the kernel sees them: those of a dirty buffer, or those on the disk.\<close>

definition blk :: "'m ide_state_scheme \<Rightarrow> nat \<Rightarrow> byte list" where
  "blk s n = (case find (\<lambda>b. b_dev (bufs s b) = 1 \<and> unat (b_sector (bufs s b)) = n \<and> b_dirty (bufs s b)) [0..<NBUF] of
     Some b \<Rightarrow> b_data (bufs s b) | None \<Rightarrow> ide_block s n)"

lemma bcache_okD:
  assumes "bcache_ok xs s"
  shows "ring NBUF (nx s) (pv s) xs" and "set xs = {..<NBUF}" and "length (ide_block s n) = 512"
    and "b < NBUF \<Longrightarrow> buf_ok (ide_block s) (bufs s b)"
    and "b < NBUF \<Longrightarrow> c < NBUF \<Longrightarrow> b_dev (bufs s b) = 1 \<Longrightarrow> b_dev (bufs s c) = 1 \<Longrightarrow>
      b_sector (bufs s b) = b_sector (bufs s c) \<Longrightarrow> b = c"
  using assms unfolding bcache_ok_def by blast+

lemma bcache_okI:
  "ring NBUF (nx s) (pv s) xs \<Longrightarrow> set xs = {..<NBUF} \<Longrightarrow> (\<And>n. length (ide_block s n) = 512) \<Longrightarrow>
   (\<And>b. b < NBUF \<Longrightarrow> buf_ok (ide_block s) (bufs s b)) \<Longrightarrow>
   (\<And>b c. b < NBUF \<Longrightarrow> c < NBUF \<Longrightarrow> b_dev (bufs s b) = 1 \<Longrightarrow> b_dev (bufs s c) = 1 \<Longrightarrow>
      b_sector (bufs s b) = b_sector (bufs s c) \<Longrightarrow> b = c) \<Longrightarrow> bcache_ok xs s"
  unfolding bcache_ok_def by blast

lemma ring_length: "bcache_ok xs s \<Longrightarrow> length xs = NBUF \<and> distinct xs \<and> NBUF \<notin> set xs"
  using distinct_card [of xs] by (auto simp: bcache_ok_def ring_def)

lemma bwalk_path:
  "lpath (\<lambda>a. nxt (bufs s a)) a xs NBUF \<Longrightarrow> NBUF \<notin> set xs \<Longrightarrow> length xs \<le> fuel \<Longrightarrow>
   bwalk fuel nxt P (nxt (bufs s a)) s = Ret (find (\<lambda>b. P (bufs s b)) xs) s"
proof (induction xs arbitrary: a fuel)
  case (Cons x xs)
  then obtain f where "fuel = Suc f" by (cases fuel) auto
  then show ?case using Cons by (subst bwalk.simps) auto
qed (auto simp: bwalk.simps)

lemma user_ctx_lock:
  assumes "user_ctx i s"
  shows "acquire l s = Ret () (take_lock l s)"
    and "release l ((take_lock l s)\<lparr>bufs := B\<rparr>) = Ret () (s\<lparr>bufs := B\<rparr>)"
proof -
  have ok: "cpu_ok s" "unlocked l s" using assms by (auto simp: user_ctx_def cpu_ok_def unlocked_def)
  then show "acquire l s = Ret () (take_lock l s)" by (simp add: acquire_free)
  have "release l ((take_lock l s)\<lparr>bufs := B\<rparr>) = Ret () (drop_lock l ((take_lock l s)\<lparr>bufs := B\<rparr>))"
    using ok by (intro release_held) (simp_all add: holding_def cpu_ok_def)
  moreover have e: "(take_lock l s)\<lparr>idequeue := idequeue s, hw := hw s, bufs := B\<rparr> = (take_lock l s)\<lparr>bufs := B\<rparr>"
    by (rule ide_state.equality) simp_all
  have "drop_lock l ((take_lock l s)\<lparr>bufs := B\<rparr>) = s\<lparr>bufs := B\<rparr>"
    using lock_cycle(2) [OF assms, where l = l and q = "idequeue s" and h = "hw s" and B = B] unfolding e by simp
  ultimately show "release l ((take_lock l s)\<lparr>bufs := B\<rparr>) = Ret () (s\<lparr>bufs := B\<rparr>)" by simp
qed

lemma bget_cases:
  assumes "user_ctx i s" and "bcache_ok xs s"
  shows "find (\<lambda>b. b_dev (bufs s b) = dev \<and> b_sector (bufs s b) = sec) xs = Some b \<Longrightarrow> \<not> b_busy (bufs s b) \<Longrightarrow>
      bget dev sec s = Ret b (s\<lparr>bufs := (bufs s)(b := (bufs s b)\<lparr>b_busy := True\<rparr>)\<rparr>)"
    and "find (\<lambda>b. b_dev (bufs s b) = dev \<and> b_sector (bufs s b) = sec) xs = None \<Longrightarrow>
      bget dev sec s = (case find (\<lambda>b. \<not> b_busy (bufs s b) \<and> \<not> b_dirty (bufs s b)) (rev xs) of
        Some b \<Rightarrow> Ret b (s\<lparr>bufs := (bufs s)(b := (bufs s b)\<lparr>b_dev := dev, b_sector := sec, b_busy := True,
          b_valid := False, b_dirty := False\<rparr>)\<rparr>)
      | None \<Rightarrow> Panic ''bget: no buffers'')"
proof -
  let ?t = "take_lock Bcache_lock s"
  have B: "bufs ?t = bufs s" by simp
  have p: "lpath (\<lambda>a. b_next (bufs ?t a)) NBUF xs NBUF" "lpath (\<lambda>a. b_prev (bufs ?t a)) NBUF (rev xs) NBUF"
    "NBUF \<notin> set xs" "length xs \<le> NBUF"
    using assms(2) ring_length [OF assms(2)] unfolding B by (auto simp: bcache_ok_def ring_def)
  have f: "bwalk NBUF b_next P (b_next (bufs ?t NBUF)) ?t = Ret (find (\<lambda>b. P (bufs s b)) xs) ?t"
    and g: "bwalk NBUF b_prev P (b_prev (bufs ?t NBUF)) ?t = Ret (find (\<lambda>b. P (bufs s b)) (rev xs)) ?t" for P
    using bwalk_path [OF p(1) p(3,4), of P] bwalk_path [OF p(2), of NBUF P] p(3,4) by auto
  note l = user_ctx_lock [OF assms(1), of Bcache_lock]
  show "bget dev sec s = Ret b (s\<lparr>bufs := (bufs s)(b := (bufs s b)\<lparr>b_busy := True\<rparr>)\<rparr>)"
    if "find (\<lambda>b. b_dev (bufs s b) = dev \<and> b_sector (bufs s b) = sec) xs = Some b" and "\<not> b_busy (bufs s b)"
    using that l by (simp add: bget_def bget_loop_def f [unfolded B] upd_buf_def)
  show "bget dev sec s = (case find (\<lambda>b. \<not> b_busy (bufs s b) \<and> \<not> b_dirty (bufs s b)) (rev xs) of
        Some b \<Rightarrow> Ret b (s\<lparr>bufs := (bufs s)(b := (bufs s b)\<lparr>b_dev := dev, b_sector := sec, b_busy := True,
          b_valid := False, b_dirty := False\<rparr>)\<rparr>)
      | None \<Rightarrow> Panic ''bget: no buffers'')"
    if "find (\<lambda>b. b_dev (bufs s b) = dev \<and> b_sector (bufs s b) = sec) xs = None"
    using that l by (simp add: bget_def bget_loop_def f [unfolded B] g [unfolded B] upd_buf_def split: option.split)
qed

lemma ide_ready_upd [simp]: "h_err h = h_err (hw s) \<Longrightarrow> ide_ready i (s\<lparr>bufs := B, hw := h\<rparr>) = ide_ready i s"
  by (auto simp: ide_ready_def user_ctx_def quiet_def)

text \<open>The sectors with a dirty buffer, and their contents.\<close>

definition dirties :: "'m ide_state_scheme \<Rightarrow> (nat \<times> byte list) set" where
  "dirties s = {(unat (b_sector (bufs s b)), b_data (bufs s b)) | b. b < NBUF \<and> b_dev (bufs s b) = 1 \<and> b_dirty (bufs s b)}"

lemma dirtiesI:
  "b < NBUF \<Longrightarrow> b_dev (bufs s b) = 1 \<Longrightarrow> b_dirty (bufs s b) \<Longrightarrow> (unat (b_sector (bufs s b)), b_data (bufs s b)) \<in> dirties s"
  by (auto simp: dirties_def)

lemma dirties_cong:
  assumes "\<And>c. c < NBUF \<Longrightarrow> b_dev (bufs s' c) = 1 \<and> b_dirty (bufs s' c) \<longleftrightarrow> b_dev (bufs s c) = 1 \<and> b_dirty (bufs s c)"
    and "\<And>c. c < NBUF \<Longrightarrow> b_dirty (bufs s c) \<Longrightarrow> b_sector (bufs s' c) = b_sector (bufs s c) \<and> b_data (bufs s' c) = b_data (bufs s c)"
  shows "dirties s' = dirties s"
  unfolding dirties_def by (rule Collect_cong) (metis assms)

lemma blk_dirty:
  assumes "bcache_ok xs s" and "(n, d) \<in> dirties s"
  shows "blk s n = d"
proof -
  obtain b where b: "b < NBUF" "b_dev (bufs s b) = 1" "b_dirty (bufs s b)" "n = unat (b_sector (bufs s b))" "d = b_data (bufs s b)"
    using assms(2) by (auto simp: dirties_def)
  let ?P = "\<lambda>b. b_dev (bufs s b) = 1 \<and> unat (b_sector (bufs s b)) = n \<and> b_dirty (bufs s b)"
  have "find ?P [0..<NBUF] \<noteq> None" using b by (auto simp: find_None_iff)
  then obtain c where c: "find ?P [0..<NBUF] = Some c" by auto
  then have "c < NBUF" "?P c" by (auto simp: find_Some_iff)
  moreover then have "b_sector (bufs s c) = b_sector (bufs s b)" using b(4) by (auto simp: word_unat_eq_iff)
  ultimately have "c = b" using assms(1) b(1,2) unfolding bcache_ok_def by blast
  then show ?thesis using c b(5) by (simp add: blk_def)
qed

lemma blk_clean: "n \<notin> fst ` dirties s \<Longrightarrow> blk s n = ide_block s n"
  by (force simp: blk_def dirties_def find_None_iff find_Some_iff split: option.split)

lemma blk_cong:
  assumes "bcache_ok xs s" and "bcache_ok ys s'" and "dirties s' = dirties s" and "ide_block s' n = ide_block s n"
  shows "blk s' n = blk s n"
proof (cases "n \<in> fst ` dirties s")
  case True
  then obtain d where "(n, d) \<in> dirties s" by force
  then show ?thesis using blk_dirty [OF assms(1)] blk_dirty [OF assms(2)] assms(3) by simp
qed (use assms(3,4) in \<open>simp add: blk_clean\<close>)

text \<open>What \<open>bread\<close> does to the state: it takes one buffer and fills it.\<close>

definition fetched :: "nat \<Rightarrow> uint \<Rightarrow> 'm ide_state_scheme \<Rightarrow> 'm ide_state_scheme \<Rightarrow> bool" where
  "fetched b sec s s' \<longleftrightarrow> b < NBUF \<and> \<not> b_busy (bufs s b) \<and>
     (\<exists>p h. s' = s\<lparr>bufs := (bufs s)(b := p), hw := h\<rparr> \<and>
        h_disk h = h_disk (hw s) \<and> h_writes h = h_writes (hw s) \<and> h_err h = h_err (hw s) \<and>
        b_dev p = 1 \<and> b_sector p = sec \<and> b_busy p \<and> b_valid p \<and> b_next p = b_next (bufs s b) \<and> b_prev p = b_prev (bufs s b) \<and>
        b_dirty p = b_dirty (bufs s b) \<and>
        (if b_dirty p then b_dev (bufs s b) = 1 \<and> b_sector (bufs s b) = sec \<and> b_data p = b_data (bufs s b)
         else b_data p = ide_block s (unat sec))) \<and>
     (\<forall>c<NBUF. b_dev (bufs s c) = 1 \<and> b_sector (bufs s c) = sec \<longrightarrow> c = b)"

lemma fetchedI:
  "\<forall>c<NBUF. b_dev (bufs s c) = 1 \<and> b_sector (bufs s c) = sec \<longrightarrow> c = b \<Longrightarrow> b < NBUF \<Longrightarrow> \<not> b_busy (bufs s b) \<Longrightarrow>
   h_disk h = h_disk (hw s) \<Longrightarrow> h_writes h = h_writes (hw s) \<Longrightarrow> h_err h = h_err (hw s) \<Longrightarrow>
   b_dev p = 1 \<Longrightarrow> b_sector p = sec \<Longrightarrow> b_busy p \<Longrightarrow> b_valid p \<Longrightarrow> b_next p = b_next (bufs s b) \<Longrightarrow>
   b_prev p = b_prev (bufs s b) \<Longrightarrow> b_dirty p = b_dirty (bufs s b) \<Longrightarrow>
   (if b_dirty p then b_dev (bufs s b) = 1 \<and> b_sector (bufs s b) = sec \<and> b_data p = b_data (bufs s b)
    else b_data p = ide_block s (unat sec)) \<Longrightarrow> fetched b sec s (s\<lparr>bufs := (bufs s)(b := p), hw := h\<rparr>)"
  unfolding fetched_def by (intro conjI exI [of _ p] exI [of _ h]) (assumption | rule refl)+

definition available :: "uint \<Rightarrow> 'm ide_state_scheme \<Rightarrow> bool" where
  "available sec s \<longleftrightarrow>
     (\<forall>b<NBUF. b_dev (bufs s b) = 1 \<and> b_sector (bufs s b) = sec \<longrightarrow> \<not> b_busy (bufs s b)) \<and>
     (\<exists>b<NBUF. \<not> b_busy (bufs s b) \<and> \<not> b_dirty (bufs s b))"

lemma fill_eq:
  assumes "ide_ready i s" and "b_busy p" and "\<not> b_valid p" and "\<not> b_dirty p" and "b_dev p = 1" and "unat (b_sector p) < 2 ^ 28"
  shows "iderw b (s\<lparr>bufs := (bufs s)(b := p)\<rparr>) = Ret () (s\<lparr>bufs := (bufs s)(b := served (hw s) p), hw := served_hw p (hw s)\<rparr>)"
    and "b_data (served (hw s) p) = ide_block s (unat (b_sector p))" and "h_disk (served_hw p (hw s)) = h_disk (hw s)"
proof -
  let ?s = "s\<lparr>bufs := (bufs s)(b := p)\<rparr>"
  have "user_ctx i ?s" "quiet ?s" "idequeue ?s = None" "\<not> h_err (hw ?s)" "havedisk1 ?s"
    using assms(1) by (auto simp: ide_ready_def user_ctx_def quiet_def)
  then show "iderw b ?s = Ret () (s\<lparr>bufs := (bufs s)(b := served (hw s) p), hw := served_hw p (hw s)\<rparr>)"
    using iderw_eq [of i ?s b] assms(2-4) by simp
  show "b_data (served (hw s) p) = ide_block s (unat (b_sector p))"
    using ide_ports_decoded [OF assms(6)] assms(4,5) by (simp add: ide_block_def)
  show "h_disk (served_hw p (hw s)) = h_disk (hw s)" using assms(4) by (simp add: Let_def)
qed

lemma bread_fetched:
  assumes r: "ide_ready i s" and ok: "bcache_ok xs s" and sec: "unat sec < 2 ^ 28" and av: "available sec s"
  shows "\<exists>b s'. bread 1 sec s = Ret b s' \<and> fetched b sec s s'"
proof -
  let ?hit = "\<lambda>b. b_dev (bufs s b) = 1 \<and> b_sector (bufs s b) = sec"
  have u: "user_ctx i s" using r by (simp add: ide_ready_def)
  have xs: "set xs = {..<NBUF}" and bo: "\<forall>b<NBUF. buf_ok (ide_block s) (bufs s b)"
    and un: "\<forall>b<NBUF. \<forall>c<NBUF. ?hit b \<and> ?hit c \<longrightarrow> b = c" using ok unfolding bcache_ok_def by auto
  show ?thesis
  proof (cases "find ?hit xs")
    case (Some b)
    then have b: "b < NBUF" "?hit b" using xs by (auto simp: find_Some_iff)
    then have nb: "\<not> b_busy (bufs s b)" using av by (auto simp: available_def)
    let ?p = "(bufs s b)\<lparr>b_busy := True\<rparr>"
    have g: "bget 1 sec s = Ret b (s\<lparr>bufs := (bufs s)(b := ?p)\<rparr>)" using bget_cases(1) [OF u ok Some nb] .
    have cl: "clean_ok (ide_block s) (bufs s b)" "b_dirty (bufs s b) \<longrightarrow> b_valid (bufs s b)" using bo b(1) nb by (auto simp: buf_ok_def)
    have c: "\<forall>c<NBUF. ?hit c \<longrightarrow> c = b" using un b by blast
    show ?thesis
    proof (cases "b_valid (bufs s b)")
      case True
      then have "bread 1 sec s = Ret b (s\<lparr>bufs := (bufs s)(b := ?p), hw := hw s\<rparr>)" using g by (simp add: bread_def)
      moreover have "fetched b sec s (s\<lparr>bufs := (bufs s)(b := ?p), hw := hw s\<rparr>)"
        by (rule fetchedI [OF c]) (use b nb True cl(1) in \<open>simp_all add: clean_ok_def\<close>)
      ultimately show ?thesis by blast
    next
      case False
      note fl = fill_eq [OF r, where p = ?p]
      have "bread 1 sec s = Ret b (s\<lparr>bufs := (bufs s)(b := served (hw s) ?p), hw := served_hw ?p (hw s)\<rparr>)"
        using g fl(1) False b sec cl by (simp add: bread_def)
      moreover have "fetched b sec s (s\<lparr>bufs := (bufs s)(b := served (hw s) ?p), hw := served_hw ?p (hw s)\<rparr>)"
        by (rule fetchedI [OF c]) (use b nb False cl(2) fl(2) sec in simp_all)
      ultimately show ?thesis by blast
    qed
  next
    case None
    then have nohit: "\<forall>c<NBUF. \<not> ?hit c" using xs by (auto simp: find_None_iff)
    let ?free = "\<lambda>b. \<not> b_busy (bufs s b) \<and> \<not> b_dirty (bufs s b)"
    have "find ?free (rev xs) \<noteq> None" using av xs by (auto simp: find_None_iff available_def)
    then obtain b where f: "find ?free (rev xs) = Some b" by auto
    then have b: "b < NBUF" "?free b" using xs find_Some_iff [of ?free "rev xs" b] by (metis lessThan_iff nth_mem set_rev)+
    let ?p = "(bufs s b)\<lparr>b_dev := 1, b_sector := sec, b_busy := True, b_valid := False, b_dirty := False\<rparr>"
    note fl = fill_eq [OF r, where p = ?p]
    have c: "\<forall>c<NBUF. ?hit c \<longrightarrow> c = b" using nohit by blast
    have "bread 1 sec s = Ret b (s\<lparr>bufs := (bufs s)(b := served (hw s) ?p), hw := served_hw ?p (hw s)\<rparr>)"
      using bget_cases(2) [OF u ok None] f fl(1) sec by (simp add: bread_def)
    moreover have "fetched b sec s (s\<lparr>bufs := (bufs s)(b := served (hw s) ?p), hw := served_hw ?p (hw s)\<rparr>)"
      by (rule fetchedI [OF c]) (use b fl(2) sec in simp_all)
    ultimately show ?thesis by blast
  qed
qed

lemma fetched_ok:
  assumes r: "ide_ready i s" and ok: "bcache_ok xs s" and f: "fetched b sec s s'" and sec: "unat sec < 2 ^ 28"
  shows "ide_ready i s'" and "bcache_ok xs s'" and "dirties s' = dirties s" and "ide_block s' = ide_block s"
    and "b_data (bufs s' b) = blk s (unat sec)" and "blk s' = blk s"
proof -
  obtain p h where s': "s' = s\<lparr>bufs := (bufs s)(b := p), hw := h\<rparr>" and h: "h_disk h = h_disk (hw s)" "h_err h = h_err (hw s)"
    and p: "b_dev p = 1" "b_sector p = sec" "b_busy p" "b_valid p" "b_next p = b_next (bufs s b)" "b_prev p = b_prev (bufs s b)"
      "b_dirty p = b_dirty (bufs s b)"
    and d: "if b_dirty p then b_dev (bufs s b) = 1 \<and> b_sector (bufs s b) = sec \<and> b_data p = b_data (bufs s b)
            else b_data p = ide_block s (unat sec)"
    and b: "b < NBUF" "\<not> b_busy (bufs s b)" and un: "\<forall>c<NBUF. b_dev (bufs s c) = 1 \<and> b_sector (bufs s c) = sec \<longrightarrow> c = b"
    using f unfolding fetched_def by blast
  show "ide_ready i s'" using r h unfolding s' by simp
  show blk: "ide_block s' = ide_block s" using h by (simp add: s' ide_block_def)
  have links: "nx s' = nx s" "pv s' = pv s" using p by (auto simp: s')
  have len: "length (b_data p) = 512"
    using d bcache_okD(3) [OF ok] bcache_okD(4) [OF ok b(1)] by (auto simp: buf_ok_def split: if_splits)
  show ok': "bcache_ok xs s'"
  proof (rule bcache_okI, unfold blk links)
    show "buf_ok (ide_block s) (bufs s' c)" if "c < NBUF" for c
      using bcache_okD(4) [OF ok that] p len sec unfolding s' by (simp add: buf_ok_def)
    show "c = e" if "c < NBUF" "e < NBUF" "b_dev (bufs s' c) = 1" "b_dev (bufs s' e) = 1"
      "b_sector (bufs s' c) = b_sector (bufs s' e)" for c e
    proof -
      have "bufs s' c = (if c = b then p else bufs s c)" "bufs s' e = (if e = b then p else bufs s e)" by (simp_all add: s')
      then show ?thesis using un that p(1,2) bcache_okD(5) [OF ok that(1,2)] by (metis (full_types))
    qed
  qed (simp_all add: bcache_okD(1-3) [OF ok])
  show dir: "dirties s' = dirties s"
  proof (rule dirties_cong)
    fix c
    show "b_dev (bufs s' c) = 1 \<and> b_dirty (bufs s' c) \<longleftrightarrow> b_dev (bufs s c) = 1 \<and> b_dirty (bufs s c)"
      using p d unfolding s' by (cases "c = b") (auto split: if_splits)
    show "b_sector (bufs s' c) = b_sector (bufs s c) \<and> b_data (bufs s' c) = b_data (bufs s c)"
      if "b_dirty (bufs s c)" using p d that unfolding s' by (cases "c = b") (auto split: if_splits)
  qed
  show "blk s' = blk s" using blk_cong [OF ok ok' dir] blk by auto
  show "b_data (bufs s' b) = blk s (unat sec)"
  proof (cases "b_dirty p")
    case True
    then have "(unat sec, b_data p) \<in> dirties s" using d p b dirtiesI [of b s] by simp
    then show ?thesis using blk_dirty [OF ok] by (simp add: s')
  next
    case False
    then have "unat sec \<notin> fst ` dirties s" using un p(7) unfolding dirties_def by (force simp: word_unat_eq_iff)
    then show ?thesis using False d by (simp add: s' blk_clean)
  qed
qed

text \<open>Writing a buffer through.\<close>

lemma bwrite_ok:
  assumes r: "ide_ready i s" and ok: "bcache_ok xs s" and b: "b < NBUF" "b_busy (bufs s b)" "b_dev (bufs s b) = 1"
  shows "\<exists>p h. bwrite b s = Ret () (s\<lparr>bufs := (bufs s)(b := p), hw := h\<rparr>) \<and>
      h_err h = h_err (hw s) \<and> h_disk h True = (h_disk (hw s) True)(unat (b_sector (bufs s b)) := b_data (bufs s b)) \<and>
      h_writes h = h_writes (hw s) @ [(True, unat (b_sector (bufs s b)), b_data (bufs s b))] \<and>
      b_busy p \<and> b_valid p \<and> \<not> b_dirty p \<and> b_dev p = 1 \<and> b_sector p = b_sector (bufs s b) \<and> b_data p = b_data (bufs s b) \<and>
      b_next p = b_next (bufs s b) \<and> b_prev p = b_prev (bufs s b)"
proof -
  let ?p = "(bufs s b)\<lparr>b_dirty := True\<rparr>"
  let ?s = "s\<lparr>bufs := (bufs s)(b := ?p)\<rparr>"
  have "user_ctx i ?s" "quiet ?s" "idequeue ?s = None" "\<not> h_err (hw ?s)" "havedisk1 ?s"
    using r by (auto simp: ide_ready_def user_ctx_def quiet_def)
  then have "iderw b ?s = Ret () (s\<lparr>bufs := (bufs s)(b := served (hw s) ?p), hw := served_hw ?p (hw s)\<rparr>)"
    using iderw_eq [of i ?s b] b by simp
  then have "bwrite b s = Ret () (s\<lparr>bufs := (bufs s)(b := served (hw s) ?p), hw := served_hw ?p (hw s)\<rparr>)"
    using b by (simp add: bwrite_def upd_buf_def)
  moreover have "unat (b_sector ?p) < 2 ^ 28" using bcache_okD(4) [OF ok b(1)] b(3) by (simp add: buf_ok_def)
  note ide_ports_decoded [OF this]
  ultimately show ?thesis using b
    by (intro exI [of _ "served (hw s) ?p"] exI [of _ "served_hw ?p (hw s)"]) (simp add: Let_def)
qed

lemma bwrite_cache:
  assumes r: "ide_ready i s" and ok: "bcache_ok xs s" and b: "b < NBUF" "b_busy (bufs s b)" "b_dev (bufs s b) = 1"
    and w: "bwrite b s = Ret () s'"
  shows "ide_ready i s'" and "bcache_ok xs s'" and "\<exists>B h. s' = s\<lparr>bufs := B, hw := h\<rparr>"
    and "ide_block s' = (ide_block s)(unat (b_sector (bufs s b)) := b_data (bufs s b))"
    and "h_writes (hw s') = h_writes (hw s) @ [(True, unat (b_sector (bufs s b)), b_data (bufs s b))]"
    and "c \<noteq> b \<Longrightarrow> bufs s' c = bufs s c"
    and "b_busy (bufs s' b)" and "b_valid (bufs s' b)" and "\<not> b_dirty (bufs s' b)" and "b_dev (bufs s' b) = 1"
    and "b_sector (bufs s' b) = b_sector (bufs s b)" and "b_data (bufs s' b) = b_data (bufs s b)"
proof -
  obtain p h where s': "s' = s\<lparr>bufs := (bufs s)(b := p), hw := h\<rparr>"
    and h: "h_err h = h_err (hw s)" "h_disk h True = (h_disk (hw s) True)(unat (b_sector (bufs s b)) := b_data (bufs s b))"
      "h_writes h = h_writes (hw s) @ [(True, unat (b_sector (bufs s b)), b_data (bufs s b))]"
    and p: "b_busy p" "b_valid p" "\<not> b_dirty p" "b_dev p = 1" "b_sector p = b_sector (bufs s b)" "b_data p = b_data (bufs s b)"
      "b_next p = b_next (bufs s b)" "b_prev p = b_prev (bufs s b)"
    using bwrite_ok [OF r ok b] w by auto
  show "ide_ready i s'" using r h unfolding s' by simp
  show blk: "ide_block s' = (ide_block s)(unat (b_sector (bufs s b)) := b_data (bufs s b))"
    using h by (simp add: s' ide_block_def)
  have links: "nx s' = nx s" "pv s' = pv s" using p by (auto simp: s')
  have len: "length (b_data (bufs s b)) = 512" "unat (b_sector (bufs s b)) < 2 ^ 28"
    using bcache_okD(4) [OF ok b(1)] b(3) by (simp_all add: buf_ok_def)
  show "bcache_ok xs s'"
  proof (rule bcache_okI, unfold blk links)
    show "buf_ok ((ide_block s)(unat (b_sector (bufs s b)) := b_data (bufs s b))) (bufs s' c)" if "c < NBUF" for c
    proof (cases "c = b")
      case True
      then show ?thesis using p len by (simp add: s' buf_ok_def)
    next
      case False
      then have "b_dev (bufs s c) = 1 \<longrightarrow> b_sector (bufs s c) \<noteq> b_sector (bufs s b)" using bcache_okD(5) [OF ok that b(1)] b(3) by blast
      then show ?thesis using bcache_okD(4) [OF ok that] False by (auto simp: s' buf_ok_def clean_ok_def word_unat_eq_iff)
    qed
    show "c = e" if "c < NBUF" "e < NBUF" "b_dev (bufs s' c) = 1" "b_dev (bufs s' e) = 1"
      "b_sector (bufs s' c) = b_sector (bufs s' e)" for c e
    proof -
      have "b_dev (bufs s' c) = b_dev (bufs s c)" "b_sector (bufs s' c) = b_sector (bufs s c)" for c
        using p b(3) by (auto simp: s')
      then show ?thesis using that bcache_okD(5) [OF ok that(1,2)] by metis
    qed
  qed (use len in \<open>simp_all add: bcache_okD(1-3) [OF ok]\<close>)
qed (use bwrite_ok [OF r ok b] w in auto)

text \<open>The abstract contents follow.\<close>

lemma bwrite_blk:
  assumes "ide_ready i s" and "bcache_ok xs s" and "b < NBUF" "b_busy (bufs s b)" "b_dev (bufs s b) = 1" and "bwrite b s = Ret () s'"
  shows "blk s' = (blk s)(unat (b_sector (bufs s b)) := b_data (bufs s b))"
    and "dirties s' = {(n, d) \<in> dirties s. n \<noteq> unat (b_sector (bufs s b))}"
proof -
  note w = bwrite_cache [OF assms]
  have uni: "unat (b_sector (bufs s c)) = unat (b_sector (bufs s b)) \<longleftrightarrow> c = b" if "c < NBUF" "b_dev (bufs s c) = 1" for c
    using bcache_okD(5) [OF assms(2) that(1) assms(3) that(2) assms(5)] by (auto simp: word_unat_eq_iff)
  have other: "b_dirty (bufs s' c) \<longleftrightarrow> b_dirty (bufs s c) \<and> c \<noteq> b" for c using w(6,9) by (cases "c = b") auto
  show dir: "dirties s' = {(n, d) \<in> dirties s. n \<noteq> unat (b_sector (bufs s b))}"
  proof (rule set_eqI, clarify)
    fix n d
    show "(n, d) \<in> dirties s' \<longleftrightarrow> (n, d) \<in> {(n, d) \<in> dirties s. n \<noteq> unat (b_sector (bufs s b))}"
      unfolding dirties_def using uni other w(6) by (auto; metis)
  qed
  show "blk s' = (blk s)(unat (b_sector (bufs s b)) := b_data (bufs s b))"
  proof
    fix n
    show "blk s' n = ((blk s)(unat (b_sector (bufs s b)) := b_data (bufs s b))) n"
    proof (cases "n = unat (b_sector (bufs s b)) \<or> n \<notin> fst ` dirties s")
      case True
      then have "n \<notin> fst ` dirties s'" using dir by auto
      then show ?thesis using True by (auto simp: blk_clean w(4))
    next
      case False
      then obtain d where "(n, d) \<in> dirties s" "(n, d) \<in> dirties s'" using dir by force
      then show ?thesis using False blk_dirty [OF assms(2)] blk_dirty [OF w(2)] by auto
    qed
  qed
qed

text \<open>Giving a buffer back.\<close>

lemma set_links [simp]:
  "b_next (bufs (set_next b c s) a) = ((nx s)(b := c)) a" "b_prev (bufs (set_next b c s) a) = b_prev (bufs s a)"
  "b_next (bufs (set_prev b c s) a) = b_next (bufs s a)" "b_prev (bufs (set_prev b c s) a) = ((pv s)(b := c)) a"
  by (auto simp: set_next_def set_prev_def upd_buf_def)

definition same_core :: "buf \<Rightarrow> buf \<Rightarrow> bool" where
  "same_core p q \<longleftrightarrow> p\<lparr>b_prev := 0, b_next := 0\<rparr> = q\<lparr>b_prev := 0, b_next := 0\<rparr>"

lemma same_coreD:
  "same_core p q \<Longrightarrow> b_busy p = b_busy q \<and> b_valid p = b_valid q \<and> b_dirty p = b_dirty q \<and> b_dev p = b_dev q \<and>
     b_sector p = b_sector q \<and> b_data p = b_data q"
  unfolding same_core_def by (cases p, cases q) auto

lemma same_core_set:
  "same_core (bufs (set_next b c s) a) (bufs s a)" "same_core (bufs (set_prev b c s) a) (bufs s a)"
  by (simp_all add: same_core_def set_next_def set_prev_def upd_buf_def)

lemma same_core_trans: "same_core p q \<Longrightarrow> same_core q r \<Longrightarrow> same_core p r"
  by (simp add: same_core_def)

text \<open>The unlinking and relinking of \<open>brelse\<close>.\<close>

definition to_front :: "nat \<Rightarrow> 'm ide_state_scheme \<Rightarrow> 'm ide_state_scheme" where
  "to_front b s = (let s = set_prev (b_next (bufs s b)) (b_prev (bufs s b)) s;
     s = set_next (b_prev (bufs s b)) (b_next (bufs s b)) s in link_first b s)"

lemma link_first_ring:
  assumes "ring NBUF (nx s) (pv s) xs" and "b \<notin> set xs" and "b \<noteq> NBUF"
  shows "ring NBUF (nx (link_first b s)) (pv (link_first b s)) (b # xs)"
proof -
  have "nx (link_first b s) = (nx s)(b := nx s NBUF, NBUF := b)" "pv (link_first b s) = (pv s)(b := NBUF, nx s NBUF := b)"
    using assms(3) by (auto simp: link_first_def Let_def fun_eq_iff)
  then show ?thesis using ring_link [OF assms] by simp
qed

lemma to_front_ring:
  assumes "ring NBUF (nx s) (pv s) xs" and "b \<in> set xs"
  shows "ring NBUF (nx (to_front b s)) (pv (to_front b s)) (b # remove1 b xs)"
proof -
  obtain ys zs where xs: "xs = ys @ b # zs" "b \<notin> set ys" using split_list_first [OF assms(2)] by blast
  let ?f = "nx s" and ?g = "pv s"
  note u = ring_unlink [OF assms(1) [unfolded xs]]
  have d: "distinct (NBUF # ys @ b # zs)" using assms(1) unfolding xs ring_def by blast
  then have nb: "?f b \<noteq> b" unfolding u(2) by (cases zs) auto
  let ?s1 = "set_prev (?f b) (?g b) s"
  let ?s2 = "set_next (pv ?s1 b) (nx ?s1 b) ?s1"
  have s2: "nx ?s2 = ?f(?g b := ?f b)" "pv ?s2 = ?g(?f b := ?g b)" using nb by (auto simp: fun_eq_iff)
  have "ring NBUF (nx (link_first b ?s2)) (pv (link_first b ?s2)) (b # ys @ zs)"
    using link_first_ring [of ?s2 "ys @ zs" b] u(1) d unfolding s2 by simp
  then show ?thesis using xs by (simp add: to_front_def Let_def remove1_append)
qed

lemma to_front_core: "same_core (bufs (to_front b s) a) (bufs s a)"
  unfolding to_front_def link_first_def Let_def
  by (rule same_core_trans [OF same_core_set(1)] same_core_trans [OF same_core_set(2)] same_core_set)+

lemma to_front_frame: "to_front b s = s\<lparr>bufs := bufs (to_front b s)\<rparr>"
proof -
  have set: "(set_next b c s)\<lparr>bufs := B\<rparr> = s\<lparr>bufs := B\<rparr>" "(set_prev b c s)\<lparr>bufs := B\<rparr> = s\<lparr>bufs := B\<rparr>"
    for b c and s :: "'a ide_state_scheme" and B
    by (simp_all add: set_next_def set_prev_def upd_buf_def)
  have "(to_front b s)\<lparr>bufs := B\<rparr> = s\<lparr>bufs := B\<rparr>" for B
    unfolding to_front_def link_first_def Let_def set ..
  from this [of "bufs (to_front b s)"] show ?thesis by simp
qed

lemma wakeup_quiet:
  assumes u: "user_ctx i s" and q: "quiet s"
  shows "wakeup (Some (Buf_chan b)) ((take_lock Bcache_lock s)\<lparr>bufs := B\<rparr>) = Ret () ((take_lock Bcache_lock s)\<lparr>bufs := B\<rparr>)"
proof -
  let ?t = "(take_lock Bcache_lock s)\<lparr>bufs := B\<rparr>"
  let ?u = "take_lock Ptable_lock ?t"
  have ok: "unlocked Ptable_lock ?t" "cpu_ok ?t" using u by (auto simp: user_ctx_def unlocked_def cpu_ok_def)
  have procs: "procs ?u = procs s" by (simp add: take_lock_def pushcli_def Let_def)
  have "(\<lambda>j. if j < NPROC then woken (Some (Buf_chan b)) (procs s j) else procs s j) = procs s"
    using q by (auto simp: quiet_def woken_def)
  then have "wakeup1 (Some (Buf_chan b)) ?u = ?u\<lparr>procs := procs s\<rparr>" unfolding wakeup1_eq procs by simp
  then have w: "wakeup1 (Some (Buf_chan b)) ?u = ?u" using procs by simp
  have "release Ptable_lock ?u = Ret () (drop_lock Ptable_lock ?u)" using release_after_acquire [OF ok(2,1)] .
  moreover have "drop_lock Ptable_lock ?u = ?t"
  proof -
    have "cpu (drop_lock Ptable_lock ?u) = cpu ?t" using u by (intro cpu.equality) (auto simp: user_ctx_def)
    moreover have "locks (drop_lock Ptable_lock ?u) = locks ?t"
      using u by (intro ext spinlock.equality) (auto simp: user_ctx_def)
    ultimately show ?thesis by (intro ide_state.equality) (simp_all add: take_lock_def drop_lock_def pushcli_def Let_def)
  qed
  ultimately show ?thesis using ok w by (simp add: wakeup_def acquire_free)
qed

lemma brelse_to_front:
  "brelse b s = (if \<not> b_busy (bufs s b) then Panic ''brelse''
     else bind (acquire Bcache_lock s) (\<lambda>_ s. bind (wakeup (Some (Buf_chan b)) (upd_buf b (\<lambda>p. p\<lparr>b_busy := False\<rparr>) (to_front b s)))
       (\<lambda>_ s. release Bcache_lock s)))"
  by (simp only: brelse_def to_front_def Let_def)

lemma brelse_eq:
  assumes r: "ide_ready i s" and ok: "bcache_ok xs s" and b: "b < NBUF" "b_busy (bufs s b)"
  shows "brelse b s = Ret () (s\<lparr>bufs := (bufs (to_front b s))(b := (bufs (to_front b s) b)\<lparr>b_busy := False\<rparr>)\<rparr>)"
proof -
  let ?t = "take_lock Bcache_lock s"
  let ?B = "(bufs (to_front b s))(b := (bufs (to_front b s) b)\<lparr>b_busy := False\<rparr>)"
  have u: "user_ctx i s" "quiet s" using r by (simp_all add: ide_ready_def)
  have "bufs (to_front b ?t) = bufs (to_front b s)"
    by (simp add: to_front_def link_first_def Let_def set_next_def set_prev_def upd_buf_def)
  then have "upd_buf b (\<lambda>p. p\<lparr>b_busy := False\<rparr>) (to_front b ?t) = ?t\<lparr>bufs := ?B\<rparr>"
    by (subst to_front_frame) (simp add: upd_buf_def)
  then show ?thesis
    using b user_ctx_lock [OF u(1), of Bcache_lock] wakeup_quiet [OF u, of b]
    by (simp add: brelse_to_front)
qed

text \<open>\<open>brelse\<close> moves the buffer to the front of the list and changes nothing else.\<close>

lemma brelse_cache:
  assumes r: "ide_ready i s" and ok: "bcache_ok xs s" and b: "b < NBUF" "b_busy (bufs s b)"
    and c: "clean_ok (ide_block s) (bufs s b)"
  shows "\<exists>s'. brelse b s = Ret () s' \<and> s' = s\<lparr>bufs := bufs s'\<rparr> \<and> ide_ready i s' \<and> bcache_ok (b # remove1 b xs) s' \<and>
    dirties s' = dirties s \<and> blk s' = blk s \<and> \<not> b_busy (bufs s' b) \<and>
    (\<forall>c. c \<noteq> b \<longrightarrow> same_core (bufs s' c) (bufs s c)) \<and>
    same_core (bufs s' b) ((bufs s b)\<lparr>b_busy := False\<rparr>)"
proof -
  let ?B = "(bufs (to_front b s))(b := (bufs (to_front b s) b)\<lparr>b_busy := False\<rparr>)"
  let ?s = "s\<lparr>bufs := ?B\<rparr>"
  have core: "same_core (?B a) (if a = b then (bufs s b)\<lparr>b_busy := False\<rparr> else bufs s a)" for a
    using to_front_core [of b s a] by (cases "bufs (to_front b s) a", cases "bufs s a") (auto simp: same_core_def)
  note cd = same_coreD [OF core]
  have D: "ide_block ?s = ide_block s" by (simp add: ide_block_def)
  have ok': "bcache_ok (b # remove1 b xs) ?s"
  proof (rule bcache_okI, unfold D)
    have "nx ?s = nx (to_front b s)" "pv ?s = pv (to_front b s)" by auto
    then show "ring NBUF (nx ?s) (pv ?s) (b # remove1 b xs)"
      using to_front_ring [OF bcache_okD(1) [OF ok], of b] bcache_okD(2) [OF ok] b(1) by simp
    show "set (b # remove1 b xs) = {..<NBUF}"
      using bcache_okD(2) [OF ok] ring_length [OF ok] b(1) by auto
    show "buf_ok (ide_block s) (bufs ?s a)" if "a < NBUF" for a
      using bcache_okD(4) [OF ok that] cd [of a] c by (cases "a = b") (simp_all add: buf_ok_def clean_ok_def)
    show "a = e" if "a < NBUF" "e < NBUF" "b_dev (bufs ?s a) = 1" "b_dev (bufs ?s e) = 1"
      "b_sector (bufs ?s a) = b_sector (bufs ?s e)" for a e
    proof -
      have "b_dev (?B a) = b_dev (bufs s a)" "b_sector (?B a) = b_sector (bufs s a)" for a
        using cd [of a] by (cases "a = b"; simp)+
      then show ?thesis using that(3-5) by (intro bcache_okD(5) [OF ok that(1,2)]) simp_all
    qed
  qed (simp add: bcache_okD(3) [OF ok])
  have dir: "dirties ?s = dirties s"
  proof (rule dirties_cong)
    fix a
    show "b_dev (bufs ?s a) = 1 \<and> b_dirty (bufs ?s a) \<longleftrightarrow> b_dev (bufs s a) = 1 \<and> b_dirty (bufs s a)"
      "b_sector (bufs ?s a) = b_sector (bufs s a) \<and> b_data (bufs ?s a) = b_data (bufs s a)"
      using cd [of a] by (cases "a = b"; simp)+
  qed
  have "blk ?s = blk s" using blk_cong [OF ok ok' dir] D by auto
  moreover have "ide_ready i ?s" using r by (auto simp: ide_ready_def user_ctx_def quiet_def)
  moreover have "same_core (bufs ?s a) (bufs s a)" if "a \<noteq> b" for a using core [of a] that by simp
  moreover have "same_core (bufs ?s b) ((bufs s b)\<lparr>b_busy := False\<rparr>)" using core [of b] by simp
  ultimately show ?thesis using brelse_eq [OF r ok b] ok' dir by (intro exI [of _ ?s]) simp
qed

section \<open>The boot of the cache and reading a block\<close>

lemma link_first_frame:
  "(link_first x (upd_buf x f s))\<lparr>bufs := B\<rparr> = s\<lparr>bufs := B\<rparr>"
  by (simp add: link_first_def set_next_def set_prev_def upd_buf_def Let_def)

lemma link_first_core:
  "same_core (bufs (link_first x (upd_buf x f s)) a) (if a = x then f (bufs s a) else bufs s a)"
  unfolding link_first_def Let_def
  by (rule same_core_trans [OF same_core_set(1)] same_core_trans [OF same_core_set(2)])+ (simp add: upd_buf_def same_core_def)

lemma same_core_dev: "same_core p q \<Longrightarrow> same_core (p\<lparr>b_dev := v\<rparr>) (q\<lparr>b_dev := v\<rparr>)"
  by (cases p, cases q) (simp add: same_core_def)

lemma binit_fold:
  "ring NBUF (nx s) (pv s) ys \<Longrightarrow> distinct (xs @ ys) \<Longrightarrow> NBUF \<notin> set xs \<Longrightarrow>
   t = fold (\<lambda>b s. link_first b (upd_buf b (\<lambda>p. p\<lparr>b_dev := - 1\<rparr>) s)) xs s \<Longrightarrow>
   ring NBUF (nx t) (pv t) (rev xs @ ys) \<and>
   (\<forall>a. same_core (bufs t a) (if a \<in> set xs then (bufs s a)\<lparr>b_dev := - 1\<rparr> else bufs s a)) \<and>
   (\<forall>B. t\<lparr>bufs := B\<rparr> = s\<lparr>bufs := B\<rparr>)"
proof (induction xs arbitrary: s ys)
  case (Cons x xs)
  let ?f = "\<lambda>p. p\<lparr>b_dev := - 1\<rparr>"
  let ?u = "link_first x (upd_buf x ?f s)"
  have "nx (upd_buf x ?f s) = nx s" "pv (upd_buf x ?f s) = pv s" by (auto simp: upd_buf_def)
  then have "ring NBUF (nx ?u) (pv ?u) (x # ys)" using Cons.prems by (intro link_first_ring) auto
  then have ih: "ring NBUF (nx t) (pv t) (rev xs @ x # ys)"
    "\<And>a. same_core (bufs t a) (if a \<in> set xs then ?f (bufs ?u a) else bufs ?u a)"
    "\<And>B. t\<lparr>bufs := B\<rparr> = ?u\<lparr>bufs := B\<rparr>"
    using Cons.IH [of ?u "x # ys"] Cons.prems by auto
  have "same_core (bufs t a) (if a \<in> set (x # xs) then ?f (bufs s a) else bufs s a)" for a
  proof (rule same_core_trans [OF ih(2)])
    show "same_core (if a \<in> set xs then ?f (bufs ?u a) else bufs ?u a) (if a \<in> set (x # xs) then ?f (bufs s a) else bufs s a)"
      using link_first_core [of x ?f s a] same_core_dev [of "bufs ?u a" "bufs s a"] Cons.prems(2)
      by (cases "a = x"; cases "a \<in> set xs") simp_all
  qed
  then show ?case using ih(1,3) link_first_frame [where x = x and f = ?f and s = s] by simp
qed (simp_all add: same_core_def)

text \<open>The contents of a buffer that somebody holds do not matter to the cache.\<close>

lemma set_data_ok:
  assumes "bcache_ok xs s" and "b < NBUF" "b_busy (bufs s b)" and "length d = 512"
  shows "bcache_ok xs (set_data b d s)" and "ide_ready i (set_data b d s) = ide_ready i s"
    and "hw (set_data b d s) = hw s" and "bufs (set_data b d s) = (bufs s)(b := (bufs s b)\<lparr>b_data := d\<rparr>)"
    and "b_dev (bufs s b) = 1 \<Longrightarrow> n \<noteq> unat (b_sector (bufs s b)) \<Longrightarrow> blk (set_data b d s) n = blk s n"
proof -
  let ?s = "set_data b d s"
  show B: "bufs ?s = (bufs s)(b := (bufs s b)\<lparr>b_data := d\<rparr>)" and "hw ?s = hw s" by (simp_all add: set_data_def upd_buf_def)
  show "ide_ready i ?s = ide_ready i s" by (auto simp: set_data_def upd_buf_def ide_ready_def user_ctx_def quiet_def)
  have D: "ide_block ?s = ide_block s" by (simp add: ide_block_def set_data_def upd_buf_def)
  have same: "b_dev (bufs ?s c) = b_dev (bufs s c)" "b_sector (bufs ?s c) = b_sector (bufs s c)"
    "b_dirty (bufs ?s c) = b_dirty (bufs s c)" for c by (simp_all add: B)
  show ok: "bcache_ok xs ?s"
  proof (rule bcache_okI, unfold D same)
    have "nx ?s = nx s" "pv ?s = pv s" by (auto simp: B)
    then show "ring NBUF (nx ?s) (pv ?s) xs" using bcache_okD(1) [OF assms(1)] by simp
    show "buf_ok (ide_block s) (bufs ?s c)" if "c < NBUF" for c
      using bcache_okD(4) [OF assms(1) that] assms(3,4) by (cases "c = b") (simp_all add: B buf_ok_def)
  qed (use bcache_okD(2,3,5) [OF assms(1)] in blast)+
  show "blk ?s n = blk s n" if "b_dev (bufs s b) = 1" "n \<noteq> unat (b_sector (bufs s b))"
  proof (cases "n \<in> fst ` dirties s")
    case True
    then obtain c where c: "c < NBUF" "b_dev (bufs s c) = 1" "b_dirty (bufs s c)" "n = unat (b_sector (bufs s c))"
      by (auto simp: dirties_def)
    then have "c \<noteq> b" using that by auto
    then have "(n, b_data (bufs s c)) \<in> dirties ?s" using c dirtiesI [of c ?s] by (simp add: B)
    moreover have "(n, b_data (bufs s c)) \<in> dirties s" using c dirtiesI [of c s] by simp
    ultimately show ?thesis using blk_dirty [OF assms(1)] blk_dirty [OF ok] by metis
  next
    case False
    have "n \<notin> fst ` dirties ?s"
    proof
      assume "n \<in> fst ` dirties ?s"
      then obtain c where "c < NBUF" "b_dev (bufs ?s c) = 1" "b_dirty (bufs ?s c)" "n = unat (b_sector (bufs ?s c))"
        by (auto simp: dirties_def)
      then have "(n, b_data (bufs s c)) \<in> dirties s" using dirtiesI [of c s] unfolding same by simp
      then show False using False image_iff by fastforce
    qed
    then show ?thesis using False by (simp add: blk_clean D)
  qed
qed

lemma binit_ok:
  assumes "\<And>b. b < NBUF \<Longrightarrow> \<not> b_busy (bufs s b) \<and> \<not> b_valid (bufs s b) \<and> \<not> b_dirty (bufs s b) \<and> length (b_data (bufs s b)) = 512"
    and "\<And>n. length (ide_block s n) = 512"
  shows "bcache_ok (rev [0..<NBUF]) (binit s)" and "binit s = (initlock Bcache_lock ''bcache'' s)\<lparr>bufs := bufs (binit s)\<rparr>"
    and "\<forall>b<NBUF. b_dev (bufs (binit s) b) = - 1 \<and> \<not> b_busy (bufs (binit s) b) \<and> \<not> b_dirty (bufs (binit s) b)"
proof -
  let ?s = "set_next NBUF NBUF (set_prev NBUF NBUF (initlock Bcache_lock ''bcache'' s))"
  have core: "same_core (bufs ?s a) (bufs s a)" for a
    using same_core_trans [OF same_core_set(1) same_core_set(2), of NBUF NBUF NBUF NBUF "initlock Bcache_lock ''bcache'' s" a]
    by (simp add: initlock_def)
  have "ring NBUF (nx ?s) (pv ?s) []" by (simp add: ring_def)
  then have f: "ring NBUF (nx (binit s)) (pv (binit s)) (rev [0..<NBUF])"
    "\<And>a. same_core (bufs (binit s) a) (if a < NBUF then (bufs ?s a)\<lparr>b_dev := - 1\<rparr> else bufs ?s a)"
    "\<And>B. (binit s)\<lparr>bufs := B\<rparr> = ?s\<lparr>bufs := B\<rparr>"
    using binit_fold [of ?s "[]" "[0..<NBUF]", OF _ _ _ refl] by (simp_all add: binit_def Let_def)
  show fr: "binit s = (initlock Bcache_lock ''bcache'' s)\<lparr>bufs := bufs (binit s)\<rparr>"
    using f(3) [of "bufs (binit s)"] by (simp add: set_next_def set_prev_def upd_buf_def)
  have D: "ide_block (binit s) = ide_block s" by (subst fr) (simp add: ide_block_def initlock_def)
  have cd: "b_dev (bufs (binit s) b) = - 1" "\<not> b_busy (bufs (binit s) b)" "\<not> b_valid (bufs (binit s) b)"
    "\<not> b_dirty (bufs (binit s) b)" "length (b_data (bufs (binit s) b)) = 512" if "b < NBUF" for b
    using same_coreD [OF f(2) [of b]] same_coreD [OF core [of b]] assms(1) [OF that] that by auto
  show "bcache_ok (rev [0..<NBUF]) (binit s)"
    by (rule bcache_okI, unfold D) (use f(1) cd assms(2) in \<open>auto simp: buf_ok_def clean_ok_def\<close>)
  show "\<forall>b<NBUF. b_dev (bufs (binit s) b) = - 1 \<and> \<not> b_busy (bufs (binit s) b) \<and> \<not> b_dirty (bufs (binit s) b)"
    using cd by blast
qed

text \<open>
  C29. The cache is well formed after \<open>binit\<close>: the table that the kernel finds zeroed at boot becomes a
  doubly linked ring of all the buffers, none of which is for a sector of the file system's drive, and
  nothing but the buffers and the lock of the cache changes.
\<close>

theorem binit_establishes_cache:
  assumes "\<And>b. b < NBUF \<Longrightarrow> \<not> b_busy (bufs s b) \<and> \<not> b_valid (bufs s b) \<and> \<not> b_dirty (bufs s b) \<and> length (b_data (bufs s b)) = 512"
    and "\<And>n. length (ide_block s n) = 512"
  shows "bcache_ok (rev [0..<NBUF]) (binit s) \<and>
    binit s = (initlock Bcache_lock ''bcache'' s)\<lparr>bufs := bufs (binit s)\<rparr>"
  using binit_ok [OF assms] by blast

text \<open>Reading a block and giving the buffer back; overwriting a block.\<close>

lemma fetched_held:
  assumes "fetched b sec s s'"
  shows "b < NBUF" "b_busy (bufs s' b)" "b_valid (bufs s' b)" "b_dev (bufs s' b) = 1" "b_sector (bufs s' b) = sec"
    "h_writes (hw s') = h_writes (hw s)" "clean_ok (ide_block s) (bufs s' b)" "\<exists>B h. s' = s\<lparr>bufs := B, hw := h\<rparr>"
    "c \<noteq> b \<Longrightarrow> bufs s' c = bufs s c" "b_dirty (bufs s' b) = b_dirty (bufs s b)" "\<not> b_busy (bufs s b)"
proof -
  obtain p h where s': "s' = s\<lparr>bufs := (bufs s)(b := p), hw := h\<rparr>" and "h_writes h = h_writes (hw s)"
    "b_dev p = 1" "b_sector p = sec" "b_busy p" "b_valid p" "b_dirty p = b_dirty (bufs s b)"
    "if b_dirty p then b_dev (bufs s b) = 1 \<and> b_sector (bufs s b) = sec \<and> b_data p = b_data (bufs s b)
     else b_data p = ide_block s (unat sec)" "b < NBUF" "\<not> b_busy (bufs s b)"
    using assms unfolding fetched_def by blast
  then show "b < NBUF" "b_busy (bufs s' b)" "b_valid (bufs s' b)" "b_dev (bufs s' b) = 1" "b_sector (bufs s' b) = sec"
    "h_writes (hw s') = h_writes (hw s)" "clean_ok (ide_block s) (bufs s' b)" "\<exists>B h. s' = s\<lparr>bufs := B, hw := h\<rparr>"
    "c \<noteq> b \<Longrightarrow> bufs s' c = bufs s c" "b_dirty (bufs s' b) = b_dirty (bufs s b)" "\<not> b_busy (bufs s b)"
    by (auto simp: clean_ok_def)
qed

lemma overwrite_block:
  assumes r: "ide_ready i s" and ok: "bcache_ok xs s" and b: "b < NBUF" "b_busy (bufs s b)" "b_dev (bufs s b) = 1"
    and d: "length d = 512" "n = unat (b_sector (bufs s b))"
  shows "\<exists>t u. bwrite b (set_data b d s) = Ret () t \<and> brelse b t = Ret () u \<and> (\<exists>B h. u = s\<lparr>bufs := B, hw := h\<rparr>) \<and>
    ide_ready i u \<and> bcache_ok (b # remove1 b xs) u \<and> blk u = (blk s)(n := d) \<and> ide_block u = (ide_block s)(n := d) \<and>
    h_writes (hw u) = h_writes (hw s) @ [(True, n, d)] \<and>
    (\<forall>c. c \<noteq> b \<longrightarrow> same_core (bufs u c) (bufs s c)) \<and> \<not> b_busy (bufs u b) \<and> \<not> b_dirty (bufs u b)"
proof -
  let ?s = "set_data b d s"
  note sd = set_data_ok [OF ok b(1,2) d(1)]
  have r': "ide_ready i ?s" using r sd(2) by blast
  have b': "b_busy (bufs ?s b)" "b_dev (bufs ?s b) = 1" "unat (b_sector (bufs ?s b)) = n" "b_data (bufs ?s b) = d"
    using b d(2) unfolding sd(4) by simp_all
  obtain t where w: "bwrite b ?s = Ret () t" using bwrite_ok [OF r' sd(1) b(1) b'(1,2)] by blast
  note wc = bwrite_cache [OF r' sd(1) b(1) b'(1,2) w, unfolded b'] and wb = bwrite_blk(1) [OF r' sd(1) b(1) b'(1,2) w, unfolded b']
  have "clean_ok (ide_block t) (bufs t b)" using wc(4,11,12) b' by (simp add: clean_ok_def)
  then obtain u where u: "brelse b t = Ret () u" "u = t\<lparr>bufs := bufs u\<rparr>" "ide_ready i u" "bcache_ok (b # remove1 b xs) u"
    "blk u = blk t" "\<not> b_busy (bufs u b)" "\<forall>c. c \<noteq> b \<longrightarrow> same_core (bufs u c) (bufs t c)"
    "same_core (bufs u b) ((bufs t b)\<lparr>b_busy := False\<rparr>)"
    using brelse_cache [OF wc(1,2) b(1) wc(7)] by blast
  have D: "ide_block ?s = ide_block s" by (simp add: ide_block_def sd(3))
  have hw: "hw u = hw t" using arg_cong [OF u(2), of hw] by simp
  have fr: "\<exists>B h. u = s\<lparr>bufs := B, hw := h\<rparr>"
  proof -
    obtain B h where "t = ?s\<lparr>bufs := B, hw := h\<rparr>" using wc(3) by blast
    then have "t\<lparr>bufs := X\<rparr> = s\<lparr>bufs := X, hw := h\<rparr>" for X by (simp add: set_data_def upd_buf_def)
    then show ?thesis using u(2) by metis
  qed
  have "blk u = (blk s)(n := d)"
    using u(5) wb sd(5) b(3) d(2) by (auto simp: fun_eq_iff)
  moreover have "ide_block u = (ide_block s)(n := d)" using wc(4) D hw by (simp add: ide_block_def)
  moreover have "h_writes (hw u) = h_writes (hw s) @ [(True, n, d)]" using wc(5) hw sd(3) by simp
  moreover have "same_core (bufs u c) (bufs s c)" if "c \<noteq> b" for c using u(7) [rule_format, OF that] wc(6) [OF that] sd(4) that by simp
  moreover have "\<not> b_dirty (bufs u b)" using same_coreD [OF u(8)] wc(9) by simp
  ultimately show ?thesis using w u(1,3,4,6) fr by blast
qed

text \<open>
  C14. The cache is transparent, and keeps its invariant and its order. When process \<open>i\<close> reads a sector
  and a buffer is available, \<open>bread\<close> returns a buffer it alone holds with the current contents of the
  sector (those of a dirty buffer, or those on the disk), without writing to the disk; \<open>brelse\<close> then
  makes that buffer the most recently used one of the list. Both leave the contents of every sector,
  the ring of buffers and the agreement of the cache with the disk as they should be.
\<close>

theorem bread_brelse_transparent:
  assumes "ide_ready i s" and "bcache_ok xs s" and "unat sec < 2 ^ 28" and "available sec s"
  shows "\<exists>b t u. bread 1 sec s = Ret b t \<and> \<not> b_busy (bufs s b) \<and> b_busy (bufs t b) \<and> b_data (bufs t b) = blk s (unat sec) \<and>
    bcache_ok xs t \<and> blk t = blk s \<and> brelse b t = Ret () u \<and> bcache_ok (b # remove1 b xs) u \<and> blk u = blk s \<and>
    \<not> b_busy (bufs u b) \<and> h_writes (hw u) = h_writes (hw s)"
proof -
  obtain b t where br: "bread 1 sec s = Ret b t" and f: "fetched b sec s t" using bread_fetched [OF assms] by blast
  note fo = fetched_ok [OF assms(1,2) f assms(3)] and fh = fetched_held [OF f]
  obtain u where u: "brelse b t = Ret () u" "u = t\<lparr>bufs := bufs u\<rparr>" "bcache_ok (b # remove1 b xs) u" "blk u = blk t" "\<not> b_busy (bufs u b)"
    using brelse_cache [OF fo(1,2) fh(1,2)] fh(7) fo(4) by auto
  have "hw u = hw t" using arg_cong [OF u(2), of hw] by simp
  then show ?thesis using br u fo fh by auto
qed

definition boot_buf :: buf where
  "boot_buf = \<lparr>b_busy = False, b_valid = False, b_dirty = False, b_dev = 0, b_sector = 0, b_prev = 0, b_next = 0,
     b_qnext = None, b_data = replicate 512 0\<rparr>"

lemma binit_establishes_cache_witness:
  "bcache_ok (rev [0..<NBUF]) (binit (disk_example (\<lambda>_. boot_buf)))"
  using binit_establishes_cache [of "disk_example (\<lambda>_. boot_buf)"]
  by (simp add: boot_buf_def ide_block_def disk_example_def)

lemma boot_cache:
  defines "s \<equiv> binit (disk_example (\<lambda>_. boot_buf))"
  shows "bcache_ok (rev [0..<NBUF]) s" "ide_ready 0 s" "available sec s" "blk s n = replicate 512 0"
proof -
  let ?d = "disk_example (\<lambda>_. boot_buf)"
  have b: "bcache_ok (rev [0..<NBUF]) s" "s = (initlock Bcache_lock ''bcache'' ?d)\<lparr>bufs := bufs s\<rparr>"
    "\<forall>b<NBUF. b_dev (bufs s b) = - 1 \<and> \<not> b_busy (bufs s b) \<and> \<not> b_dirty (bufs s b)"
    using binit_ok [of ?d] unfolding s_def by (simp_all add: boot_buf_def ide_block_def disk_example_def)
  show "bcache_ok (rev [0..<NBUF]) s" by (rule b(1))
  have "ide_ready 0 ((initlock Bcache_lock ''bcache'' ?d)\<lparr>bufs := B\<rparr>)" for B
    using disk_example_ctx [of "\<lambda>_. boot_buf"] by (simp add: ide_ready_def user_ctx_def quiet_def initlock_def)
  then show "ide_ready 0 s" using b(2) by metis
  show "available sec s" using b(3) unfolding available_def by (intro conjI exI [of _ "0 :: nat"]) simp_all
  have "dirties s = {}" using b(3) by (auto simp: dirties_def)
  moreover have "hw s = hw ?d" using arg_cong [OF b(2), of hw] by (simp add: initlock_def)
  ultimately show "blk s n = replicate 512 0" by (simp add: blk_clean ide_block_def disk_example_def)
qed

lemma bread_brelse_transparent_witness:
  "\<exists>b t. bread 1 7 (binit (disk_example (\<lambda>_. boot_buf))) = Ret b t \<and> b_data (bufs t b) = replicate 512 0"
  using bread_brelse_transparent [OF boot_cache(2,1), of 7] boot_cache(3,4) by auto

end
