(* ===== verification/Log.thy ===== *)
theory Log
  imports Bio
begin

text \<open>
  The redo log (\<open>log.c\<close>): a transaction collects blocks in the log area, its commit is the write of the
  header block, and the blocks are then copied home. \<open>readsb\<close> of \<open>fs.c\<close>, which \<open>initlog\<close> calls, is here
  too.
\<close>

section \<open>State\<close>

record log_state = ide_state +
  log_start :: int
  log_size :: int
  log_busy :: bool
  log_dev :: uint
  lh_n :: int
  lh_sector :: "uint list"

abbreviation LOGSIZE :: nat where "LOGSIZE \<equiv> 10"
abbreviation BSIZE :: nat where "BSIZE \<equiv> 512"
abbreviation ROOTDEV :: uint where "ROOTDEV \<equiv> 1"

record superblock =
  sb_size :: uint
  sb_nblocks :: uint
  sb_ninodes :: uint
  sb_nlog :: uint

definition readsb :: "uint \<Rightarrow> 'm ide_state_scheme \<Rightarrow> (superblock, 'm ide_state_scheme) kres" where
  "readsb dev s =
     bind (bread dev 1 s) (\<lambda>bp s.
     let d = b_data (bufs s bp);
         sb = \<lparr>sb_size = ld32 d 0, sb_nblocks = ld32 d 4, sb_ninodes = ld32 d 8, sb_nlog = ld32 d 12\<rparr>
     in bind (brelse bp s) (\<lambda>_ s. Ret sb s))"

text \<open>The sector of block \<open>k\<close> of the log area.\<close>

definition log_block :: "int \<Rightarrow> 'm log_state_scheme \<Rightarrow> uint" where
  "log_block k s = word_of_int (log_start s + k)"

section \<open>Transactions\<close>

definition install_block :: "nat \<Rightarrow> 'm log_state_scheme \<Rightarrow> (unit, 'm log_state_scheme) kres" where
  "install_block tail s =
     bind (bread (log_dev s) (log_block (int tail + 1) s) s) (\<lambda>lbuf s.
     bind (bread (log_dev s) (lh_sector s ! tail) s) (\<lambda>dbuf s.
     let s = set_data dbuf (b_data (bufs s lbuf)) s
     in bind (bwrite dbuf s) (\<lambda>_ s.
        bind (brelse lbuf s) (\<lambda>_ s.
        brelse dbuf s))))"

definition install_trans :: "'m log_state_scheme \<Rightarrow> (unit, 'm log_state_scheme) kres" where
  "install_trans s = kfor install_block [0..<nat (lh_n s)] s"

text \<open>A header that claims more than \<open>LOGSIZE\<close> blocks makes \<open>read_head\<close> write outside \<open>log.lh\<close>.\<close>

definition read_head :: "'m log_state_scheme \<Rightarrow> (unit, 'm log_state_scheme) kres" where
  "read_head s =
     bind (bread (log_dev s) (log_block 0 s) s) (\<lambda>buf s.
     let d = b_data (bufs s buf);
         n = sint (ld32 d 0);
         s = s\<lparr>lh_n := n\<rparr>
     in if n > int LOGSIZE then Undef
        else let s = s\<lparr>lh_sector := fold (\<lambda>i l. l[i := ld32 d (4 + 4 * i)]) [0..<nat n] (lh_sector s)\<rparr>
             in brelse buf s)"

definition head_bytes :: "int \<Rightarrow> uint list \<Rightarrow> byte list \<Rightarrow> byte list" where
  "head_bytes n secs d =
     fold (\<lambda>i d. st32 d (4 + 4 * i) (secs ! i)) [0..<nat n] (st32 d 0 (word_of_int n))"

definition write_head :: "'m log_state_scheme \<Rightarrow> (unit, 'm log_state_scheme) kres" where
  "write_head s =
     bind (bread (log_dev s) (log_block 0 s) s) (\<lambda>buf s.
     let s = set_data buf (head_bytes (lh_n s) (lh_sector s) (b_data (bufs s buf))) s
     in bind (bwrite buf s) (\<lambda>_ s.
        brelse buf s))"

definition recover_from_log :: "'m log_state_scheme \<Rightarrow> (unit, 'm log_state_scheme) kres" where
  "recover_from_log s =
     bind (read_head s) (\<lambda>_ s.
     bind (install_trans s) (\<lambda>_ s.
     write_head (s\<lparr>lh_n := 0\<rparr>)))"

definition initlog :: "'m log_state_scheme \<Rightarrow> (unit, 'm log_state_scheme) kres" where
  "initlog s =
     (if 4 + 4 * LOGSIZE \<ge> BSIZE then Panic ''initlog: too big logheader''
      else let s = initlock Log_lock ''log'' s
           in bind (readsb ROOTDEV s) (\<lambda>sb s.
              recover_from_log
                (s\<lparr>log_start := sint (sb_size sb - sb_nlog sb), log_size := sint (sb_nlog sb),
                   log_dev := ROOTDEV\<rparr>)))"

text \<open>\<open>begin_trans\<close> up to its sleep, and what follows it.\<close>

definition begin_trans_loop :: "'m log_state_scheme \<Rightarrow> (unit, 'm log_state_scheme) kres" where
  "begin_trans_loop s =
     (if log_busy s then sleep Log_chan (Some Log_lock) s
      else release Log_lock (s\<lparr>log_busy := True\<rparr>))"

definition begin_trans :: "'m log_state_scheme \<Rightarrow> (unit, 'm log_state_scheme) kres" where
  "begin_trans s = bind (acquire Log_lock s) (\<lambda>_ s. begin_trans_loop s)"

definition begin_trans_resume :: "bool \<Rightarrow> 'm log_state_scheme \<Rightarrow> (unit, 'm log_state_scheme) kres" where
  "begin_trans_resume intena s =
     bind (sleep_resume Log_lock intena s) (\<lambda>_ s. begin_trans_loop s)"

definition commit_trans :: "'m log_state_scheme \<Rightarrow> (unit, 'm log_state_scheme) kres" where
  "commit_trans s =
     bind (if lh_n s > 0
           then bind (write_head s) (\<lambda>_ s.
                bind (install_trans s) (\<lambda>_ s.
                write_head (s\<lparr>lh_n := 0\<rparr>)))
           else Ret () s) (\<lambda>_ s.
     bind (acquire Log_lock s) (\<lambda>_ s.
     bind (wakeup (Some Log_chan) (s\<lparr>log_busy := False\<rparr>)) (\<lambda>_ s.
     release Log_lock s)))"

text \<open>The search for the sector among the ones already logged: its index, or \<open>log.lh.n\<close>.\<close>

definition log_slot :: "uint \<Rightarrow> 'm log_state_scheme \<Rightarrow> nat" where
  "log_slot sector s =
     (case first_index (nat (lh_n s)) (\<lambda>i. lh_sector s ! i = sector) of Some i \<Rightarrow> i | None \<Rightarrow> nat (lh_n s))"

definition log_write :: "nat \<Rightarrow> 'm log_state_scheme \<Rightarrow> (unit, 'm log_state_scheme) kres" where
  "log_write b s =
     (if lh_n s \<ge> int LOGSIZE \<or> lh_n s \<ge> log_size s - 1 then Panic ''too big a transaction''
      else if \<not> log_busy s then Panic ''write outside of trans''
      else let i = log_slot (b_sector (bufs s b)) s;
               s = s\<lparr>lh_sector := (lh_sector s)[i := b_sector (bufs s b)]\<rparr>
           in bind (bread (b_dev (bufs s b)) (log_block (int i + 1) s) s) (\<lambda>lbuf s.
              let s = set_data lbuf (b_data (bufs s b)) s
              in bind (bwrite lbuf s) (\<lambda>_ s.
                 bind (brelse lbuf s) (\<lambda>_ s.
                 let s = (if int i = lh_n s then s\<lparr>lh_n := lh_n s + 1\<rparr> else s)
                 in Ret () (upd_buf b (\<lambda>p. p\<lparr>b_dirty := True\<rparr>) s)))))"

section \<open>Words in a block, written and read\<close>

lemma st32_length [simp]: "length (st32 d k w) = length d"
  by (simp add: st32_def)

lemma ld32_st32 [simp]: "k + 3 < length d \<Longrightarrow> ld32 (st32 d k w) k = w"
  by (simp add: ld32_def st32_def word_of_bytes)

lemma ld32_st32_other [simp]: "j + 3 < k \<or> k + 3 < j \<Longrightarrow> ld32 (st32 d j w) k = ld32 d k"
  by (auto simp: ld32_def st32_def)

lemma st32_fold_length [simp]: "length (fold (\<lambda>i d. st32 d (f i) (g i)) xs d) = length d"
  by (induction xs arbitrary: d) auto

text \<open>The header block that \<open>write_head\<close> makes is what \<open>read_head\<close> reads.\<close>

lemma head_bytes_length [simp]: "length (head_bytes n secs d) = length d"
  by (simp add: head_bytes_def)

lemma ld32_slot: "k \<noteq> j \<Longrightarrow> ld32 (st32 d (4 + 4 * j) w) (4 + 4 * k) = ld32 d (4 + 4 * k)"
  by (rule ld32_st32_other) arith

lemma head_fold:
  "k \<notin> set xs \<Longrightarrow> ld32 (fold (\<lambda>i d. st32 d (4 + 4 * i) (f i)) xs d) (4 + 4 * k) = ld32 d (4 + 4 * k)"
  "ld32 (fold (\<lambda>i d. st32 d (4 + 4 * i) (f i)) xs d) 0 = ld32 d 0"
  by (induction xs arbitrary: d) (auto simp: ld32_slot)

lemma head_fold_get:
  "k \<in> set xs \<Longrightarrow> distinct xs \<Longrightarrow> 7 + 4 * k < length d \<Longrightarrow>
   ld32 (fold (\<lambda>i d. st32 d (4 + 4 * i) (f i)) xs d) (4 + 4 * k) = f k"
  by (induction xs arbitrary: d) (auto simp: head_fold)

lemma head_bytes_get:
  assumes "length d = 512" and "0 \<le> n" and "n \<le> int LOGSIZE"
  shows "sint (ld32 (head_bytes n secs d) 0) = n"
    and "k < nat n \<Longrightarrow> ld32 (head_bytes n secs d) (4 + 4 * k) = secs ! k"
proof -
  have "ld32 (head_bytes n secs d) 0 = word_of_int n" using assms(1) by (simp add: head_bytes_def head_fold)
  moreover have "sint (word_of_int n :: uint) = n" using assms(2,3) by (simp add: int_word_sint)
  ultimately show "sint (ld32 (head_bytes n secs d) 0) = n" by simp
  show "k < nat n \<Longrightarrow> ld32 (head_bytes n secs d) (4 + 4 * k) = secs ! k"
    using assms by (simp add: head_bytes_def head_fold_get)
qed

section \<open>One block at a time\<close>

lemma blk_length: "bcache_ok xs s \<Longrightarrow> length (blk s n) = 512"
proof (cases "n \<in> fst ` dirties s")
  case True
  assume ok: "bcache_ok xs s"
  obtain b where "b < NBUF" "(n, b_data (bufs s b)) \<in> dirties s" using True unfolding dirties_def by fastforce
  then show ?thesis using blk_dirty [OF ok] bcache_okD(4) [OF ok] by (metis buf_ok_def)
qed (simp add: blk_clean bcache_okD(3))

text \<open>Process \<open>i\<close> runs and nobody holds a buffer; at least two buffers are not dirty.\<close>

definition settled :: "nat \<Rightarrow> 'm ide_state_scheme \<Rightarrow> bool" where
  "settled i s \<longleftrightarrow> ide_ready i s \<and> (\<exists>xs. bcache_ok xs s) \<and> (\<forall>b<NBUF. \<not> b_busy (bufs s b)) \<and>
     (\<exists>b c. b < NBUF \<and> c < NBUF \<and> b \<noteq> c \<and> \<not> b_dirty (bufs s b) \<and> \<not> b_dirty (bufs s c))"

text \<open>The disk after a sequence of writes.\<close>

definition apply_writes :: "(nat \<times> byte list) list \<Rightarrow> (nat \<Rightarrow> byte list) \<Rightarrow> nat \<Rightarrow> byte list" where
  "apply_writes ws D = fold (\<lambda>(n, d) D. D(n := d)) ws D"

lemma apply_writes_simps [simp]:
  "apply_writes [] D = D" "apply_writes ((n, d) # ws) D = apply_writes ws (D(n := d))"
  "apply_writes (ws @ ws') D = apply_writes ws' (apply_writes ws D)"
  by (simp_all add: apply_writes_def)

lemma apply_writes_other: "m \<notin> fst ` set ws \<Longrightarrow> apply_writes ws D m = D m"
  by (induction ws arbitrary: D) auto

lemma apply_writes_cong:
  "D m = E m \<Longrightarrow> apply_writes ws D m = apply_writes ws E m"
proof (induction ws arbitrary: D E)
  case (Cons w ws)
  obtain n d where w: "w = (n, d)" by force
  have "(D(n := d)) m = (E(n := d)) m" using Cons.prems by simp
  then show ?case unfolding w apply_writes_simps by (rule Cons.IH)
qed simp

text \<open>Between \<open>s\<close> and \<open>u\<close> the blocks of \<open>ws\<close> were written through, in this order.\<close>

definition wrote :: "nat \<Rightarrow> (nat \<times> byte list) list \<Rightarrow> 'm ide_state_scheme \<Rightarrow> 'm ide_state_scheme \<Rightarrow> bool" where
  "wrote i ws s u \<longleftrightarrow> (\<exists>B h. u = s\<lparr>bufs := B, hw := h\<rparr>) \<and> settled i u \<and>
     blk u = apply_writes ws (blk s) \<and> ide_block u = apply_writes ws (ide_block s) \<and>
     h_writes (hw u) = h_writes (hw s) @ map (\<lambda>(n, d). (True, n, d)) ws"

lemma disk_frame_trans:
  "\<exists>B h. t = s\<lparr>bufs := B, hw := h\<rparr> \<Longrightarrow> \<exists>B h. u = t\<lparr>bufs := B, hw := h\<rparr> \<Longrightarrow> \<exists>B h. u = s\<lparr>bufs := B, hw := h\<rparr>"
  by (elim exE, intro exI) simp

lemma bufs_frame_trans:
  assumes "\<exists>B h. v = s\<lparr>bufs := B, hw := h\<rparr>" and "u = v\<lparr>bufs := bufs u\<rparr>"
  shows "\<exists>B h. u = s\<lparr>bufs := B, hw := h\<rparr>"
proof -
  obtain B h where "v = s\<lparr>bufs := B, hw := h\<rparr>" using assms(1) by blast
  then have "v\<lparr>bufs := X\<rparr> = s\<lparr>bufs := X, hw := h\<rparr>" for X by simp
  then show ?thesis using assms(2) by metis
qed

lemma wroteD:
  assumes "wrote i ws s u"
  shows "blk u = apply_writes ws (blk s)" "ide_block u = apply_writes ws (ide_block s)" "settled i u"
    "h_writes (hw u) = h_writes (hw s) @ map (\<lambda>(n, d). (True, n, d)) ws" "\<exists>B h. u = s\<lparr>bufs := B, hw := h\<rparr>"
  using assms unfolding wrote_def by blast+

lemma wrote_refl: "settled i s \<Longrightarrow> wrote i [] s s"
  unfolding wrote_def by (intro conjI exI [of _ "bufs s"] exI [of _ "hw s"]) simp_all

lemma wrote_trans: "wrote i ws s t \<Longrightarrow> wrote i ws' t u \<Longrightarrow> wrote i (ws @ ws') s u"
  using disk_frame_trans [of t s u] unfolding wrote_def by simp

lemma settled_available: "settled i s \<Longrightarrow> available sec s"
  unfolding settled_def available_def by blast

text \<open>Cleaning one buffer keeps two clean ones.\<close>

lemma two_clean_mono:
  assumes "\<exists>b c. b < NBUF \<and> c < NBUF \<and> b \<noteq> c \<and> \<not> b_dirty (bufs s b) \<and> \<not> b_dirty (bufs s c)"
    and "\<And>b. b < NBUF \<Longrightarrow> b_dirty (bufs u b) \<Longrightarrow> b_dirty (bufs s b)"
  shows "\<exists>b c. b < NBUF \<and> c < NBUF \<and> b \<noteq> c \<and> \<not> b_dirty (bufs u b) \<and> \<not> b_dirty (bufs u c)"
  using assms by blast

lemma rewrite_block:
  assumes "settled i s" and "unat sec < 2 ^ 28"
  shows "\<exists>b t. bread 1 sec s = Ret b t \<and> (\<exists>B h. t = s\<lparr>bufs := B, hw := h\<rparr>) \<and> b_data (bufs t b) = blk s (unat sec) \<and>
    (\<forall>d. length d = 512 \<longrightarrow> (\<exists>v u. bwrite b (set_data b d t) = Ret () v \<and> brelse b v = Ret () u \<and> wrote i [(unat sec, d)] s u))"
proof -
  obtain xs where r: "ide_ready i s" and ok: "bcache_ok xs s" and nb: "\<forall>b<NBUF. \<not> b_busy (bufs s b)"
    and tc: "\<exists>b c. b < NBUF \<and> c < NBUF \<and> b \<noteq> c \<and> \<not> b_dirty (bufs s b) \<and> \<not> b_dirty (bufs s c)"
    using assms(1) unfolding settled_def by blast
  obtain b t where br: "bread 1 sec s = Ret b t" and f: "fetched b sec s t"
    using bread_fetched [OF r ok assms(2) settled_available [OF assms(1)]] by blast
  note fo = fetched_ok [OF r ok f assms(2)] and fh = fetched_held [OF f]
  have "\<exists>v u. bwrite b (set_data b d t) = Ret () v \<and> brelse b v = Ret () u \<and> wrote i [(unat sec, d)] s u" if len: "length d = 512" for d
  proof -
    obtain v u where u: "bwrite b (set_data b d t) = Ret () v" "brelse b v = Ret () u" "\<exists>B h. u = t\<lparr>bufs := B, hw := h\<rparr>"
      "ide_ready i u" "bcache_ok (b # remove1 b xs) u" "blk u = (blk t)(unat sec := d)" "ide_block u = (ide_block t)(unat sec := d)"
      "h_writes (hw u) = h_writes (hw t) @ [(True, unat sec, d)]" "\<forall>c. c \<noteq> b \<longrightarrow> same_core (bufs u c) (bufs t c)"
      "\<not> b_busy (bufs u b)" "\<not> b_dirty (bufs u b)"
      using overwrite_block [OF fo(1,2) fh(1,2,4) len, of "unat sec"] fh(5) by blast
    have core: "b_busy (bufs u c) = b_busy (bufs s c) \<and> b_dirty (bufs u c) = b_dirty (bufs s c)" if "c \<noteq> b" for c
      using same_coreD [OF u(9) [rule_format, OF that]] fh(9) [OF that] by simp
    have "\<forall>c<NBUF. \<not> b_busy (bufs u c)" using core nb u(10) by metis
    moreover have "b_dirty (bufs u c) \<Longrightarrow> b_dirty (bufs s c)" for c using core [of c] u(11) by (cases "c = b") auto
    ultimately have "settled i u" using u(4,5) two_clean_mono [OF tc] unfolding settled_def by blast
    moreover have "\<exists>B h. u = s\<lparr>bufs := B, hw := h\<rparr>" using disk_frame_trans [OF fh(8) u(3)] .
    ultimately have "wrote i [(unat sec, d)] s u" using u(6-8) fo(4,6) fh(6) by (simp add: wrote_def)
    then show ?thesis using u(1,2) by blast
  qed
  then show ?thesis using br fo(5) fh(8) by blast
qed

text \<open>Copying a block of the log home.\<close>

lemma install_block_wrote:
  assumes "settled i s" and "log_dev s = 1" and "unat (log_block (int k + 1) s) < 2 ^ 28" and "unat (lh_sector s ! k) < 2 ^ 28"
    and "lh_sector s ! k \<noteq> log_block (int k + 1) s"
  shows "\<exists>u. install_block k s = Ret () u \<and>
    wrote i [(unat (lh_sector s ! k), blk s (unat (log_block (int k + 1) s)))] s u"
proof -
  let ?l = "log_block (int k + 1) s" and ?h = "lh_sector s ! k"
  obtain xs where r: "ide_ready i s" and ok: "bcache_ok xs s" and nb: "\<forall>b<NBUF. \<not> b_busy (bufs s b)"
    and tc: "\<exists>b c. b < NBUF \<and> c < NBUF \<and> b \<noteq> c \<and> \<not> b_dirty (bufs s b) \<and> \<not> b_dirty (bufs s c)"
    using assms(1) unfolding settled_def by blast
  obtain l t where br: "bread 1 ?l s = Ret l t" and f: "fetched l ?l s t"
    using bread_fetched [OF r ok assms(3) settled_available [OF assms(1)]] by blast
  note fo = fetched_ok [OF r ok f assms(3)] and fh = fetched_held [OF f]
  have tb: "b_busy (bufs t b) = (b = l)" if "b < NBUF" for b using fh(2) fh(9) [of b] nb that by (cases "b = l") auto
  have "available ?h t"
  proof -
    obtain b where "b < NBUF" "b \<noteq> l" "\<not> b_dirty (bufs s b)" using tc by metis
    then have "b < NBUF" "\<not> b_busy (bufs t b)" "\<not> b_dirty (bufs t b)" using tb [of b] fh(9) [of b] by simp_all
    moreover have "\<not> b_busy (bufs t c)" if "c < NBUF" "b_sector (bufs t c) = ?h" for c using that tb fh(5) assms(5) by metis
    ultimately show ?thesis unfolding available_def by blast
  qed
  then obtain b t2 where br2: "bread 1 ?h t = Ret b t2" and g: "fetched b ?h t t2"
    using bread_fetched [OF fo(1,2) assms(4)] by blast
  note go = fetched_ok [OF fo(1,2) g assms(4)] and gh = fetched_held [OF g]
  have lb: "l \<noteq> b" using gh(11) fh(2) by auto
  have data: "b_data (bufs t2 l) = blk s (unat ?l)" using gh(9) [OF lb] fo(5) by simp
  let ?d = "blk s (unat ?l)" and ?n = "unat ?h"
  have len: "length ?d = 512" using bcache_okD(4) [OF fo(2) fh(1)] fo(5) by (simp add: buf_ok_def)
  note sd = set_data_ok [OF go(2) gh(1,2) len]
  let ?t3 = "set_data b ?d t2"
  have r3: "ide_ready i ?t3" using go(1) sd(2) by blast
  have b3: "b_busy (bufs ?t3 b)" "b_dev (bufs ?t3 b) = 1" "unat (b_sector (bufs ?t3 b)) = ?n" "b_data (bufs ?t3 b) = ?d"
    using gh(2,4,5) unfolding sd(4) by simp_all
  obtain v where w: "bwrite b ?t3 = Ret () v" using bwrite_ok [OF r3 sd(1) gh(1) b3(1,2)] by blast
  note wc = bwrite_cache [OF r3 sd(1) gh(1) b3(1,2) w, unfolded b3] and wb = bwrite_blk(1) [OF r3 sd(1) gh(1) b3(1,2) w, unfolded b3]
  have vl: "bufs v l = bufs t l" using wc(6) [OF lb] sd(4) gh(9) [OF lb] lb by simp
  have D: "ide_block v = (ide_block s)(?n := ?d)" using wc(4) go(4) fo(4) by (simp add: ide_block_def sd(3))
  have "unat ?l \<noteq> ?n" using assms(5) by (auto simp: word_unat_eq_iff)
  then have "clean_ok (ide_block v) (bufs v l)" using fh(5,7) unfolding D vl by (simp add: clean_ok_def)
  moreover have "b_busy (bufs v l)" using vl fh(2) by simp
  ultimately obtain u1 where u1: "brelse l v = Ret () u1" "u1 = v\<lparr>bufs := bufs u1\<rparr>" "ide_ready i u1"
    "bcache_ok (l # remove1 l xs) u1" "blk u1 = blk v" "\<not> b_busy (bufs u1 l)" "\<forall>c. c \<noteq> l \<longrightarrow> same_core (bufs u1 c) (bufs v c)"
    "same_core (bufs u1 l) ((bufs v l)\<lparr>b_busy := False\<rparr>)"
    using brelse_cache [OF wc(1,2) fh(1)] by blast
  have ub: "b_busy (bufs u1 b)" "b_data (bufs u1 b) = ?d" "unat (b_sector (bufs u1 b)) = ?n" "\<not> b_dirty (bufs u1 b)"
    using same_coreD [OF u1(7) [rule_format, OF lb [symmetric]]] wc(7,9,11,12) b3 by auto
  have h1: "hw u1 = hw v" using arg_cong [OF u1(2), of hw] by simp
  then have D1: "ide_block u1 = (ide_block s)(?n := ?d)" using D by (simp add: ide_block_def)
  have "clean_ok (ide_block u1) (bufs u1 b)" using ub by (simp add: clean_ok_def D1)
  then obtain u where u: "brelse b u1 = Ret () u" "u = u1\<lparr>bufs := bufs u\<rparr>" "ide_ready i u" "\<exists>ys. bcache_ok ys u" "blk u = blk u1"
    "\<not> b_busy (bufs u b)" "\<forall>c. c \<noteq> b \<longrightarrow> same_core (bufs u c) (bufs u1 c)" "same_core (bufs u b) ((bufs u1 b)\<lparr>b_busy := False\<rparr>)"
    using brelse_cache [OF u1(3,4) gh(1) ub(1)] by blast
  have rest: "b_busy (bufs u c) = b_busy (bufs s c) \<and> b_dirty (bufs u c) = b_dirty (bufs s c)" if "c \<noteq> b" "c \<noteq> l" for c
    using same_coreD [OF u(7) [rule_format, OF that(1)]] same_coreD [OF u1(7) [rule_format, OF that(2)]] wc(6) [OF that(1)]
      gh(9) [OF that(1)] fh(9) [OF that(2)] sd(4) that(1) by simp
  have at_l: "\<not> b_busy (bufs u l)" "b_dirty (bufs u l) = b_dirty (bufs s l)"
    using same_coreD [OF u(7) [rule_format, OF lb]] same_coreD [OF u1(8)] vl fh(10) by simp_all
  have at_b: "\<not> b_dirty (bufs u b)" using same_coreD [OF u(8)] ub(4) by simp
  have "\<not> b_busy (bufs u c)" if "c < NBUF" for c using rest [of c] at_l(1) u(6) nb that by (cases "c = b"; cases "c = l") auto
  moreover have "b_dirty (bufs s c)" if "b_dirty (bufs u c)" for c using rest [of c] at_l(2) at_b that by (cases "c = b"; cases "c = l") auto
  ultimately have "settled i u" using u(3,4) two_clean_mono [OF tc] unfolding settled_def by blast
  moreover have "\<exists>B h. v = ?t3\<lparr>bufs := B, hw := h\<rparr>" using wc(3) .
  then have "\<exists>B h. v = t2\<lparr>bufs := B, hw := h\<rparr>" by (elim exE, intro exI) (simp add: set_data_def upd_buf_def)
  then have "\<exists>B h. u = t2\<lparr>bufs := B, hw := h\<rparr>" using bufs_frame_trans [OF bufs_frame_trans [OF _ u1(2)] u(2)] by blast
  then have "\<exists>B h. u = s\<lparr>bufs := B, hw := h\<rparr>" using disk_frame_trans [OF disk_frame_trans [OF fh(8) gh(8)]] by blast
  moreover have "blk u = (blk s)(?n := ?d)"
    using u(5) u1(5) wb sd(5) gh(4,5) go(6) fo(6) by (auto simp: fun_eq_iff)
  moreover have "hw u = hw v" using arg_cong [OF u(2), of hw] h1 by simp
  then have "ide_block u = (ide_block s)(?n := ?d)" "h_writes (hw u) = h_writes (hw s) @ [(True, ?n, ?d)]"
    using D wc(5) gh(6) fh(6) by (simp_all add: ide_block_def sd(3))
  ultimately have "wrote i [(?n, ?d)] s u" by (simp add: wrote_def)
  moreover have "log_dev t = 1" "lh_sector t = lh_sector s" using fh(8) assms(2) by auto
  then have "install_block k s = Ret () u"
    using br br2 data w u1(1) u(1) assms(2) by (simp add: install_block_def Let_def)
  ultimately show ?thesis by blast
qed

section \<open>The log area\<close>

text \<open>
  The log is in order: the header and the blocks lie on the disk, the sectors of the transaction are
  outside the log area, and no block of the log area is dirty in the cache.
\<close>

abbreviation log_at :: "'m log_state_scheme \<Rightarrow> nat" where
  "log_at s \<equiv> nat (log_start s)"

definition home :: "'m log_state_scheme \<Rightarrow> nat \<Rightarrow> nat" where
  "home s k = unat (lh_sector s ! k)"

definition log_ok :: "nat \<Rightarrow> 'm log_state_scheme \<Rightarrow> bool" where
  "log_ok i s \<longleftrightarrow> settled i s \<and> log_dev s = 1 \<and> 0 \<le> log_start s \<and> log_start s + int LOGSIZE < 2 ^ 28 \<and>
     length (lh_sector s) = LOGSIZE \<and> 0 \<le> lh_n s \<and> lh_n s \<le> int LOGSIZE \<and>
     (\<forall>k<nat (lh_n s). home s k < 2 ^ 28 \<and> home s k \<notin> {log_at s..log_at s + LOGSIZE}) \<and>
     (\<forall>k\<le>LOGSIZE. blk s (log_at s + k) = ide_block s (log_at s + k))"

lemma log_block_unat:
  assumes "0 \<le> log_start s" and "log_start s + int LOGSIZE < 2 ^ 28" and "k \<le> LOGSIZE"
  shows "unat (log_block (int k) s) = log_at s + k"
proof -
  have "log_start s + int k = int (log_at s + k)" using assms(1) by simp
  then have "log_block (int k) s = of_nat (log_at s + k)" unfolding log_block_def by (metis of_int_of_nat_eq)
  moreover have "log_at s + k < 2 ^ 32" using assms by simp
  ultimately show ?thesis by (simp add: unat_of_nat del: of_nat_add)
qed

text \<open>The log record of a state after some writes.\<close>

lemma wrote_log [simp]:
  assumes "wrote i ws s u"
  shows "log_start u = log_start s" "log_dev u = log_dev s" "lh_n u = lh_n s" "lh_sector u = lh_sector s"
    "log_busy u = log_busy s" "log_size u = log_size s" "home u = home s" "log_block k u = log_block k s"
  using assms unfolding wrote_def home_def log_block_def by auto

lemma write_head_wrote:
  assumes "settled i s" and "log_dev s = 1" and "0 \<le> log_start s" and "log_start s + int LOGSIZE < 2 ^ 28"
  shows "\<exists>u. write_head s = Ret () u \<and> wrote i [(log_at s, head_bytes (lh_n s) (lh_sector s) (blk s (log_at s)))] s u"
proof -
  have sec: "unat (log_block 0 s) = log_at s" using log_block_unat [OF assms(3,4), of 0] by simp
  then have "unat (log_block 0 s) < 2 ^ 28" using assms(3,4) by simp
  then obtain b t where t: "bread 1 (log_block 0 s) s = Ret b t" "\<exists>B h. t = s\<lparr>bufs := B, hw := h\<rparr>" "b_data (bufs t b) = blk s (log_at s)"
    "\<And>d. length d = 512 \<Longrightarrow> \<exists>v u. bwrite b (set_data b d t) = Ret () v \<and> brelse b v = Ret () u \<and> wrote i [(log_at s, d)] s u"
    using rewrite_block [OF assms(1)] sec by metis
  have "length (blk s (log_at s)) = 512" using assms(1) blk_length unfolding settled_def by blast
  then obtain v u where "bwrite b (set_data b (head_bytes (lh_n s) (lh_sector s) (blk s (log_at s))) t) = Ret () v"
    "brelse b v = Ret () u" "wrote i [(log_at s, head_bytes (lh_n s) (lh_sector s) (blk s (log_at s)))] s u"
    using t(4) [of "head_bytes (lh_n s) (lh_sector s) (blk s (log_at s))"] by auto
  moreover have "lh_n t = lh_n s" "lh_sector t = lh_sector s" using t(2) by auto
  ultimately show ?thesis using t(1,3) assms(2) by (simp add: write_head_def Let_def)
qed

lemma install_trans_wrote:
  assumes "log_ok i s"
  shows "m \<le> nat (lh_n s) \<Longrightarrow> \<exists>u. kfor install_block [0..<m] s = Ret () u \<and>
    wrote i (map (\<lambda>k. (home s k, ide_block s (log_at s + Suc k))) [0..<m]) s u"
proof (induction m)
  case 0
  have "settled i s" using assms unfolding log_ok_def by blast
  then show ?case using wrote_refl by auto
next
  case (Suc m)
  let ?ws = "map (\<lambda>k. (home s k, ide_block s (log_at s + Suc k))) [0..<m]"
  have ok: "0 \<le> log_start s" "log_start s + int LOGSIZE < 2 ^ 28" "log_dev s = 1"
    "\<And>k. k < nat (lh_n s) \<Longrightarrow> home s k < 2 ^ 28 \<and> home s k \<notin> {log_at s..log_at s + LOGSIZE}"
    "\<And>k. k \<le> LOGSIZE \<Longrightarrow> blk s (log_at s + k) = ide_block s (log_at s + k)" "lh_n s \<le> int LOGSIZE"
    using assms unfolding log_ok_def by auto
  obtain t where t: "kfor install_block [0..<m] s = Ret () t" "wrote i ?ws s t" using Suc by auto
  have m: "m < nat (lh_n s)" "Suc m \<le> LOGSIZE" using Suc.prems ok(6) by auto
  have lb: "unat (log_block (int m + 1) t) = log_at s + Suc m"
    using log_block_unat [OF ok(1,2) m(2)] wrote_log(8) [OF t(2)] by (simp add: add.commute)
  have "log_at s + Suc m \<noteq> home s k" if "k < m" for k
    using ok(4) [of k] that m by (metis atLeastAtMost_iff le_add1 nat_add_left_cancel_le order_less_trans)
  then have out: "log_at s + Suc m \<notin> fst ` set ?ws" unfolding set_map image_image fst_conv set_upt by force
  have blk: "blk t (log_at s + Suc m) = ide_block s (log_at s + Suc m)"
    by (simp only: wroteD(1) [OF t(2)] apply_writes_other [OF out] ok(5) [OF m(2)])
  have h: "unat (lh_sector t ! m) = home s m" using wrote_log(4) [OF t(2)] by (simp add: home_def)
  have "log_at s + Suc m \<in> {log_at s..log_at s + LOGSIZE}" using m(2) by simp
  then have hm: "home s m < 2 ^ 28" "home s m \<noteq> log_at s + Suc m" using ok(4) [OF m(1)] by metis+
  have ne: "lh_sector t ! m \<noteq> log_block (int m + 1) t" using h lb hm(2) by metis
  have st: "settled i t" using t(2) unfolding wrote_def by blast
  have dev: "log_dev t = 1" using wrote_log(2) [OF t(2)] ok(3) by simp
  have "unat (log_block (int m + 1) t) < 2 ^ 28" unfolding lb using ok(1,2) m(2) by simp
  then obtain u where u: "install_block m t = Ret () u" "wrote i [(home s m, ide_block s (log_at s + Suc m))] t u"
    using install_block_wrote [OF st dev _ _ ne] hm(1) unfolding h lb blk by blast
  have "kfor install_block [0..<Suc m] s = Ret () u" using t(1) u(1) by (simp add: kfor_append)
  moreover have "wrote i (map (\<lambda>k. (home s k, ide_block s (log_at s + Suc k))) [0..<Suc m]) s u"
    using wrote_trans [OF t(2) u(2)] by simp
  ultimately show ?case by blast
qed

section \<open>Commit and recovery\<close>

text \<open>The writes of a commit: the header, the blocks to their homes, the cleared header.\<close>

definition new_blocks :: "'m log_state_scheme \<Rightarrow> (nat \<times> byte list) list" where
  "new_blocks s = map (\<lambda>k. (home s k, ide_block s (log_at s + Suc k))) [0..<nat (lh_n s)]"

lemma log_ok_head:
  "log_ok i s \<Longrightarrow> wrote i [(log_at s, d)] s u \<Longrightarrow> length d = 512 \<Longrightarrow> log_ok i u \<and> new_blocks u = new_blocks s"
proof -
  assume ok: "log_ok i s" and w: "wrote i [(log_at s, d)] s u"
  have "blk u (log_at s + k) = ide_block u (log_at s + k)" if "k \<le> LOGSIZE" for k
    using ok w that unfolding wrote_def log_ok_def by simp
  moreover have "settled i u" using w by (simp add: wrote_def)
  ultimately have "log_ok i u" using ok w unfolding log_ok_def by simp
  moreover have "ide_block u (log_at s + Suc k) = ide_block s (log_at s + Suc k)" for k using w by (simp add: wrote_def)
  ultimately show "log_ok i u \<and> new_blocks u = new_blocks s" using w by (simp add: new_blocks_def)
qed

definition commit_writes :: "'m log_state_scheme \<Rightarrow> byte list \<Rightarrow> (nat \<times> byte list) list" where
  "commit_writes s d = (log_at s, head_bytes (lh_n s) (lh_sector s) (blk s (log_at s))) # new_blocks s @ [(log_at s, d)]"

lemma lh_upd [simp]:
  "ide_ready i (s\<lparr>lh_n := n\<rparr>) = ide_ready i s" "bcache_ok xs (s\<lparr>lh_n := n\<rparr>) = bcache_ok xs s" "settled i (s\<lparr>lh_n := n\<rparr>) = settled i s"
  "blk (s\<lparr>lh_n := n\<rparr>) = blk s" "ide_block (s\<lparr>lh_n := n\<rparr>) = ide_block s"
  "ide_ready i (s\<lparr>lh_n := n, lh_sector := l\<rparr>) = ide_ready i s" "bcache_ok xs (s\<lparr>lh_n := n, lh_sector := l\<rparr>) = bcache_ok xs s"
  "settled i (s\<lparr>lh_n := n, lh_sector := l\<rparr>) = settled i s"
  "blk (s\<lparr>lh_n := n, lh_sector := l\<rparr>) = blk s" "ide_block (s\<lparr>lh_n := n, lh_sector := l\<rparr>) = ide_block s"
  by (simp_all add: ide_ready_def user_ctx_def quiet_def bcache_ok_def settled_def blk_def ide_block_def fun_eq_iff split: option.split)

lemma wrote_lh_n:
  assumes "wrote i ws s t"
  shows "wrote i ws (s\<lparr>lh_n := n\<rparr>) (t\<lparr>lh_n := n\<rparr>)"
proof -
  obtain B h where "t = s\<lparr>bufs := B, hw := h\<rparr>" using wroteD(5) [OF assms] by blast
  then have "\<exists>B h. t\<lparr>lh_n := n\<rparr> = s\<lparr>lh_n := n, bufs := B, hw := h\<rparr>" by (intro exI [of _ B] exI [of _ h]) simp
  then show ?thesis unfolding wrote_def using wroteD(1-4) [OF assms] by simp
qed

text \<open>Installing and clearing the header, which commit and recovery share.\<close>

lemma install_clear:
  assumes "log_ok i s"
  shows "\<exists>t u d. install_trans s = Ret () t \<and> write_head (t\<lparr>lh_n := 0\<rparr>) = Ret () u \<and>
    wrote i (new_blocks s @ [(log_at s, d)]) (s\<lparr>lh_n := 0\<rparr>) u \<and> length d = 512 \<and> sint (ld32 d 0) = 0"
proof -
  obtain t where t: "install_trans s = Ret () t" "wrote i (new_blocks s) s t"
    using install_trans_wrote [OF assms order_refl] by (auto simp: install_trans_def new_blocks_def)
  let ?t = "t\<lparr>lh_n := 0\<rparr>"
  have w: "wrote i (new_blocks s) (s\<lparr>lh_n := 0\<rparr>) ?t" by (rule wrote_lh_n [OF t(2)])
  have st: "settled i ?t" using w by (simp add: wrote_def)
  let ?d = "head_bytes 0 (lh_sector ?t) (blk ?t (log_at s))"
  obtain u where u: "write_head ?t = Ret () u" "wrote i [(log_at s, ?d)] ?t u"
    using write_head_wrote [OF st] assms t(2) by (auto simp: log_ok_def)
  have len: "length (blk ?t (log_at s)) = 512" using st blk_length unfolding settled_def by blast
  then have "length ?d = 512" "sint (ld32 ?d 0) = 0" using head_bytes_get(1) [OF len, of 0] by simp_all
  then show ?thesis using t(1) u wrote_trans [OF w u(2)] by blast
qed

text \<open>Reading the header.\<close>

lemma fold_list_update:
  "n \<le> length l \<Longrightarrow> length (fold (\<lambda>i l. l[i := f i]) [0..<n] l) = length l \<and>
   (\<forall>k<n. fold (\<lambda>i l. l[i := f i]) [0..<n] l ! k = f k)"
  by (induction n) (auto simp: nth_list_update less_Suc_eq)

lemma read_head_ok:
  assumes st: "settled i s" and log: "log_dev s = 1" "0 \<le> log_start s" "log_start s + int LOGSIZE < 2 ^ 28"
    and n: "sint (ld32 (blk s (log_at s)) 0) = n" "n \<le> int LOGSIZE" and len: "length (lh_sector s) = LOGSIZE"
  shows "\<exists>u. read_head s = Ret () u \<and> settled i u \<and> blk u = blk s \<and> ide_block u = ide_block s \<and> h_writes (hw u) = h_writes (hw s) \<and>
    lh_n u = n \<and> length (lh_sector u) = LOGSIZE \<and> (\<forall>k<nat n. lh_sector u ! k = ld32 (blk s (log_at s)) (4 + 4 * k)) \<and>
    log_start u = log_start s \<and> log_dev u = 1"
proof -
  let ?d = "blk s (log_at s)"
  let ?l = "fold (\<lambda>i l. l[i := ld32 ?d (4 + 4 * i)]) [0..<nat n] (lh_sector s)"
  have sec: "unat (log_block 0 s) = log_at s" using log_block_unat [OF log(2,3), of 0] by simp
  then have lt: "unat (log_block 0 s) < 2 ^ 28" using log by simp
  obtain xs where r: "ide_ready i s" and ok: "bcache_ok xs s" and nb: "\<forall>b<NBUF. \<not> b_busy (bufs s b)"
    and tc: "\<exists>b c. b < NBUF \<and> c < NBUF \<and> b \<noteq> c \<and> \<not> b_dirty (bufs s b) \<and> \<not> b_dirty (bufs s c)"
    using st unfolding settled_def by blast
  obtain b t where br: "bread 1 (log_block 0 s) s = Ret b t" and f: "fetched b (log_block 0 s) s t"
    using bread_fetched [OF r ok lt settled_available [OF st]] by blast
  note fo = fetched_ok [OF r ok f lt] and fh = fetched_held [OF f]
  let ?t = "t\<lparr>lh_n := n, lh_sector := ?l\<rparr>"
  have "ide_ready i ?t" "bcache_ok xs ?t" "b_busy (bufs ?t b)" "clean_ok (ide_block ?t) (bufs ?t b)"
    using fo(1,2,4) fh(2,7) by simp_all
  then obtain u where u: "brelse b ?t = Ret () u" "u = ?t\<lparr>bufs := bufs u\<rparr>" "ide_ready i u" "bcache_ok (b # remove1 b xs) u"
    "blk u = blk ?t" "\<not> b_busy (bufs u b)" "\<forall>c. c \<noteq> b \<longrightarrow> same_core (bufs u c) (bufs ?t c)"
    "same_core (bufs u b) ((bufs ?t b)\<lparr>b_busy := False\<rparr>)"
    using brelse_cache [of i ?t xs b] fh(1) by blast
  have rest: "b_busy (bufs u c) = b_busy (bufs s c) \<and> b_dirty (bufs u c) = b_dirty (bufs s c)" if "c \<noteq> b" for c
    using same_coreD [OF u(7) [rule_format, OF that]] fh(9) [OF that] by simp
  have "\<not> b_busy (bufs u c)" if "c < NBUF" for c using rest [of c] nb that u(6) by (cases "c = b") auto
  moreover have "b_dirty (bufs s c)" if "b_dirty (bufs u c)" for c
    using rest [of c] same_coreD [OF u(8)] fh(10) that by (cases "c = b") auto
  ultimately have "settled i u" using u(3,4) two_clean_mono [OF tc] unfolding settled_def by blast
  moreover have hw: "hw u = hw t" "lh_n u = n" "lh_sector u = ?l" "log_start u = log_start t" "log_dev u = log_dev t"
    using arg_cong [OF u(2), of hw] arg_cong [OF u(2), of lh_n] arg_cong [OF u(2), of lh_sector] arg_cong [OF u(2), of log_start]
      arg_cong [OF u(2), of log_dev] by simp_all
  moreover have "log_start t = log_start s" "log_dev t = 1" "lh_sector t = lh_sector s" using fh(8) log(1) by auto
  moreover have "ide_block u = ide_block s" using hw(1) fo(4) by (simp add: ide_block_def)
  moreover have "read_head s = Ret () u"
    using br log(1) fo(5) sec n u(1) calculation(9) by (simp add: read_head_def Let_def)
  ultimately show ?thesis using u(5) fo(6) fh(6) fold_list_update [of "nat n" "lh_sector s"] n(2) len by auto
qed

text \<open>What the header and the log area of a disk say is to be installed.\<close>

definition logged :: "(nat \<Rightarrow> byte list) \<Rightarrow> nat \<Rightarrow> (nat \<times> byte list) list" where
  "logged D l = map (\<lambda>k. (unat (ld32 (D l) (4 + 4 * k)), D (l + Suc k))) [0..<nat (sint (ld32 (D l) 0))]"

text \<open>The state recovery starts in: after a boot nothing in the cache is dirty.\<close>

definition booted :: "nat \<Rightarrow> nat \<Rightarrow> (nat \<Rightarrow> byte list) \<Rightarrow> 'm log_state_scheme \<Rightarrow> bool" where
  "booted i l D s \<longleftrightarrow> settled i s \<and> dirties s = {} \<and> ide_block s = D \<and> log_dev s = 1 \<and> log_start s = int l \<and> length (lh_sector s) = LOGSIZE"

lemma recover_ok:
  assumes b: "booted i l D s" and l: "l + LOGSIZE < 2 ^ 28" and n: "0 \<le> sint (ld32 (D l) 0)" "sint (ld32 (D l) 0) \<le> int LOGSIZE"
    and home: "\<forall>m\<in>fst ` set (logged D l). m < 2 ^ 28 \<and> m \<notin> {l..l + LOGSIZE}"
  shows "\<exists>u d. recover_from_log s = Ret () u \<and> settled i u \<and> lh_n u = 0 \<and> sint (ld32 d 0) = 0 \<and>
    ide_block u = (apply_writes (logged D l) D)(l := d)"
proof -
  have bD: "settled i s" "log_dev s = 1" "log_start s = int l" "length (lh_sector s) = LOGSIZE" "ide_block s = D" "blk s = D"
    using b unfolding booted_def by (auto simp: fun_eq_iff blk_clean)
  let ?n = "sint (ld32 (D l) 0)"
  have L: "log_at s = l" using bD(3) by simp
  have s0: "0 \<le> log_start s" "log_start s + int LOGSIZE < 2 ^ 28" using bD(3) l by simp_all
  obtain t where t: "read_head s = Ret () t" "settled i t" "blk t = D" "ide_block t = D" "lh_n t = ?n" "length (lh_sector t) = LOGSIZE"
    "\<forall>k<nat ?n. lh_sector t ! k = ld32 (D l) (4 + 4 * k)" "log_start t = int l" "log_dev t = 1"
    using read_head_ok [OF bD(1,2) s0 _ n(2) bD(4)] bD(3,5,6) L by auto
  have L': "log_at t = l" using t(8) by simp
  have nb: "new_blocks t = logged D l" using t(4,5,7,8) unfolding new_blocks_def logged_def home_def by auto
  have "home t k \<in> fst ` set (logged D l)" if "k < nat (lh_n t)" for k
    unfolding nb [symmetric] new_blocks_def using that by force
  then have "\<forall>k<nat (lh_n t). home t k < 2 ^ 28 \<and> home t k \<notin> {log_at t..log_at t + LOGSIZE}" unfolding L' using home by blast
  then have ok: "log_ok i t" unfolding log_ok_def using t s0 bD(3) n by simp
  obtain t' u d where u: "install_trans t = Ret () t'" "write_head (t'\<lparr>lh_n := 0\<rparr>) = Ret () u"
    "wrote i (logged D l @ [(l, d)]) (t\<lparr>lh_n := 0\<rparr>) u" "sint (ld32 d 0) = 0"
    using install_clear [OF ok] unfolding L' nb by blast
  have "recover_from_log s = Ret () u" using t(1) u(1,2) by (simp add: recover_from_log_def)
  moreover have "ide_block u = (apply_writes (logged D l) D)(l := d)" using wroteD(2) [OF u(3)] t(4) by simp
  moreover have "lh_n u = 0" using wrote_log(3) [OF u(3)] by simp
  ultimately show ?thesis using wroteD(3) [OF u(3)] u(4) by blast
qed

text \<open>The end of \<open>commit_trans\<close>.\<close>

lemma log_lock_frame [simp]:
  "lh_n (take_lock l s) = lh_n s" "lh_n (drop_lock l s) = lh_n s" "lh_n (wakeup1 c s) = lh_n s"
  "log_busy (take_lock l s) = log_busy s" "log_busy (drop_lock l s) = log_busy s" "log_busy (wakeup1 c s) = log_busy s"
  by (simp_all add: take_lock_def drop_lock_def pushcli_def wakeup1_eq Let_def)

lemma commit_end:
  assumes "user_ctx i s"
  shows "\<exists>t. bind (acquire Log_lock s) (\<lambda>_ s. bind (wakeup (Some Log_chan) (s\<lparr>log_busy := False\<rparr>)) (\<lambda>_ s. release Log_lock s)) = Ret () t \<and>
    hw t = hw s \<and> lh_n t = lh_n s \<and> \<not> log_busy t"
proof -
  let ?s = "(take_lock Log_lock s)\<lparr>log_busy := False\<rparr>"
  let ?u = "wakeup1 (Some Log_chan) (take_lock Ptable_lock ?s)"
  let ?v = "drop_lock Ptable_lock ?u"
  have ok: "cpu_ok s" "unlocked Log_lock s" "unlocked Ptable_lock s" using assms by (auto simp: user_ctx_def cpu_ok_def unlocked_def)
  then have s: "unlocked Ptable_lock ?s" "cpu_ok ?s" "holding Log_lock ?s" by (auto simp: unlocked_def cpu_ok_def holding_def)
  have "release Ptable_lock ?u = Ret () ?v" using s(2) by (intro release_held) (auto simp: holding_def cpu_ok_def)
  moreover have "release Log_lock ?v = Ret () (drop_lock Log_lock ?v)"
    using s ok by (intro release_held) (auto simp: holding_def cpu_ok_def)
  ultimately show ?thesis using ok(2) s(1) by (auto simp: acquire_free wakeup_def)
qed

lemma commit_trans_ok:
  assumes "log_ok i s" and "0 < lh_n s"
  shows "\<exists>t d. commit_trans s = Ret () t \<and> lh_n t = 0 \<and> \<not> log_busy t \<and> length d = 512 \<and> sint (ld32 d 0) = 0 \<and>
    h_writes (hw t) = h_writes (hw s) @ map (\<lambda>(n, d). (True, n, d)) (commit_writes s d) \<and>
    ide_block t = apply_writes (commit_writes s d) (ide_block s)"
proof -
  let ?h = "head_bytes (lh_n s) (lh_sector s) (blk s (log_at s))"
  have ok: "settled i s" "log_dev s = 1" "0 \<le> log_start s" "log_start s + int LOGSIZE < 2 ^ 28" using assms(1) unfolding log_ok_def by blast+
  obtain t where t: "write_head s = Ret () t" "wrote i [(log_at s, ?h)] s t" using write_head_wrote [OF ok] by blast
  have "length ?h = 512" using ok(1) blk_length unfolding settled_def by (metis head_bytes_length)
  then have okt: "log_ok i t" "new_blocks t = new_blocks s" using log_ok_head [OF assms(1) t(2)] by blast+
  obtain t' u d where u: "install_trans t = Ret () t'" "write_head (t'\<lparr>lh_n := 0\<rparr>) = Ret () u"
    "wrote i (new_blocks s @ [(log_at s, d)]) (t\<lparr>lh_n := 0\<rparr>) u" "length d = 512" "sint (ld32 d 0) = 0"
    using install_clear [OF okt(1)] wrote_log(1) [OF t(2)] unfolding okt(2) by auto
  have w: "wrote i (commit_writes s d) (s\<lparr>lh_n := 0\<rparr>) u"
    using wrote_trans [OF wrote_lh_n [OF t(2)] u(3)] by (simp add: commit_writes_def)
  have uc: "user_ctx i u" using wroteD(3) [OF w] by (simp add: settled_def ide_ready_def)
  obtain v where v: "bind (acquire Log_lock u) (\<lambda>_ s. bind (wakeup (Some Log_chan) (s\<lparr>log_busy := False\<rparr>)) (\<lambda>_ s. release Log_lock s)) = Ret () v"
    "hw v = hw u" "lh_n v = lh_n u" "\<not> log_busy v" using commit_end [OF uc] by auto
  have "commit_trans s = Ret () v" using assms(2) t(1) u(1,2) v(1) by (simp add: commit_trans_def)
  moreover have "lh_n v = 0" using wrote_log(3) [OF w] v(3) by simp
  ultimately show ?thesis using u(4,5) v(2,4) wroteD(2,4) [OF w] by (auto simp: ide_block_def)
qed

section \<open>A crash in the middle of a commit\<close>

lemma apply_writes_absorb: "m \<in> fst ` set ws \<Longrightarrow> apply_writes ws D m = apply_writes ws E m"
proof (induction ws arbitrary: D E)
  case (Cons w ws)
  obtain n d where w: "w = (n, d)" by force
  show ?case
  proof (cases "m \<in> fst ` set ws")
    case True
    then show ?thesis unfolding w apply_writes_simps by (rule Cons.IH)
  next
    case False
    then have "m = n" using Cons.prems w by auto
    then show ?thesis unfolding w apply_writes_simps by (intro apply_writes_cong) simp
  qed
qed simp

lemma apply_writes_redo: "apply_writes ws (apply_writes (take j ws) D) = apply_writes ws D"
proof
  fix m
  show "apply_writes ws (apply_writes (take j ws) D) m = apply_writes ws D m"
  proof (cases "m \<in> fst ` set ws")
    case True
    then show ?thesis by (rule apply_writes_absorb)
  next
    case False
    moreover have "m \<notin> fst ` set (take j ws)" using False set_take_subset [of j ws] by auto
    ultimately show ?thesis by (simp add: apply_writes_other)
  qed
qed

text \<open>The disk after a prefix of the writes of a commit: what recovery finds on it.\<close>

lemma crash_logged:
  assumes ok: "log_ok i s" and hdr: "sint (ld32 (ide_block s (log_at s)) 0) = 0" and d: "sint (ld32 d 0) = 0"
    and D: "D = apply_writes (take k (commit_writes s d)) (ide_block s)"
  shows "logged D (log_at s) = [] \<and> sint (ld32 (D (log_at s)) 0) = 0 \<and>
       (k = 0 \<and> D = ide_block s \<or> D = apply_writes (commit_writes s d) (ide_block s))
     \<or> logged D (log_at s) = new_blocks s \<and> sint (ld32 (D (log_at s)) 0) = lh_n s \<and>
       (\<exists>j h. D = apply_writes (take j (new_blocks s)) ((ide_block s)(log_at s := h)))"
proof -
  let ?L = "log_at s" and ?h = "head_bytes (lh_n s) (lh_sector s) (blk s (log_at s))"
  have n: "0 \<le> lh_n s" "lh_n s \<le> int LOGSIZE" using ok unfolding log_ok_def by blast+
  have len: "length (blk s ?L) = 512" using ok blk_length unfolding log_ok_def settled_def by blast
  have home: "\<forall>k<nat (lh_n s). home s k \<notin> {?L..?L + LOGSIZE}" using ok unfolding log_ok_def by blast
  have out: "?L + m \<notin> fst ` set (new_blocks s)" if "m \<le> LOGSIZE" for m
  proof
    assume "?L + m \<in> fst ` set (new_blocks s)"
    then obtain k where "k < nat (lh_n s)" "home s k = ?L + m" unfolding new_blocks_def by force
    moreover have "?L + m \<in> {?L..?L + LOGSIZE}" using that by simp
    ultimately show False using home by metis
  qed
  consider "k = 0" | "length (commit_writes s d) \<le> k" | j where "k = Suc j" "j \<le> length (new_blocks s)"
    unfolding commit_writes_def using not_less_eq_eq by (cases k) force+
  then show ?thesis
  proof cases
    case 1
    then show ?thesis using D hdr by (simp add: logged_def)
  next
    case 2
    then have "D = apply_writes (commit_writes s d) (ide_block s)" using D by simp
    moreover have "D ?L = d" unfolding calculation commit_writes_def by simp
    ultimately show ?thesis using d by (simp add: logged_def)
  next
    case (3 j)
    let ?ws = "take j (new_blocks s)"
    have De: "D = apply_writes ?ws ((ide_block s)(?L := ?h))" using D 3 by (simp add: commit_writes_def)
    have sub: "fst ` set ?ws \<subseteq> fst ` set (new_blocks s)" using set_take_subset by fast
    have DL: "D (?L + m) = ((ide_block s)(?L := ?h)) (?L + m)" if "m \<le> LOGSIZE" for m
      unfolding De by (rule apply_writes_other) (use out [OF that] sub in blast)
    have h0: "D ?L = ?h" using DL [of 0] by simp
    have hn: "sint (ld32 (D ?L) 0) = lh_n s" unfolding h0 by (rule head_bytes_get(1) [OF len n])
    have "logged D ?L = new_blocks s" unfolding logged_def hn new_blocks_def
    proof (rule map_cong [OF refl])
      fix x assume "x \<in> set [0..<nat (lh_n s)]"
      then have x: "x < nat (lh_n s)" "Suc x \<le> LOGSIZE" using n by auto
      show "(unat (ld32 (D ?L) (4 + 4 * x)), D (?L + Suc x)) = (home s x, ide_block s (?L + Suc x))"
        using DL [OF x(2)] head_bytes_get(2) [OF len n x(1)] unfolding h0 home_def by simp
    qed
    then show ?thesis using De hn by blast
  qed
qed

lemma crash_recover:
  assumes ok: "log_ok i s" and n: "0 < lh_n s" and hdr: "sint (ld32 (ide_block s (log_at s)) 0) = 0" and d: "sint (ld32 d 0) = 0"
    and b: "booted j (log_at s) (apply_writes (take k (commit_writes s d)) (ide_block s)) r"
  shows "\<exists>u. recover_from_log r = Ret () u \<and> lh_n u = 0 \<and> sint (ld32 (ide_block u (log_at s)) 0) = 0 \<and>
    (\<forall>m. m \<noteq> log_at s \<longrightarrow> ide_block u m = (if k = 0 then ide_block s m else apply_writes (new_blocks s) (ide_block s) m))"
proof -
  let ?L = "log_at s" and ?D = "ide_block s" and ?nb = "new_blocks s"
  define E where "E = apply_writes (take k (commit_writes s d)) ?D"
  have lim: "0 \<le> lh_n s" "lh_n s \<le> int LOGSIZE" "?L + LOGSIZE < 2 ^ 28" using ok unfolding log_ok_def by auto
  have hm: "\<forall>m\<in>fst ` set ?nb. m < 2 ^ 28 \<and> m \<notin> {?L..?L + LOGSIZE}" using ok unfolding log_ok_def new_blocks_def by simp
  have E: "logged E ?L = [] \<and> sint (ld32 (E ?L) 0) = 0 \<and> (k = 0 \<and> E = ?D \<or> E = apply_writes (commit_writes s d) ?D) \<or>
      logged E ?L = ?nb \<and> sint (ld32 (E ?L) 0) = lh_n s \<and> (\<exists>j h. E = apply_writes (take j ?nb) (?D(?L := h)))"
    using crash_logged [OF ok hdr d E_def] .
  then have "0 \<le> sint (ld32 (E ?L) 0)" "sint (ld32 (E ?L) 0) \<le> int LOGSIZE" using lim by auto
  moreover have "\<forall>m\<in>fst ` set (logged E ?L). m < 2 ^ 28 \<and> m \<notin> {?L..?L + LOGSIZE}" using E hm by (metis empty_iff image_empty list.set(1))
  ultimately obtain u e where u: "recover_from_log r = Ret () u" "lh_n u = 0" "sint (ld32 e 0) = 0"
    "ide_block u = (apply_writes (logged E ?L) E)(?L := e)" using recover_ok [OF b [folded E_def] lim(3)] by blast
  have "apply_writes (logged E ?L) E m = (if k = 0 then ?D m else apply_writes ?nb ?D m)" if "m \<noteq> ?L" for m
  proof -
    have new: "apply_writes ?nb (?D(?L := h)) m = apply_writes ?nb ?D m" for h using that by (intro apply_writes_cong) simp
    have k0: "E = ?D" if "k = 0" using that by (simp add: E_def)
    from E show ?thesis
    proof (elim disjE conjE exE)
      fix j h assume "logged E ?L = ?nb" "sint (ld32 (E ?L) 0) = lh_n s" "E = apply_writes (take j ?nb) (?D(?L := h))"
      moreover have "k \<noteq> 0" using calculation(2) k0 hdr n by force
      ultimately show ?thesis using new apply_writes_redo by metis
    next
      assume l: "logged E ?L = []" and "E = apply_writes (commit_writes s d) ?D"
      then have "E m = apply_writes ?nb ?D m" using new that by (simp add: commit_writes_def)
      then show ?thesis using l k0 by (cases "k = 0") simp_all
    qed (simp add: k0)
  qed
  then show ?thesis using u by simp
qed

text \<open>
  C1. A transaction is atomic with respect to crashes. Let \<open>commit_trans\<close> run on a transaction of \<open>n > 0\<close>
  blocks, with no transaction pending on the disk. It returns with the transaction over and the new
  blocks at their homes. If the machine stops after any number of the writes to the disk it makes, and
  the kernel then boots on the disk it finds, \<open>recover_from_log\<close> returns with a disk that, apart from the
  header block of the log, is the one before the commit or the one with all the new blocks, and with no
  transaction pending. Whether a crash keeps or loses the transaction is decided by the single write of
  the header.
\<close>

theorem commit_crash_atomic:
  assumes ok: "log_ok i s" and n: "0 < lh_n s" and hdr: "sint (ld32 (ide_block s (log_at s)) 0) = 0"
  shows "\<exists>t ws. commit_trans s = Ret () t \<and> lh_n t = 0 \<and> \<not> log_busy t \<and>
    h_writes (hw t) = h_writes (hw s) @ map (\<lambda>(m, d). (True, m, d)) ws \<and>
    (\<forall>m. m \<noteq> log_at s \<longrightarrow> ide_block t m = apply_writes (new_blocks s) (ide_block s) m) \<and>
    (\<forall>k j (r :: log_state). booted j (log_at s) (apply_writes (take k ws) (ide_block s)) r \<longrightarrow>
       (\<exists>u. recover_from_log r = Ret () u \<and> lh_n u = 0 \<and> sint (ld32 (ide_block u (log_at s)) 0) = 0 \<and>
          ((\<forall>m. m \<noteq> log_at s \<longrightarrow> ide_block u m = (if k = 0 then ide_block s m
             else apply_writes (new_blocks s) (ide_block s) m)))))"
proof -
  let ?L = "log_at s" and ?D = "ide_block s"
  obtain t d where t: "commit_trans s = Ret () t" "lh_n t = 0" "\<not> log_busy t" "sint (ld32 d 0) = 0"
    "h_writes (hw t) = h_writes (hw s) @ map (\<lambda>(m, d). (True, m, d)) (commit_writes s d)"
    "ide_block t = apply_writes (commit_writes s d) ?D" using commit_trans_ok [OF ok n] by blast
  have new: "apply_writes (new_blocks s) (?D(?L := h)) m = apply_writes (new_blocks s) ?D m" if "m \<noteq> ?L" for m h
    using that by (intro apply_writes_cong) simp
  have cw: "apply_writes (commit_writes s d) ?D m = apply_writes (new_blocks s) ?D m" if "m \<noteq> ?L" for m
    using that new by (simp add: commit_writes_def)
  show ?thesis
  proof (intro exI [of _ t] exI [of _ "commit_writes s d"] conjI allI impI)
    show "ide_block t m = apply_writes (new_blocks s) ?D m" if "m \<noteq> ?L" for m using t(6) cw [OF that] by simp
    show "\<exists>u. recover_from_log r = Ret () u \<and> lh_n u = 0 \<and> sint (ld32 (ide_block u ?L) 0) = 0 \<and>
        (\<forall>m. m \<noteq> ?L \<longrightarrow> ide_block u m = (if k = 0 then ?D m else apply_writes (new_blocks s) ?D m))"
      if "booted j ?L (apply_writes (take k (commit_writes s d)) ?D) r" for k j and r :: log_state
      by (rule crash_recover [OF ok n hdr t(4) that])
  qed (rule t)+
qed

text \<open>A kernel after boot, with a transaction of one block for sector 3 in its log.\<close>

definition log_example :: "int \<Rightarrow> uint list \<Rightarrow> log_state" where
  "log_example n secs = ide_state.extend (binit (disk_example (\<lambda>_. boot_buf))) (log_state.fields 100 11 True 1 n secs)"

lemma log_example_simps [simp]:
  "bufs (log_example n secs) = bufs (binit (disk_example (\<lambda>_. boot_buf)))"
  "hw (log_example n secs) = hw (binit (disk_example (\<lambda>_. boot_buf)))"
  "log_start (log_example n secs) = 100" "log_dev (log_example n secs) = 1" "lh_n (log_example n secs) = n"
  "lh_sector (log_example n secs) = secs" "log_busy (log_example n secs)" "log_size (log_example n secs) = 11"
  by (simp_all add: log_example_def ide_state.defs log_state.defs)

lemma boot_clean:
  defines "r \<equiv> binit (disk_example (\<lambda>_. boot_buf))"
  shows "\<forall>b<NBUF. b_dev (bufs r b) = - 1 \<and> \<not> b_busy (bufs r b) \<and> \<not> b_dirty (bufs r b)" and "hw r = hw (disk_example (\<lambda>_. boot_buf))"
proof -
  let ?d = "disk_example (\<lambda>_. boot_buf)"
  have b: "binit ?d = (initlock Bcache_lock ''bcache'' ?d)\<lparr>bufs := bufs (binit ?d)\<rparr>"
    "\<forall>b<NBUF. b_dev (bufs (binit ?d) b) = - 1 \<and> \<not> b_busy (bufs (binit ?d) b) \<and> \<not> b_dirty (bufs (binit ?d) b)"
    using binit_ok [of ?d] by (simp_all add: boot_buf_def ide_block_def disk_example_def)
  show "\<forall>b<NBUF. b_dev (bufs r b) = - 1 \<and> \<not> b_busy (bufs r b) \<and> \<not> b_dirty (bufs r b)" unfolding r_def by (rule b(2))
  show "hw r = hw ?d" unfolding r_def using arg_cong [OF b(1), of hw] by (simp add: initlock_def)
qed

lemma log_example_settled: "settled 0 (log_example n secs)" "blk (log_example n secs) = (\<lambda>_. replicate 512 0)"
  "ide_block (log_example n secs) = (\<lambda>_. replicate 512 0)" "dirties (log_example n secs) = {}"
proof -
  let ?r = "binit (disk_example (\<lambda>_. boot_buf))" and ?s = "log_example n secs"
  have r: "bcache_ok (rev [0..<NBUF]) ?r" "ide_ready 0 ?r" by (rule boot_cache)+
  have c: "\<forall>b<NBUF. b_dev (bufs ?r b) = - 1 \<and> \<not> b_busy (bufs ?r b) \<and> \<not> b_dirty (bufs ?r b)"
    by (rule boot_clean(1))
  have d: "ide_block ?s = (\<lambda>_. replicate 512 0)" unfolding ide_block_def log_example_simps boot_clean(2) by (simp add: disk_example_def)
  have "bcache_ok (rev [0..<NBUF]) ?s" using r(1) by (simp add: bcache_ok_def ide_block_def)
  moreover have "ide_ready 0 ?s"
    using r(2) by (simp add: ide_ready_def user_ctx_def quiet_def log_example_def ide_state.defs)
  moreover have "0 < NBUF" "1 < NBUF" by simp_all
  ultimately show "settled 0 ?s" unfolding settled_def using c by (metis log_example_simps(1) zero_neq_one)
  show dir: "dirties ?s = {}" using c by (auto simp: dirties_def)
  show "ide_block ?s = (\<lambda>_. replicate 512 0)" by (rule d)
  show "blk ?s = (\<lambda>_. replicate 512 0)" using dir d by (auto simp: fun_eq_iff blk_clean)
qed

lemma commit_crash_atomic_witness:
  "\<exists>t. commit_trans (log_example 1 (3 # replicate 9 0)) = Ret () t \<and> lh_n t = 0 \<and>
     (\<exists>u. recover_from_log (log_example 0 (replicate 10 0)) = Ret () u)"
proof -
  let ?s = "log_example 1 (3 # replicate 9 0)"
  have ok: "log_ok 0 ?s" by (auto simp: log_ok_def log_example_settled home_def)
  have "sint (ld32 (ide_block ?s (log_at ?s)) 0) = 0" by (simp add: log_example_settled ld32_def)
  moreover have "booted 0 (log_at ?s) (apply_writes (take 0 ws) (ide_block ?s)) (log_example 0 (replicate 10 0))" for ws
    by (simp add: booted_def log_example_settled)
  ultimately show ?thesis using commit_crash_atomic [OF ok] by (metis log_example_simps(5) zero_less_one)
qed

end
