(* ===== verification/UserMem.thy ===== *)
theory UserMem
  imports Vm
begin

text \<open>
  Access of kernel code to an address of the running process through the page table the CPU uses. A
  kernel address stands for itself; a user address is translated by the two levels of the table; an
  access the table does not allow faults, and \<open>trap\<close> panics on a fault in the kernel.
\<close>

definition xlate :: "bool \<Rightarrow> addr \<Rightarrow> 'm kmem_state_scheme \<Rightarrow> addr option" where
  "xlate write va s =
     (if va \<ge> KERNBASE then Some va
      else let pde = load32 (mem s) (p2v (c_cr3 (cpu s)) + 4 * PDX va)
           in if pde AND PTE_P = 0 \<or> write \<and> pde AND PTE_W = 0 then None
              else let pte = load32 (mem s) (p2v (PTE_ADDR pde) + 4 * PTX va)
                   in if pte AND PTE_P = 0 \<or> write \<and> pte AND PTE_W = 0 then None
                      else Some (p2v (PTE_ADDR pte) + (va AND 0xFFF)))"

definition read_byte :: "addr \<Rightarrow> 'm kmem_state_scheme \<Rightarrow> (byte, 'm kmem_state_scheme) kres" where
  "read_byte va s = (case xlate False va s of None \<Rightarrow> Panic ''trap'' | Some a \<Rightarrow> Ret (mem s a) s)"

definition write_byte :: "addr \<Rightarrow> byte \<Rightarrow> 'm kmem_state_scheme \<Rightarrow> (unit, 'm kmem_state_scheme) kres" where
  "write_byte va v s =
     (case xlate True va s of None \<Rightarrow> Panic ''trap'' | Some a \<Rightarrow> Ret () (s\<lparr>mem := (mem s)(a := v)\<rparr>))"

fun copy_in :: "addr \<Rightarrow> nat \<Rightarrow> 'm kmem_state_scheme \<Rightarrow> (byte list, 'm kmem_state_scheme) kres" where
  "copy_in va 0 s = Ret [] s"
| "copy_in va (Suc n) s =
     bind (read_byte va s) (\<lambda>v s. bind (copy_in (va + 1) n s) (\<lambda>vs s. Ret (v # vs) s))"

fun copy_to :: "addr \<Rightarrow> byte list \<Rightarrow> 'm kmem_state_scheme \<Rightarrow> (unit, 'm kmem_state_scheme) kres" where
  "copy_to va [] s = Ret () s"
| "copy_to va (v # vs) s = bind (write_byte va v s) (\<lambda>_ s. copy_to (va + 1) vs s)"

text \<open>Words, little-endian.\<close>

definition word_bytes :: "uint \<Rightarrow> byte list" where
  "word_bytes w = [ucast w, ucast (drop_bit 8 w), ucast (drop_bit 16 w), ucast (drop_bit 24 w)]"

definition bytes_word :: "byte list \<Rightarrow> uint" where
  "bytes_word d = ucast (d ! 0) OR push_bit 8 (ucast (d ! 1)) OR push_bit 16 (ucast (d ! 2)) OR
     push_bit 24 (ucast (d ! 3))"

definition read_word :: "addr \<Rightarrow> 'm kmem_state_scheme \<Rightarrow> (uint, 'm kmem_state_scheme) kres" where
  "read_word va s = bind (copy_in va 4 s) (\<lambda>d s. Ret (bytes_word d) s)"

definition write_word :: "addr \<Rightarrow> uint \<Rightarrow> 'm kmem_state_scheme \<Rightarrow> (unit, 'm kmem_state_scheme) kres" where
  "write_word va w s = copy_to va (word_bytes w) s"

end
