(* ===== verification/Inode.thy ===== *)
theory Inode
  imports Log UserMem
begin

text \<open>
  The lower part of the file system (\<open>fs.c\<close>): block allocation, the inode cache, the blocks of an inode
  and its truncation. On-disk structures are read from and written to the bytes of a block; a pointer
  to an inode is its index in the cache.
\<close>

section \<open>State\<close>

record inode =
  i_dev :: uint
  i_inum :: uint
  i_ref :: int
  i_busy :: bool
  i_valid :: bool
  i_type :: "16 word"
  i_major :: "16 word"
  i_minor :: "16 word"
  i_nlink :: "16 word"
  i_size :: uint
  i_addrs :: "uint list"

record fs_state = log_state +
  inodes :: "nat \<Rightarrow> inode"

abbreviation NINODE :: nat where "NINODE \<equiv> 50"
abbreviation NDIRECT :: nat where "NDIRECT \<equiv> 12"
abbreviation NINDIRECT :: nat where "NINDIRECT \<equiv> 128"
abbreviation MAXFILE :: nat where "MAXFILE \<equiv> NDIRECT + NINDIRECT"
abbreviation BPB :: nat where "BPB \<equiv> 4096"
abbreviation ROOTINO :: uint where "ROOTINO \<equiv> 1"
abbreviation T_DIR :: "16 word" where "T_DIR \<equiv> 1"
abbreviation T_FILE :: "16 word" where "T_FILE \<equiv> 2"
abbreviation T_DEV :: "16 word" where "T_DEV \<equiv> 3"

definition IBLOCK :: "uint \<Rightarrow> uint" where
  "IBLOCK i = i div 8 + 2"

definition BBLOCK :: "uint \<Rightarrow> uint \<Rightarrow> uint" where
  "BBLOCK b ninodes = b div of_nat BPB + ninodes div 8 + 3"

definition upd_inode :: "nat \<Rightarrow> (inode \<Rightarrow> inode) \<Rightarrow> 'm fs_state_scheme \<Rightarrow> 'm fs_state_scheme" where
  "upd_inode i f s = s\<lparr>inodes := (inodes s)(i := f (inodes s i))\<rparr>"

section \<open>Blocks\<close>

definition bzero :: "uint \<Rightarrow> uint \<Rightarrow> 'm log_state_scheme \<Rightarrow> (unit, 'm log_state_scheme) kres" where
  "bzero dev bno s =
     bind (bread dev bno s) (\<lambda>bp s.
     bind (log_write bp (set_data bp (replicate BSIZE 0) s)) (\<lambda>_ s.
     brelse bp s))"

text \<open>The bit of a bitmap block that stands for its block number \<open>bi\<close>.\<close>

definition block_free :: "byte list \<Rightarrow> nat \<Rightarrow> bool" where
  "block_free d bi \<longleftrightarrow> d ! (bi div 8) AND push_bit (bi mod 8) 1 = 0"

definition mark_used :: "byte list \<Rightarrow> nat \<Rightarrow> byte list" where
  "mark_used d bi = d[bi div 8 := d ! (bi div 8) OR push_bit (bi mod 8) 1]"

definition mark_free :: "byte list \<Rightarrow> nat \<Rightarrow> byte list" where
  "mark_free d bi = d[bi div 8 := d ! (bi div 8) AND NOT (push_bit (bi mod 8) 1)]"

text \<open>The outer loop of \<open>balloc\<close> over the first block numbers of the bitmap blocks.\<close>

fun balloc_scan :: "uint \<Rightarrow> superblock \<Rightarrow> nat list \<Rightarrow> 'm log_state_scheme \<Rightarrow> (uint, 'm log_state_scheme) kres"
where
  "balloc_scan dev sb [] s = Panic ''balloc: out of blocks''"
| "balloc_scan dev sb (b # bs) s =
     bind (bread dev (BBLOCK (of_nat b) (sb_ninodes sb)) s) (\<lambda>bp s.
     case first_index BPB (\<lambda>bi. b + bi < unat (sb_size sb) \<and> block_free (b_data (bufs s bp)) bi) of
       Some bi \<Rightarrow>
         bind (log_write bp (set_data bp (mark_used (b_data (bufs s bp)) bi) s)) (\<lambda>_ s.
         bind (brelse bp s) (\<lambda>_ s.
         bind (bzero dev (of_nat (b + bi)) s) (\<lambda>_ s.
         Ret (of_nat (b + bi)) s)))
     | None \<Rightarrow> bind (brelse bp s) (\<lambda>_ s. balloc_scan dev sb bs s))"

definition balloc :: "uint \<Rightarrow> 'm log_state_scheme \<Rightarrow> (uint, 'm log_state_scheme) kres" where
  "balloc dev s =
     bind (readsb dev s) (\<lambda>sb s.
     balloc_scan dev sb (map (\<lambda>k. k * BPB) [0..<(unat (sb_size sb) + BPB - 1) div BPB]) s)"

definition bfree :: "uint \<Rightarrow> uint \<Rightarrow> 'm log_state_scheme \<Rightarrow> (unit, 'm log_state_scheme) kres" where
  "bfree dev b s =
     bind (readsb dev s) (\<lambda>sb s.
     bind (bread dev (BBLOCK b (sb_ninodes sb)) s) (\<lambda>bp s.
     let bi = unat b mod BPB
     in if block_free (b_data (bufs s bp)) bi then Panic ''freeing free block''
        else bind (log_write bp (set_data bp (mark_free (b_data (bufs s bp)) bi) s)) (\<lambda>_ s.
             brelse bp s)))"

section \<open>The inode cache\<close>

text \<open>The on-disk inode at byte \<open>k\<close> of a block: its fields, and writing them.\<close>

definition load_dinode :: "byte list \<Rightarrow> nat \<Rightarrow> inode \<Rightarrow> inode" where
  "load_dinode d k ip =
     ip\<lparr>i_type := ld16 d k, i_major := ld16 d (k + 2), i_minor := ld16 d (k + 4), i_nlink := ld16 d (k + 6),
        i_size := ld32 d (k + 8), i_addrs := map (\<lambda>i. ld32 d (k + 12 + 4 * i)) [0..<NDIRECT + 1]\<rparr>"

definition store_dinode :: "inode \<Rightarrow> nat \<Rightarrow> byte list \<Rightarrow> byte list" where
  "store_dinode ip k d =
     (let d = st16 d k (i_type ip);
          d = st16 d (k + 2) (i_major ip);
          d = st16 d (k + 4) (i_minor ip);
          d = st16 d (k + 6) (i_nlink ip);
          d = st32 d (k + 8) (i_size ip)
      in fold (\<lambda>i d. st32 d (k + 12 + 4 * i) (i_addrs ip ! i)) [0..<NDIRECT + 1] d)"

definition dinode_at :: "uint \<Rightarrow> nat" where
  "dinode_at inum = unat (inum mod 8) * 64"

definition iinit :: "'m fs_state_scheme \<Rightarrow> 'm fs_state_scheme" where
  "iinit s = initlock Icache_lock ''icache'' s"

definition iget :: "uint \<Rightarrow> uint \<Rightarrow> 'm fs_state_scheme \<Rightarrow> (nat, 'm fs_state_scheme) kres" where
  "iget dev inum s =
     bind (acquire Icache_lock s) (\<lambda>_ s.
     case first_index NINODE (\<lambda>i. i_ref (inodes s i) > 0 \<and> i_dev (inodes s i) = dev \<and> i_inum (inodes s i) = inum) of
       Some ip \<Rightarrow>
         bind (release Icache_lock (upd_inode ip (\<lambda>p. p\<lparr>i_ref := i_ref p + 1\<rparr>) s)) (\<lambda>_ s. Ret ip s)
     | None \<Rightarrow>
         (case first_index NINODE (\<lambda>i. i_ref (inodes s i) = 0) of
            None \<Rightarrow> Panic ''iget: no inodes''
          | Some ip \<Rightarrow>
              bind (release Icache_lock
                      (upd_inode ip (\<lambda>p. p\<lparr>i_dev := dev, i_inum := inum, i_ref := 1,
                                          i_busy := False, i_valid := False\<rparr>) s)) (\<lambda>_ s.
              Ret ip s)))"

fun ialloc_scan :: "uint \<Rightarrow> 16 word \<Rightarrow> nat list \<Rightarrow> 'm fs_state_scheme \<Rightarrow> (nat, 'm fs_state_scheme) kres" where
  "ialloc_scan dev type [] s = Panic ''ialloc: no inodes''"
| "ialloc_scan dev type (inum # is) s =
     bind (bread dev (IBLOCK (of_nat inum)) s) (\<lambda>bp s.
     let d = b_data (bufs s bp);
         k = dinode_at (of_nat inum)
     in if ld16 d k = 0 then
          bind (log_write bp (set_data bp (st16 (put_bytes d k (replicate 64 0)) k type) s)) (\<lambda>_ s.
          bind (brelse bp s) (\<lambda>_ s.
          iget dev (of_nat inum) s))
        else bind (brelse bp s) (\<lambda>_ s. ialloc_scan dev type is s))"

definition ialloc :: "uint \<Rightarrow> 16 word \<Rightarrow> 'm fs_state_scheme \<Rightarrow> (nat, 'm fs_state_scheme) kres" where
  "ialloc dev type s =
     bind (readsb dev s) (\<lambda>sb s. ialloc_scan dev type [1..<unat (sb_ninodes sb)] s)"

definition iupdate :: "nat \<Rightarrow> 'm fs_state_scheme \<Rightarrow> (unit, 'm fs_state_scheme) kres" where
  "iupdate ip s =
     bind (bread (i_dev (inodes s ip)) (IBLOCK (i_inum (inodes s ip))) s) (\<lambda>bp s.
     let k = dinode_at (i_inum (inodes s ip))
     in bind (log_write bp (set_data bp (store_dinode (inodes s ip) k (b_data (bufs s bp))) s)) (\<lambda>_ s.
        brelse bp s))"

definition idup :: "nat \<Rightarrow> 'm fs_state_scheme \<Rightarrow> (nat, 'm fs_state_scheme) kres" where
  "idup ip s =
     bind (acquire Icache_lock s) (\<lambda>_ s.
     bind (release Icache_lock (upd_inode ip (\<lambda>p. p\<lparr>i_ref := i_ref p + 1\<rparr>) s)) (\<lambda>_ s.
     Ret ip s))"

text \<open>\<open>ilock\<close> up to its sleep, and what follows it. A null pointer is \<open>None\<close>.\<close>

definition ilock_read :: "nat \<Rightarrow> 'm fs_state_scheme \<Rightarrow> (unit, 'm fs_state_scheme) kres" where
  "ilock_read ip s =
     (if \<not> i_valid (inodes s ip) then
        bind (bread (i_dev (inodes s ip)) (IBLOCK (i_inum (inodes s ip))) s) (\<lambda>bp s.
        let s = upd_inode ip (load_dinode (b_data (bufs s bp)) (dinode_at (i_inum (inodes s ip)))) s
        in bind (brelse bp s) (\<lambda>_ s.
           let s = upd_inode ip (\<lambda>p. p\<lparr>i_valid := True\<rparr>) s
           in if i_type (inodes s ip) = 0 then Panic ''ilock: no type'' else Ret () s))
      else Ret () s)"

definition ilock_loop :: "nat \<Rightarrow> 'm fs_state_scheme \<Rightarrow> (unit, 'm fs_state_scheme) kres" where
  "ilock_loop ip s =
     (if i_busy (inodes s ip) then sleep (Inode_chan ip) (Some Icache_lock) s
      else bind (release Icache_lock (upd_inode ip (\<lambda>p. p\<lparr>i_busy := True\<rparr>) s)) (\<lambda>_ s.
           ilock_read ip s))"

definition ilock :: "nat option \<Rightarrow> 'm fs_state_scheme \<Rightarrow> (unit, 'm fs_state_scheme) kres" where
  "ilock p s =
     (case p of
        None \<Rightarrow> Panic ''ilock''
      | Some ip \<Rightarrow>
          if i_ref (inodes s ip) < 1 then Panic ''ilock''
          else bind (acquire Icache_lock s) (\<lambda>_ s. ilock_loop ip s))"

definition ilock_resume :: "nat \<Rightarrow> bool \<Rightarrow> 'm fs_state_scheme \<Rightarrow> (unit, 'm fs_state_scheme) kres" where
  "ilock_resume ip intena s = bind (sleep_resume Icache_lock intena s) (\<lambda>_ s. ilock_loop ip s)"

definition iunlock :: "nat option \<Rightarrow> 'm fs_state_scheme \<Rightarrow> (unit, 'm fs_state_scheme) kres" where
  "iunlock p s =
     (case p of
        None \<Rightarrow> Panic ''iunlock''
      | Some ip \<Rightarrow>
          if \<not> i_busy (inodes s ip) \<or> i_ref (inodes s ip) < 1 then Panic ''iunlock''
          else bind (acquire Icache_lock s) (\<lambda>_ s.
               bind (wakeup (Some (Inode_chan ip)) (upd_inode ip (\<lambda>p. p\<lparr>i_busy := False\<rparr>) s)) (\<lambda>_ s.
               release Icache_lock s)))"

section \<open>The blocks of an inode\<close>

definition bmap :: "nat \<Rightarrow> uint \<Rightarrow> 'm fs_state_scheme \<Rightarrow> (uint, 'm fs_state_scheme) kres" where
  "bmap ip bn s =
     (if bn < of_nat NDIRECT then
        let addr = i_addrs (inodes s ip) ! unat bn
        in if addr = 0 then
             bind (balloc (i_dev (inodes s ip)) s) (\<lambda>addr s.
             Ret addr (upd_inode ip (\<lambda>p. p\<lparr>i_addrs := (i_addrs p)[unat bn := addr]\<rparr>) s))
           else Ret addr s
      else let bn = bn - of_nat NDIRECT
           in if bn < of_nat NINDIRECT then
                let addr = i_addrs (inodes s ip) ! NDIRECT
                in bind (if addr = 0 then
                           bind (balloc (i_dev (inodes s ip)) s) (\<lambda>addr s.
                           Ret addr (upd_inode ip (\<lambda>p. p\<lparr>i_addrs := (i_addrs p)[NDIRECT := addr]\<rparr>) s))
                         else Ret addr s) (\<lambda>addr s.
                   bind (bread (i_dev (inodes s ip)) addr s) (\<lambda>bp s.
                   let addr = ld32 (b_data (bufs s bp)) (4 * unat bn)
                   in bind (if addr = 0 then
                              bind (balloc (i_dev (inodes s ip)) s) (\<lambda>addr s.
                              bind (log_write bp
                                     (set_data bp (st32 (b_data (bufs s bp)) (4 * unat bn) addr) s)) (\<lambda>_ s.
                              Ret addr s))
                            else Ret addr s) (\<lambda>addr s.
                      bind (brelse bp s) (\<lambda>_ s. Ret addr s))))
              else Panic ''bmap: out of range'')"

definition itrunc_direct :: "nat \<Rightarrow> nat \<Rightarrow> 'm fs_state_scheme \<Rightarrow> (unit, 'm fs_state_scheme) kres" where
  "itrunc_direct ip i s =
     (if i_addrs (inodes s ip) ! i \<noteq> 0 then
        bind (bfree (i_dev (inodes s ip)) (i_addrs (inodes s ip) ! i) s) (\<lambda>_ s.
        Ret () (upd_inode ip (\<lambda>p. p\<lparr>i_addrs := (i_addrs p)[i := 0]\<rparr>) s))
      else Ret () s)"

definition itrunc :: "nat \<Rightarrow> 'm fs_state_scheme \<Rightarrow> (unit, 'm fs_state_scheme) kres" where
  "itrunc ip s =
     bind (kfor (itrunc_direct ip) [0..<NDIRECT] s) (\<lambda>_ s.
     bind (if i_addrs (inodes s ip) ! NDIRECT \<noteq> 0 then
             bind (bread (i_dev (inodes s ip)) (i_addrs (inodes s ip) ! NDIRECT) s) (\<lambda>bp s.
             bind (kfor (\<lambda>j s. let a = ld32 (b_data (bufs s bp)) (4 * j)
                               in if a \<noteq> 0 then bfree (i_dev (inodes s ip)) a s else Ret () s)
                     [0..<NINDIRECT] s) (\<lambda>_ s.
             bind (brelse bp s) (\<lambda>_ s.
             bind (bfree (i_dev (inodes s ip)) (i_addrs (inodes s ip) ! NDIRECT) s) (\<lambda>_ s.
             Ret () (upd_inode ip (\<lambda>p. p\<lparr>i_addrs := (i_addrs p)[NDIRECT := 0]\<rparr>) s)))))
           else Ret () s) (\<lambda>_ s.
     iupdate ip (upd_inode ip (\<lambda>p. p\<lparr>i_size := 0\<rparr>) s)))"

definition iput :: "nat \<Rightarrow> 'm fs_state_scheme \<Rightarrow> (unit, 'm fs_state_scheme) kres" where
  "iput ip s =
     bind (acquire Icache_lock s) (\<lambda>_ s.
     bind (if i_ref (inodes s ip) = 1 \<and> i_valid (inodes s ip) \<and> i_nlink (inodes s ip) = 0 then
             if i_busy (inodes s ip) then Panic ''iput busy''
             else bind (release Icache_lock (upd_inode ip (\<lambda>p. p\<lparr>i_busy := True\<rparr>) s)) (\<lambda>_ s.
                  bind (itrunc ip s) (\<lambda>_ s.
                  bind (iupdate ip (upd_inode ip (\<lambda>p. p\<lparr>i_type := 0\<rparr>) s)) (\<lambda>_ s.
                  bind (acquire Icache_lock s) (\<lambda>_ s.
                  wakeup (Some (Inode_chan ip)) (upd_inode ip (\<lambda>p. p\<lparr>i_busy := False, i_valid := False\<rparr>) s)))))
           else Ret () s) (\<lambda>_ s.
     release Icache_lock (upd_inode ip (\<lambda>p. p\<lparr>i_ref := i_ref p - 1\<rparr>) s)))"

definition iunlockput :: "nat \<Rightarrow> 'm fs_state_scheme \<Rightarrow> (unit, 'm fs_state_scheme) kres" where
  "iunlockput ip s = bind (iunlock (Some ip) s) (\<lambda>_ s. iput ip s)"

end
