(* ===== verification/Console.thy ===== *)
theory Console
  imports Inode
begin

text \<open>
  The console (\<open>console.c\<close>), the keyboard (\<open>kbd.c\<close>, \<open>kbd.h\<close>), the serial port (\<open>uart.c\<close>) and
  \<open>procdump\<close> of \<open>proc.c\<close>. The devices are queues of bytes: what the keyboard and the serial line have
  sent and not been asked for, and what was written to the line. The screen is its memory and the cursor
  register.
\<close>

section \<open>State\<close>

text \<open>\<open>devsw m\<close>: whether entry \<open>m\<close> of the device table holds the routines of the console.\<close>

record con_state = fs_state +
  panicked :: bool
  cons_locking :: bool
  input_buf :: "byte list"
  input_r :: uint
  input_w :: uint
  input_e :: uint
  crt :: "nat \<Rightarrow> 16 word"
  crt_pos :: "16 word"
  uart :: bool
  uart_present :: bool
  uart_in :: "byte list"
  uart_out :: "byte list"
  kbd_in :: "byte list"
  kbd_shift :: uint
  devsw :: "nat \<Rightarrow> bool"

abbreviation BACKSPACE :: int where "BACKSPACE \<equiv> 0x100"
abbreviation INPUT_BUF :: nat where "INPUT_BUF \<equiv> 128"
abbreviation NDEV :: nat where "NDEV \<equiv> 10"
abbreviation CONSOLE :: nat where "CONSOLE \<equiv> 1"

definition bytes_of :: "string \<Rightarrow> byte list" where
  "bytes_of cs = map of_char cs"

section \<open>Output\<close>

definition uartputc :: "int \<Rightarrow> 'm con_state_scheme \<Rightarrow> 'm con_state_scheme" where
  "uartputc c s = (if \<not> uart s then s else s\<lparr>uart_out := uart_out s @ [word_of_int c]\<rparr>)"

definition uartinit :: "'m con_state_scheme \<Rightarrow> 'm con_state_scheme" where
  "uartinit s =
     (if \<not> uart_present s then s
      else fold (\<lambda>c s. uartputc (uint c) s) (bytes_of (''xv6...'' @ [CHR 0x0A])) (s\<lparr>uart := True\<rparr>))"

text \<open>
  The cursor position is kept in two registers of the controller. A position beyond the last line
  would give \<open>memset\<close> a negative count.
\<close>

definition cga_move :: "int \<Rightarrow> nat \<Rightarrow> (nat \<Rightarrow> 16 word) \<Rightarrow> nat \<times> (nat \<Rightarrow> 16 word)" where
  "cga_move c pos m =
     (if c = 10 then (pos + (80 - pos mod 80), m)
      else if c = BACKSPACE then (if pos > 0 then pos - 1 else pos, m)
      else (pos + 1, m(pos := word_of_int (c mod 256) OR 0x0700)))"

definition cgaputc :: "int \<Rightarrow> 'm con_state_scheme \<Rightarrow> (unit, 'm con_state_scheme) kres" where
  "cgaputc c s =
     (let (pos, m) = cga_move c (unat (crt_pos s)) (crt s);
          scroll = pos div 80 \<ge> 24;
          m1 = (if scroll then (\<lambda>k. if k < 23 * 80 then m (k + 80) else m k) else m);
          pos1 = (if scroll then pos - 80 else pos)
      in if scroll \<and> 24 * 80 < pos1 then Undef
         else let m2 = (if scroll then (\<lambda>k. if pos1 \<le> k \<and> k < 24 * 80 then 0 else m1 k) else m1)
              in Ret () (s\<lparr>crt_pos := of_nat pos1, crt := m2(pos1 := 0x0720)\<rparr>))"

definition consputc :: "int \<Rightarrow> 'm con_state_scheme \<Rightarrow> (unit, 'm con_state_scheme) kres" where
  "consputc c s =
     (if panicked s then Spins (s\<lparr>cpu := (cpu s)\<lparr>c_if := False\<rparr>\<rparr>)
      else let s = (if c = BACKSPACE then uartputc 8 (uartputc 32 (uartputc 8 s)) else uartputc c s)
           in cgaputc c s)"

text \<open>
  \<open>printint\<close>: the digits, least significant first, go to \<open>buf\<close> and are printed backwards. \<open>buf\<close> has
  room for 16 characters. The base is 10 or 16 in all calls.
\<close>

definition digit :: "nat \<Rightarrow> byte" where
  "digit k = bytes_of ''0123456789abcdef'' ! k"

function print_digits :: "nat \<Rightarrow> nat \<Rightarrow> byte list" where
  "print_digits base x =
     (if base < 2 then [] else digit (x mod base) # (if x div base = 0 then [] else print_digits base (x div base)))"
  by pat_completeness auto
termination
  by (relation "measure snd") (auto simp: div_greater_zero_iff)

declare print_digits.simps [simp del]

definition print_buf :: "uint \<Rightarrow> nat \<Rightarrow> bool \<Rightarrow> byte list" where
  "print_buf xx base sign =
     (let neg = (sign \<and> sint xx < 0);
          x = (if neg then - xx else xx)
      in print_digits base (unat x) @ (if neg then bytes_of ''-'' else []))"

definition printint :: "uint \<Rightarrow> nat \<Rightarrow> bool \<Rightarrow> 'm con_state_scheme \<Rightarrow> (unit, 'm con_state_scheme) kres" where
  "printint xx base sign s =
     (if length (print_buf xx base sign) > 16 then Undef
      else kfor (\<lambda>c s. consputc (uint c) s) (rev (print_buf xx base sign)) s)"

text \<open>
  The arguments of \<open>cprintf\<close> after the format: a word, or a pointer to a string (\<open>None\<close> when it is
  null). Using an argument that is not there, or not of the kind asked for, is undefined.
\<close>

datatype carg = Word_arg uint | Str_arg "byte list option"

fun cprintf_loop :: "byte list \<Rightarrow> carg list \<Rightarrow> 'm con_state_scheme \<Rightarrow> (unit, 'm con_state_scheme) kres" where
  "cprintf_loop [] args s = Ret () s"
| "cprintf_loop (c # fmt) args s =
     (if c \<noteq> of_char CHR ''%'' then bind (consputc (uint c) s) (\<lambda>_ s. cprintf_loop fmt args s)
      else case fmt of
             [] \<Rightarrow> Ret () s
           | d # fmt' \<Rightarrow>
               if d = of_char CHR ''d'' then
                 (case args of
                    Word_arg x # rest \<Rightarrow> bind (printint x 10 True s) (\<lambda>_ s. cprintf_loop fmt' rest s)
                  | _ \<Rightarrow> Undef)
               else if d = of_char CHR ''x'' \<or> d = of_char CHR ''p'' then
                 (case args of
                    Word_arg x # rest \<Rightarrow> bind (printint x 16 False s) (\<lambda>_ s. cprintf_loop fmt' rest s)
                  | _ \<Rightarrow> Undef)
               else if d = of_char CHR ''s'' then
                 (case args of
                    Str_arg p # rest \<Rightarrow>
                      let str = (case p of None \<Rightarrow> bytes_of ''(null)'' | Some cs \<Rightarrow> takeWhile (\<lambda>c. c \<noteq> 0) cs)
                      in bind (kfor (\<lambda>c s. consputc (uint c) s) str s) (\<lambda>_ s. cprintf_loop fmt' rest s)
                  | _ \<Rightarrow> Undef)
               else if d = of_char CHR ''%'' then
                 bind (consputc (uint d) s) (\<lambda>_ s. cprintf_loop fmt' args s)
               else bind (consputc (uint c) s) (\<lambda>_ s.
                    bind (consputc (uint d) s) (\<lambda>_ s. cprintf_loop fmt' args s)))"

definition cprintf :: "string \<Rightarrow> carg list \<Rightarrow> 'm con_state_scheme \<Rightarrow> (unit, 'm con_state_scheme) kres" where
  "cprintf fmt args s =
     (let locking = cons_locking s
      in bind (if locking then acquire Cons_lock s else Ret () s) (\<lambda>_ s.
         bind (cprintf_loop (bytes_of fmt) args s) (\<lambda>_ s.
         if locking then release Cons_lock s else Ret () s)))"

text \<open>
  \<open>panic\<close> itself, which everywhere else is the outcome \<open>Panic\<close>: it prints the message and the call
  chain found from \<open>sp\<close>, the address of its argument, and loops.
\<close>

definition panic :: "addr \<Rightarrow> string \<Rightarrow> 'm con_state_scheme \<Rightarrow> (unit, 'm con_state_scheme) kres" where
  "panic sp msg s =
     (let s = s\<lparr>cpu := (cpu s)\<lparr>c_if := False\<rparr>, cons_locking := False\<rparr>
      in bind (cprintf ''cpu%d: panic: '' [Word_arg (of_nat (c_id (cpu s)))] s) (\<lambda>_ s.
         bind (cprintf msg [] s) (\<lambda>_ s.
         bind (cprintf [CHR 0x0A] [] s) (\<lambda>_ s.
         bind (kfor (\<lambda>pc s. cprintf '' %p'' [Word_arg pc] s) (getcallerpcs (load32 (mem s)) sp) s) (\<lambda>_ s.
         Spins (s\<lparr>panicked := True\<rparr>))))))"

fun state_name :: "procstate \<Rightarrow> string" where
  "state_name UNUSED = ''unused''"
| "state_name EMBRYO = ''embryo''"
| "state_name SLEEPING = ''sleep ''"
| "state_name RUNNABLE = ''runble''"
| "state_name RUNNING = ''run   ''"
| "state_name ZOMBIE = ''zombie''"

definition procdump :: "'m con_state_scheme \<Rightarrow> (unit, 'm con_state_scheme) kres" where
  "procdump s =
     kfor (\<lambda>i s.
       let p = procs s i
       in if p_state p = UNUSED then Ret () s
          else bind (cprintf ''%d %s %s''
                       [Word_arg (word_of_int (p_pid p)), Str_arg (Some (bytes_of (state_name (p_state p)))),
                        Str_arg (Some (p_name p))] s) (\<lambda>_ s.
               bind (if p_state p = SLEEPING then
                       let ebp = load32 (mem s) (p_context p + 12);
                           pc = getcallerpcs (load32 (mem s)) (ebp + 8)
                       in kfor (\<lambda>pc s. cprintf '' %p'' [Word_arg pc] s) (takeWhile (\<lambda>pc. pc \<noteq> 0) pc) s
                     else Ret () s) (\<lambda>_ s.
               cprintf [CHR 0x0A] [] s)))
       [0..<NPROC] s"

section \<open>Input\<close>

definition uartgetc :: "'m con_state_scheme \<Rightarrow> int \<times> 'm con_state_scheme" where
  "uartgetc s =
     (if \<not> uart s then (- 1, s)
      else case uart_in s of [] \<Rightarrow> (- 1, s) | c # cs \<Rightarrow> (uint c, s\<lparr>uart_in := cs\<rparr>))"

text \<open>The tables of \<open>kbd.h\<close>: the entries in order, then the ones given by index.\<close>

definition kbd_table :: "byte list \<Rightarrow> (nat \<times> byte) list \<Rightarrow> nat \<Rightarrow> byte" where
  "kbd_table entries named k =
     (case map_of named k of Some c \<Rightarrow> c | None \<Rightarrow> if k < length entries then entries ! k else 0)"

definition shiftcode :: "nat \<Rightarrow> byte" where
  "shiftcode = kbd_table [] [(0x1D, 2), (0x2A, 1), (0x36, 1), (0x38, 4), (0x9D, 2), (0xB8, 4)]"

definition togglecode :: "nat \<Rightarrow> byte" where
  "togglecode = kbd_table [] [(0x3A, 8), (0x45, 16), (0x46, 32)]"

definition normalmap :: "nat \<Rightarrow> byte" where
  "normalmap = kbd_table
     [0, 27, 49, 50, 51, 52, 53, 54, 55, 56, 57, 48, 45, 61, 8, 9,
      113, 119, 101, 114, 116, 121, 117, 105, 111, 112, 91, 93, 10, 0, 97, 115,
      100, 102, 103, 104, 106, 107, 108, 59, 39, 96, 0, 92, 122, 120, 99, 118,
      98, 110, 109, 44, 46, 47, 0, 42, 0, 32, 0, 0, 0, 0, 0, 0,
      0, 0, 0, 0, 0, 0, 0, 55, 56, 57, 45, 52, 53, 54, 43, 49,
      50, 51, 48, 46, 0, 0, 0, 0]
     [(0x9C, 10), (0xB5, 47), (0xC8, 0xE2), (0xD0, 0xE3), (0xC9, 0xE6), (0xD1, 0xE7), (0xCB, 0xE4),
      (0xCD, 0xE5), (0x97, 0xE0), (0xCF, 0xE1), (0xD2, 0xE8), (0xD3, 0xE9)]"

definition shiftmap :: "nat \<Rightarrow> byte" where
  "shiftmap = kbd_table
     [0, 27, 33, 64, 35, 36, 37, 94, 38, 42, 40, 41, 95, 43, 8, 9,
      81, 87, 69, 82, 84, 89, 85, 73, 79, 80, 123, 125, 10, 0, 65, 83,
      68, 70, 71, 72, 74, 75, 76, 58, 34, 126, 0, 124, 90, 88, 67, 86,
      66, 78, 77, 60, 62, 63, 0, 42, 0, 32, 0, 0, 0, 0, 0, 0,
      0, 0, 0, 0, 0, 0, 0, 55, 56, 57, 45, 52, 53, 54, 43, 49,
      50, 51, 48, 46, 0, 0, 0, 0]
     [(0x9C, 10), (0xB5, 47), (0xC8, 0xE2), (0xD0, 0xE3), (0xC9, 0xE6), (0xD1, 0xE7), (0xCB, 0xE4),
      (0xCD, 0xE5), (0x97, 0xE0), (0xCF, 0xE1), (0xD2, 0xE8), (0xD3, 0xE9)]"

definition ctlmap :: "nat \<Rightarrow> byte" where
  "ctlmap = kbd_table
     [0, 0, 0, 0, 0, 0, 0, 0, 0, 0, 0, 0, 0, 0, 0, 0,
      17, 23, 5, 18, 20, 25, 21, 9, 15, 16, 0, 0, 13, 0, 1, 19,
      4, 6, 7, 8, 10, 11, 12, 0, 0, 0, 0, 28, 26, 24, 3, 22,
      2, 14, 13, 0, 0, 239, 0, 0]
     [(0x9C, 13), (0xB5, 239), (0xC8, 0xE2), (0xD0, 0xE3), (0xC9, 0xE6), (0xD1, 0xE7), (0xCB, 0xE4),
      (0xCD, 0xE5), (0x97, 0xE0), (0xCF, 0xE1), (0xD2, 0xE8), (0xD3, 0xE9)]"

definition charcode :: "uint \<Rightarrow> nat \<Rightarrow> byte" where
  "charcode k = [normalmap, shiftmap, ctlmap, ctlmap] ! unat k"

abbreviation E0ESC :: uint where "E0ESC \<equiv> 64"
abbreviation CAPSLOCK :: uint where "CAPSLOCK \<equiv> 8"

definition swap_case :: "uint \<Rightarrow> uint" where
  "swap_case c =
     (if 97 \<le> c \<and> c \<le> 122 then c + (65 - 97) else if 65 \<le> c \<and> c \<le> 90 then c + (97 - 65) else c)"

definition kbd_decode :: "uint \<Rightarrow> uint \<Rightarrow> int \<times> uint" where
  "kbd_decode shift data =
     (if data = 0xE0 then (0, shift OR E0ESC)
      else if data AND 0x80 \<noteq> 0 then
        let data = (if shift AND E0ESC \<noteq> 0 then data else data AND 0x7F)
        in (0, shift AND NOT (ucast (shiftcode (unat data)) OR E0ESC))
      else let (data, shift) = (if shift AND E0ESC \<noteq> 0 then (data OR 0x80, shift AND NOT E0ESC) else (data, shift));
               shift = shift OR ucast (shiftcode (unat data));
               shift = shift XOR ucast (togglecode (unat data));
               c = ucast (charcode (shift AND 3) (unat data));
               c = (if shift AND CAPSLOCK \<noteq> 0 then swap_case c else c)
           in (uint c, shift))"

definition kbdgetc :: "'m con_state_scheme \<Rightarrow> int \<times> 'm con_state_scheme" where
  "kbdgetc s =
     (case kbd_in s of
        [] \<Rightarrow> (- 1, s)
      | d # ds \<Rightarrow> let (c, shift) = kbd_decode (kbd_shift s) (ucast d) in (c, s\<lparr>kbd_in := ds, kbd_shift := shift\<rparr>))"

text \<open>
  The body of the loop of \<open>consoleintr\<close>. The inner loop of Control-U goes down from \<open>e\<close> to \<open>w\<close>.
\<close>

definition input_at :: "uint \<Rightarrow> 'm con_state_scheme \<Rightarrow> byte" where
  "input_at k s = input_buf s ! unat (k mod of_nat INPUT_BUF)"

definition erase_one :: "'m con_state_scheme \<Rightarrow> (unit, 'm con_state_scheme) kres" where
  "erase_one s = consputc BACKSPACE (s\<lparr>input_e := input_e s - 1\<rparr>)"

fun kill_line :: "nat \<Rightarrow> 'm con_state_scheme \<Rightarrow> (unit, 'm con_state_scheme) kres" where
  "kill_line n s =
     (if input_e s \<noteq> input_w s \<and> input_at (input_e s - 1) s \<noteq> 10 then
        case n of 0 \<Rightarrow> Spins s | Suc n \<Rightarrow> bind (erase_one s) (\<lambda>_ s. kill_line n s)
      else Ret () s)"

declare kill_line.simps [simp del]

definition input_char :: "int \<Rightarrow> 'm con_state_scheme \<Rightarrow> (unit, 'm con_state_scheme) kres" where
  "input_char c s =
     (if c \<noteq> 0 \<and> input_e s - input_r s < of_nat INPUT_BUF then
        let c = (if c = 13 then 10 else c);
            s = s\<lparr>input_buf := (input_buf s)[unat (input_e s mod of_nat INPUT_BUF) := word_of_int c],
                  input_e := input_e s + 1\<rparr>
        in bind (consputc c s) (\<lambda>_ s.
           if c = 10 \<or> c = 4 \<or> input_e s = input_r s + of_nat INPUT_BUF
           then wakeup (Some Input_chan) (s\<lparr>input_w := input_e s\<rparr>)
           else Ret () s)
      else Ret () s)"

definition console_key :: "int \<Rightarrow> 'm con_state_scheme \<Rightarrow> (unit, 'm con_state_scheme) kres" where
  "console_key c s =
     (if c = 16 then procdump s
      else if c = 21 then kill_line (unat (input_e s - input_w s)) s
      else if c = 8 \<or> c = 127 then (if input_e s \<noteq> input_w s then erase_one s else Ret () s)
      else input_char c s)"

text \<open>The fuel bounds the number of bytes the device can still deliver.\<close>

fun consoleintr_loop ::
  "nat \<Rightarrow> ('m con_state_scheme \<Rightarrow> int \<times> 'm con_state_scheme) \<Rightarrow> 'm con_state_scheme \<Rightarrow>
   (unit, 'm con_state_scheme) kres" where
  "consoleintr_loop fuel getc s =
     (let (c, s) = getc s
      in if c \<ge> 0 then
           (case fuel of
              0 \<Rightarrow> Spins s
            | Suc fuel \<Rightarrow> bind (console_key c s) (\<lambda>_ s. consoleintr_loop fuel getc s))
         else Ret () s)"

declare consoleintr_loop.simps [simp del]

definition consoleintr ::
  "nat \<Rightarrow> ('m con_state_scheme \<Rightarrow> int \<times> 'm con_state_scheme) \<Rightarrow> 'm con_state_scheme \<Rightarrow>
   (unit, 'm con_state_scheme) kres" where
  "consoleintr fuel getc s =
     bind (acquire Input_lock s) (\<lambda>_ s.
     bind (consoleintr_loop fuel getc s) (\<lambda>_ s.
     release Input_lock s))"

definition kbdintr :: "'m con_state_scheme \<Rightarrow> (unit, 'm con_state_scheme) kres" where
  "kbdintr s = consoleintr (length (kbd_in s)) kbdgetc s"

definition uartintr :: "'m con_state_scheme \<Rightarrow> (unit, 'm con_state_scheme) kres" where
  "uartintr s = consoleintr (length (uart_in s)) uartgetc s"

section \<open>The device routines\<close>

text \<open>
  \<open>consoleread\<close> from the test of its outer loop on, with \<open>n\<close> bytes still wanted of \<open>target\<close>; it may go
  to sleep waiting for input, and continues with \<open>consoleread_resume\<close>.
\<close>

definition consoleread_end :: "nat \<Rightarrow> nat \<Rightarrow> nat \<Rightarrow> 'm con_state_scheme \<Rightarrow> (int, 'm con_state_scheme) kres" where
  "consoleread_end ip target n s =
     bind (release Input_lock s) (\<lambda>_ s.
     bind (ilock (Some ip) s) (\<lambda>_ s.
     Ret (int target - int n) s))"

fun consoleread_loop :: "nat \<Rightarrow> nat \<Rightarrow> addr \<Rightarrow> nat \<Rightarrow> 'm con_state_scheme \<Rightarrow> (int, 'm con_state_scheme) kres" where
  "consoleread_loop ip target dst 0 s = consoleread_end ip target 0 s"
| "consoleread_loop ip target dst (Suc n) s =
     (if input_r s = input_w s then
        with_proc s (\<lambda>i.
        if p_killed (procs s i) then
          bind (release Input_lock s) (\<lambda>_ s. bind (ilock (Some ip) s) (\<lambda>_ s. Ret (- 1) s))
        else sleep Input_chan (Some Input_lock) s)
      else let c = input_at (input_r s) s;
               s = s\<lparr>input_r := input_r s + 1\<rparr>
           in if c = 4 then
                consoleread_end ip target (Suc n)
                  (if Suc n < target then s\<lparr>input_r := input_r s - 1\<rparr> else s)
              else bind (write_byte dst c s) (\<lambda>_ s.
                   if c = 10 then consoleread_end ip target n s
                   else consoleread_loop ip target (dst + 1) n s))"

definition consoleread :: "nat \<Rightarrow> addr \<Rightarrow> int \<Rightarrow> 'm con_state_scheme \<Rightarrow> (int, 'm con_state_scheme) kres" where
  "consoleread ip dst n s =
     bind (iunlock (Some ip) s) (\<lambda>_ s.
     bind (acquire Input_lock s) (\<lambda>_ s.
     consoleread_loop ip (nat n) dst (nat n) s))"

definition consoleread_resume ::
  "nat \<Rightarrow> nat \<Rightarrow> addr \<Rightarrow> nat \<Rightarrow> bool \<Rightarrow> 'm con_state_scheme \<Rightarrow> (int, 'm con_state_scheme) kres" where
  "consoleread_resume ip target dst n intena s =
     bind (sleep_resume Input_lock intena s) (\<lambda>_ s. consoleread_loop ip target dst n s)"

definition consolewrite :: "nat \<Rightarrow> addr \<Rightarrow> int \<Rightarrow> 'm con_state_scheme \<Rightarrow> (int, 'm con_state_scheme) kres" where
  "consolewrite ip buf n s =
     bind (iunlock (Some ip) s) (\<lambda>_ s.
     bind (acquire Cons_lock s) (\<lambda>_ s.
     bind (kfor (\<lambda>i s. bind (read_byte (buf + of_nat i) s) (\<lambda>c s. consputc (uint c) s)) [0..<nat n] s) (\<lambda>_ s.
     bind (release Cons_lock s) (\<lambda>_ s.
     bind (ilock (Some ip) s) (\<lambda>_ s.
     Ret n s)))))"

definition consoleinit :: "'m con_state_scheme \<Rightarrow> 'm con_state_scheme" where
  "consoleinit s =
     (let s = initlock Cons_lock ''console'' s;
          s = initlock Input_lock ''input'' s
      in s\<lparr>devsw := (devsw s)(CONSOLE := True), cons_locking := True\<rparr>)"

section \<open>The cursor stays on the screen\<close>

text \<open>The 24 lines of 80 characters that the console uses.\<close>

definition on_screen :: "'m con_state_scheme \<Rightarrow> bool" where
  "on_screen s \<longleftrightarrow> unat (crt_pos s) < 24 * 80"

lemma cga_move_pos:
  assumes "pos < 1920"
  shows "fst (cga_move c pos m) \<le> 1920" and "k \<ge> 1920 \<Longrightarrow> snd (cga_move c pos m) k = m k"
proof -
  have "pos + (80 - pos mod 80) \<le> 1920"
  proof -
    have "pos = 80 * (pos div 80) + pos mod 80" by simp
    moreover have "pos div 80 \<le> 23" using assms by simp
    ultimately show ?thesis using mod_less_divisor [of 80 pos] by linarith
  qed
  then show "fst (cga_move c pos m) \<le> 1920" using assms by (auto simp: cga_move_def)
  show "k \<ge> 1920 \<Longrightarrow> snd (cga_move c pos m) k = m k" using assms by (simp add: cga_move_def)
qed

lemma cgaputc_ok:
  assumes "on_screen s"
  shows "\<exists>p m. cgaputc c s = Ret () (s\<lparr>crt_pos := p, crt := m\<rparr>) \<and> unat p < 1920 \<and> (\<forall>k\<ge>1920. m k = crt s k)"
proof -
  obtain pos m where mv: "cga_move c (unat (crt_pos s)) (crt s) = (pos, m)" by force
  have u: "unat (crt_pos s) < 1920" using assms by (simp add: on_screen_def)
  have p: "pos \<le> 1920" using cga_move_pos(1) [OF u, of c "crt s"] by (simp add: mv)
  have q: "m k = crt s k" if "k \<ge> 1920" for k using cga_move_pos(2) [OF u that, of c "crt s"] by (simp add: mv)
  show ?thesis
  proof (cases "pos = 1920")
    case True
    have c: "24 \<le> (1920 :: nat) div 80" "1920 - 80 = (1840 :: nat)" "23 * 80 = (1840 :: nat)" "24 * 80 = (1920 :: nat)"
      "\<not> 1920 < (1840 :: nat)" "of_nat 1840 = (1840 :: 16 word)" by simp_all
    let ?m = "(\<lambda>k. if 1840 \<le> k \<and> k < 1920 then 0 else if k < 1840 then m (k + 80) else m k)(1840 := 0x0720)"
    have "cgaputc c s = Ret () (s\<lparr>crt_pos := 1840, crt := ?m\<rparr>)" unfolding cgaputc_def mv True Let_def prod.case by (simp only: c if_True simp_thms if_False)
    moreover have "\<forall>k\<ge>1920. ?m k = crt s k" using q by simp
    ultimately show ?thesis by (intro exI [of _ 1840] exI [of _ ?m]) simp
  next
    case False
    then have "\<not> 24 \<le> pos div 80" using p by simp
    then have "cgaputc c s = Ret () (s\<lparr>crt_pos := of_nat pos, crt := m(pos := 0x0720)\<rparr>)"
      unfolding cgaputc_def mv Let_def prod.case by (simp only: if_False simp_thms)
    moreover have "unat (of_nat pos :: 16 word) < 1920" "\<forall>k\<ge>1920. (m(pos := 0x0720)) k = crt s k"
      using p q False by (simp_all add: unat_of_nat)
    ultimately show ?thesis by blast
  qed
qed

text \<open>What is written to the serial line for one character.\<close>

definition uart_bytes :: "int \<Rightarrow> byte list" where
  "uart_bytes c = (if c = BACKSPACE then [8, 32, 8] else [word_of_int c])"

lemma consputc_ok:
  assumes "on_screen s" and "\<not> panicked s"
  shows "\<exists>p m. consputc c s = Ret () (s\<lparr>crt_pos := p, crt := m, uart_out := uart_out s @ (if uart s then uart_bytes c else [])\<rparr>) \<and>
    unat p < 1920 \<and> (\<forall>k\<ge>1920. m k = crt s k)"
proof -
  let ?s = "if c = BACKSPACE then uartputc 8 (uartputc 32 (uartputc 8 s)) else uartputc c s"
  have s: "?s = s\<lparr>uart_out := uart_out s @ (if uart s then uart_bytes c else [])\<rparr>"
    by (simp add: uartputc_def uart_bytes_def)
  obtain p m where "cgaputc c ?s = Ret () (?s\<lparr>crt_pos := p, crt := m\<rparr>)" "unat p < 1920" "\<forall>k\<ge>1920. m k = crt s k"
    using cgaputc_ok [of ?s c] assms(1) unfolding s by (auto simp: on_screen_def)
  then show ?thesis using assms(2) unfolding consputc_def Let_def s
    by (intro exI [of _ p] exI [of _ m]) simp
qed

lemma consputs_ok:
  "on_screen s \<Longrightarrow> \<not> panicked s \<Longrightarrow>
   \<exists>p m. kfor (\<lambda>c s. consputc (f c) s) cs s = Ret () (s\<lparr>crt_pos := p, crt := m,
      uart_out := uart_out s @ (if uart s then concat (map (\<lambda>c. uart_bytes (f c)) cs) else [])\<rparr>) \<and>
    unat p < 1920 \<and> (\<forall>k\<ge>1920. m k = crt s k)"
proof (induction cs arbitrary: s)
  case Nil
  then show ?case by (intro exI [of _ "crt_pos s"] exI [of _ "crt s"]) (simp add: on_screen_def)
next
  case (Cons c cs)
  obtain p m where c: "consputc (f c) s = Ret () (s\<lparr>crt_pos := p, crt := m, uart_out := uart_out s @ (if uart s then uart_bytes (f c) else [])\<rparr>)"
    "unat p < 1920" "\<forall>k\<ge>1920. m k = crt s k" using consputc_ok [OF Cons.prems, of "f c"] by blast
  let ?t = "s\<lparr>crt_pos := p, crt := m, uart_out := uart_out s @ (if uart s then uart_bytes (f c) else [])\<rparr>"
  obtain p' m' where "kfor (\<lambda>c s. consputc (f c) s) cs ?t = Ret () (?t\<lparr>crt_pos := p', crt := m',
      uart_out := uart_out ?t @ (if uart ?t then concat (map (\<lambda>c. uart_bytes (f c)) cs) else [])\<rparr>)"
    "unat p' < 1920" "\<forall>k\<ge>1920. m' k = crt ?t k" using Cons.IH [of ?t] Cons.prems c(2) by (auto simp: on_screen_def)
  then show ?case using c by (intro exI [of _ p'] exI [of _ m']) simp
qed

text \<open>
  C23. Printing any sequence of characters, backspaces and newlines keeps the cursor inside the 24 lines
  of the screen: every character is printed (the count given to \<open>memset\<close> when scrolling is never
  negative), no memory beyond the screen is touched, and the serial line gets exactly the bytes of the
  characters.
\<close>

theorem consputc_stays_on_screen:
  assumes "unat (crt_pos s) < 24 * 80" and "\<not> panicked s"
  shows "\<exists>s'. kfor consputc cs s = Ret () s' \<and> unat (crt_pos s') < 24 * 80 \<and> (\<forall>k\<ge>24 * 80. crt s' k = crt s k) \<and>
    uart_out s' = uart_out s @ (if uart s then concat (map uart_bytes cs) else [])"
  using consputs_ok [of s "\<lambda>c. c" cs] assms by (auto simp: on_screen_def)

section \<open>Printing numbers\<close>

text \<open>The number that digits, least significant first, stand for.\<close>

definition digits_value :: "nat \<Rightarrow> nat list \<Rightarrow> nat" where
  "digits_value base ds = foldr (\<lambda>d v. d + base * v) ds 0"

lemma print_digits_value:
  assumes "2 \<le> base"
  shows "\<exists>ds. print_digits base x = map digit ds \<and> (\<forall>d\<in>set ds. d < base) \<and> digits_value base ds = x"
  using assms
proof (induction base x rule: print_digits.induct)
  case (1 base x)
  show ?case
  proof (cases "x div base = 0")
    case True
    then have "print_digits base x = map digit [x mod base]" using 1 by (subst print_digits.simps) simp
    moreover have "x < base" "x mod base = x" using True 1(2) by (auto simp: div_eq_0_iff)
    ultimately show ?thesis using 1(2) by (intro exI [of _ "[x mod base]"]) (auto simp: digits_value_def)
  next
    case False
    then obtain ds where "print_digits base (x div base) = map digit ds" "\<forall>d\<in>set ds. d < base" "digits_value base ds = x div base"
      using 1 by auto
    moreover have "print_digits base x = digit (x mod base) # print_digits base (x div base)"
      using 1(2) False by (subst print_digits.simps) simp
    ultimately show ?thesis using 1(2)
      by (intro exI [of _ "x mod base # ds"]) (auto simp: digits_value_def)
  qed
qed

lemma print_digits_length:
  "2 \<le> base \<Longrightarrow> x < base ^ Suc n \<Longrightarrow> length (print_digits base x) \<le> Suc n"
proof (induction n arbitrary: x)
  case 0
  then show ?case by (subst print_digits.simps) simp
next
  case (Suc n)
  then have "x div base < base ^ Suc n" by (simp add: less_mult_imp_div_less mult.commute)
  then show ?case using Suc by (subst print_digits.simps) auto
qed

lemma neg_unat: "sint x < 0 \<Longrightarrow> int (unat (- x)) = - sint x" for x :: uint
proof -
  assume n: "sint x < 0"
  have "uint (- x) = uint (word_of_int (- sint x) :: uint)" by simp
  also have "\<dots> = (- sint x) mod 2 ^ 32" by (simp only: uint_word_of_int) simp
  finally have "uint (- x) = (- sint x) mod 2 ^ 32" .
  moreover have "- sint x \<le> 2 ^ 31" using sint_greater_eq [of x] by simp
  ultimately show "int (unat (- x)) = - sint x" using n by simp
qed

lemma nonneg_uint: "0 \<le> sint x \<Longrightarrow> uint x = sint x" for x :: uint
proof -
  assume n: "0 \<le> sint x"
  have "uint x = uint (word_of_int (sint x) :: uint)" by simp
  also have "\<dots> = sint x mod 2 ^ 32" by (simp only: uint_word_of_int) simp
  finally show "uint x = sint x" using n sint_less [of x] by simp
qed

lemma print_buf_length: "base = 10 \<or> base = 16 \<Longrightarrow> length (print_buf xx base sign) \<le> 11"
proof -
  assume b: "base = 10 \<or> base = 16"
  have "unat x < 2 ^ 32" for x :: uint by (rule order_less_le_trans [OF unsigned_less]) simp
  then have "unat x < 10 ^ 10" "unat x < 16 ^ 10" for x :: uint by (rule order_less_trans, simp)+
  then have "length (print_digits base (unat x)) \<le> 10" for x :: uint
    using b print_digits_length [of base "unat x" 9] by auto
  from this [of xx] this [of "- xx"] show ?thesis by (simp add: print_buf_def Let_def bytes_of_def)
qed

text \<open>
  C25. \<open>printint\<close> prints the number. In base 10 or 16 the characters fit the 16 bytes of its buffer, and
  what goes to the serial line is a minus sign exactly when the number is signed and negative, and then
  the digits of its absolute value, the most significant one first; the cursor stays on the screen.
\<close>

theorem printint_prints_number:
  assumes "base = 10 \<or> base = 16" and "unat (crt_pos s) < 24 * 80" and "\<not> panicked s" and "uart s"
  shows "\<exists>s' ds. printint xx base sign s = Ret () s' \<and> unat (crt_pos s') < 24 * 80 \<and> (\<forall>d\<in>set ds. d < base) \<and>
    uart_out s' = uart_out s @ (if sign \<and> sint xx < 0 then [of_char CHR ''-''] else []) @ map digit (rev ds) \<and>
    int (digits_value base ds) = (if sign then \<bar>sint xx\<bar> else uint xx)"
proof -
  let ?neg = "sign \<and> sint xx < 0"
  obtain ds where ds: "print_digits base (unat (if ?neg then - xx else xx)) = map digit ds" "\<forall>d\<in>set ds. d < base"
    "digits_value base ds = unat (if ?neg then - xx else xx)"
    using print_digits_value [of base "unat (if ?neg then - xx else xx)"] assms(1) by auto
  have buf: "rev (print_buf xx base sign) = (if ?neg then [of_char CHR ''-''] else []) @ map digit (rev ds)"
    using ds(1) by (simp add: print_buf_def bytes_of_def Let_def rev_map split: if_splits)
  have ub: "concat (map (\<lambda>c. uart_bytes (uint c)) cs) = cs" for cs :: "byte list"
  proof (induction cs)
    case (Cons c cs)
    have "uint c < 2 ^ 8" by (rule order_less_le_trans [OF unsigned_less]) simp
    then have "uint c \<noteq> BACKSPACE" by simp
    then show ?case using Cons by (simp add: uart_bytes_def)
  qed simp
  have "int (digits_value base ds) = (if sign then \<bar>sint xx\<bar> else uint xx)"
    using ds(3) neg_unat [of xx] nonneg_uint [of xx] by auto
  moreover obtain s' where "printint xx base sign s = Ret () s'" "unat (crt_pos s') < 24 * 80"
    "uart_out s' = uart_out s @ rev (print_buf xx base sign)"
    using consputs_ok [of s uint "rev (print_buf xx base sign)"] print_buf_length [OF assms(1), of xx sign] assms(2-4)
    by (auto simp: on_screen_def printint_def ub)
  ultimately show ?thesis using buf ds(2) by auto
qed

definition console_example :: con_state where
  "console_example = \<lparr>cpu = \<lparr>c_id = 0, c_ncli = 0, c_intena = True, c_if = True, c_proc = None, c_cr3 = 0, c_esp0 = 0\<rparr>,
      locks = (\<lambda>_. free_lock), mem = (\<lambda>_. 0), k_use_lock = True, k_freelist = 0, k_end = 0x80110000,
      kpgdir = 0x803FF000, k_data = 0x80108000, procs = (\<lambda>_. blank_proc), nextpid = 2, initproc = Some 0,
      binary_semaphores = (\<lambda>_. \<lparr>sem_value = 0, sem_created = False, sem_waiting = 0\<rparr>),
      a_forkret = 0x80104000, a_trapret = 0x80105000, bufs = (\<lambda>_. boot_buf), idequeue = None, havedisk1 = True,
      hw = \<lparr>h_disk = (\<lambda>_ _. replicate 512 0), h_cmd = None, h_err = False, h_present1 = True, h_writes = []\<rparr>,
      log_start = 0, log_size = 0, log_busy = False, log_dev = 1, lh_n = 0, lh_sector = replicate 10 0,
      inodes = (\<lambda>_. \<lparr>i_dev = 0, i_inum = 0, i_ref = 0, i_busy = False, i_valid = False, i_type = 0, i_major = 0,
        i_minor = 0, i_nlink = 0, i_size = 0, i_addrs = replicate 13 0\<rparr>), panicked = False, cons_locking = True, input_buf = replicate 128 0, input_r = 0, input_w = 0,
      input_e = 0, crt = (\<lambda>_. 0), crt_pos = 1919, uart = True, uart_present = True, uart_in = [], uart_out = [],
      kbd_in = [], kbd_shift = 0, devsw = (\<lambda>_. False)\<rparr>"

lemma console_example_simps [simp]:
  "crt_pos console_example = 1919" "\<not> panicked console_example" "uart console_example" "uart_out console_example = []"
  by (simp_all add: console_example_def)

lemma consputc_stays_on_screen_witness:
  "\<exists>s'. kfor consputc [65, 10] console_example = Ret () s' \<and> unat (crt_pos s') < 24 * 80 \<and> uart_out s' = [65, 10]"
  using consputc_stays_on_screen [of console_example "[65, 10]"] by (auto simp: uart_bytes_def)

lemma printint_prints_number_witness:
  "\<exists>s' ds. printint (- 12) 10 True console_example = Ret () s' \<and> uart_out s' = of_char CHR ''-'' # map digit (rev ds) \<and>
     digits_value 10 ds = 12"
  using printint_prints_number [of 10 console_example "- 12" True] by fastforce

end
