(* ===== verification/Fs.thy ===== *)
theory Fs
  imports Console
begin

text \<open>
  The upper part of the file system (\<open>fs.c\<close>): reading and writing the contents of an inode,
  directories and path names. A path is the list of its characters without the terminating null.
\<close>

section \<open>Contents\<close>

record stat =
  st_type :: "16 word"
  st_dev :: uint
  st_ino :: uint
  st_nlink :: "16 word"
  st_size :: uint

definition stati :: "nat \<Rightarrow> 'm fs_state_scheme \<Rightarrow> stat" where
  "stati ip s =
     \<lparr>st_type = i_type (inodes s ip), st_dev = i_dev (inodes s ip), st_ino = i_inum (inodes s ip),
      st_nlink = i_nlink (inodes s ip), st_size = i_size (inodes s ip)\<rparr>"

text \<open>Writing a \<open>struct stat\<close> to memory, field by field.\<close>

definition write_stat :: "addr \<Rightarrow> stat \<Rightarrow> 'm kmem_state_scheme \<Rightarrow> (unit, 'm kmem_state_scheme) kres" where
  "write_stat a st s =
     bind (write_word (a + 4) (st_dev st) s) (\<lambda>_ s.
     bind (write_word (a + 8) (st_ino st) s) (\<lambda>_ s.
     bind (copy_to a (take 2 (word_bytes (ucast (st_type st)))) s) (\<lambda>_ s.
     bind (copy_to (a + 12) (take 2 (word_bytes (ucast (st_nlink st)))) s) (\<lambda>_ s.
     write_word (a + 16) (st_size st) s))))"

text \<open>
  The destination of \<open>readi\<close> is an address, or a local variable of the caller; the bytes read are
  returned in both cases. Reading a device into a local variable, which only \<open>exec\<close> of a device file
  does, is outside the model. The source of \<open>writei\<close> is an address or the bytes of a local variable.
\<close>

definition put_dst :: "addr option \<Rightarrow> byte list \<Rightarrow> 'm kmem_state_scheme \<Rightarrow> (unit, 'm kmem_state_scheme) kres" where
  "put_dst dst d s = (case dst of None \<Rightarrow> Ret () s | Some a \<Rightarrow> copy_to a d s)"

datatype source = At addr | Local "byte list"

fun get_src :: "source \<Rightarrow> nat \<Rightarrow> 'm kmem_state_scheme \<Rightarrow> (byte list, 'm kmem_state_scheme) kres" where
  "get_src (At a) m s = copy_in a m s"
| "get_src (Local d) m s = Ret (take m d) s"

fun next_src :: "source \<Rightarrow> nat \<Rightarrow> source" where
  "next_src (At a) m = At (a + of_nat m)"
| "next_src (Local d) m = Local (drop m d)"

text \<open>\<open>m = min(n - tot, BSIZE - off%BSIZE)\<close>, with \<open>rest\<close> for \<open>n - tot\<close>.\<close>

definition chunk :: "uint \<Rightarrow> nat \<Rightarrow> nat" where
  "chunk off rest = min rest (BSIZE - unat off mod BSIZE)"

lemma chunk_pos: "0 < rest \<Longrightarrow> 0 < chunk off rest"
  by (simp add: chunk_def)

function readi_loop ::
  "nat \<Rightarrow> addr option \<Rightarrow> uint \<Rightarrow> nat \<Rightarrow> 'm fs_state_scheme \<Rightarrow> (byte list, 'm fs_state_scheme) kres" where
  "readi_loop ip dst off rest s =
     (if rest = 0 then Ret [] s
      else bind (bmap ip (off div of_nat BSIZE) s) (\<lambda>bn s.
           bind (bread (i_dev (inodes s ip)) bn s) (\<lambda>bp s.
           let m = chunk off rest;
               d = take m (drop (unat off mod BSIZE) (b_data (bufs s bp)))
           in bind (put_dst dst d s) (\<lambda>_ s.
              bind (brelse bp s) (\<lambda>_ s.
              bind (readi_loop ip (map_option (\<lambda>a. a + of_nat m) dst) (off + of_nat m) (rest - m) s) (\<lambda>ds s.
              Ret (d @ ds) s))))))"
  by pat_completeness auto
termination
  by (relation "measure (\<lambda>(ip, dst, off, rest, s). rest)") (auto simp: chunk_pos)

declare readi_loop.simps [simp del]

text \<open>A device number outside the table, or without routines, is refused.\<close>

definition no_device :: "nat \<Rightarrow> 'm con_state_scheme \<Rightarrow> bool" where
  "no_device ip s \<longleftrightarrow> (let major = sint (i_major (inodes s ip))
     in major < 0 \<or> major \<ge> int NDEV \<or> \<not> devsw s (nat major))"

definition readi ::
  "nat \<Rightarrow> addr option \<Rightarrow> uint \<Rightarrow> uint \<Rightarrow> 'm con_state_scheme \<Rightarrow> (int \<times> byte list, 'm con_state_scheme) kres" where
  "readi ip dst off n s =
     (if i_type (inodes s ip) = T_DEV then
        if no_device ip s then Ret (- 1, []) s
        else (case dst of
                None \<Rightarrow> Undef
              | Some a \<Rightarrow> bind (consoleread ip a (sint n) s) (\<lambda>r s. Ret (r, []) s))
      else if off > i_size (inodes s ip) \<or> off + n < off then Ret (- 1, []) s
      else let n = (if off + n > i_size (inodes s ip) then i_size (inodes s ip) - off else n)
           in bind (readi_loop ip dst off (unat n) s) (\<lambda>d s. Ret (sint n, d) s))"

text \<open>The loop of \<open>writei\<close> returns the offset it has reached.\<close>

function writei_loop ::
  "nat \<Rightarrow> source \<Rightarrow> uint \<Rightarrow> nat \<Rightarrow> 'm fs_state_scheme \<Rightarrow> (uint, 'm fs_state_scheme) kres" where
  "writei_loop ip src off rest s =
     (if rest = 0 then Ret off s
      else bind (bmap ip (off div of_nat BSIZE) s) (\<lambda>bn s.
           bind (bread (i_dev (inodes s ip)) bn s) (\<lambda>bp s.
           let m = chunk off rest
           in bind (get_src src m s) (\<lambda>d s.
              let s = set_data bp (put_bytes (b_data (bufs s bp)) (unat off mod BSIZE) d) s
              in bind (log_write bp s) (\<lambda>_ s.
                 bind (brelse bp s) (\<lambda>_ s.
                 writei_loop ip (next_src src m) (off + of_nat m) (rest - m) s))))))"
  by pat_completeness auto
termination
  by (relation "measure (\<lambda>(ip, src, off, rest, s). rest)") (auto simp: chunk_pos)

declare writei_loop.simps [simp del]

definition writei ::
  "nat \<Rightarrow> source \<Rightarrow> uint \<Rightarrow> uint \<Rightarrow> 'm con_state_scheme \<Rightarrow> (int, 'm con_state_scheme) kres" where
  "writei ip src off n s =
     (if i_type (inodes s ip) = T_DEV then
        if no_device ip s then Ret (- 1) s
        else (case src of At a \<Rightarrow> consolewrite ip a (sint n) s | Local d \<Rightarrow> Undef)
      else if off > i_size (inodes s ip) \<or> off + n < off then Ret (- 1) s
      else if off + n > of_nat (MAXFILE * BSIZE) then Ret (- 1) s
      else bind (writei_loop ip src off (unat n) s) (\<lambda>off s.
           bind (if n > 0 \<and> off > i_size (inodes s ip)
                 then iupdate ip (upd_inode ip (\<lambda>p. p\<lparr>i_size := off\<rparr>) s)
                 else Ret () s) (\<lambda>_ s.
           Ret (sint n) s)))"

section \<open>Directories\<close>

abbreviation DIRSIZ :: nat where "DIRSIZ \<equiv> 14"
abbreviation DIRENT :: nat where "DIRENT \<equiv> 16"

definition namecmp :: "byte list \<Rightarrow> byte list \<Rightarrow> int option" where
  "namecmp s t = strncmp s t DIRSIZ"

definition de_inum :: "byte list \<Rightarrow> 16 word" where
  "de_inum de = ld16 de 0"

definition de_name :: "byte list \<Rightarrow> byte list" where
  "de_name de = drop 2 de"

text \<open>The offsets \<open>0\<close>, \<open>sizeof(de)\<close>, \<open>\<dots>\<close> below the size of a directory.\<close>

definition dirent_offs :: "uint \<Rightarrow> uint list" where
  "dirent_offs sz = map (\<lambda>k. of_nat (DIRENT * k)) [0..<(unat sz + DIRENT - 1) div DIRENT]"

fun dirlookup_scan ::
  "nat \<Rightarrow> byte list \<Rightarrow> uint list \<Rightarrow> 'm con_state_scheme \<Rightarrow> ((nat \<times> uint) option, 'm con_state_scheme) kres" where
  "dirlookup_scan dp name [] s = Ret None s"
| "dirlookup_scan dp name (off # offs) s =
     bind (readi dp None off (of_nat DIRENT) s) (\<lambda>r s.
     if fst r \<noteq> int DIRENT then Panic ''dirlink read''
     else if de_inum (snd r) = 0 then dirlookup_scan dp name offs s
     else case namecmp name (de_name (snd r)) of
            None \<Rightarrow> Undef
          | Some c \<Rightarrow>
              if c = 0 then
                bind (iget (i_dev (inodes s dp)) (ucast (de_inum (snd r))) s) (\<lambda>ip s. Ret (Some (ip, off)) s)
              else dirlookup_scan dp name offs s)"

definition dirlookup ::
  "nat \<Rightarrow> byte list \<Rightarrow> 'm con_state_scheme \<Rightarrow> ((nat \<times> uint) option, 'm con_state_scheme) kres" where
  "dirlookup dp name s =
     (if i_type (inodes s dp) \<noteq> T_DIR then Panic ''dirlookup not DIR''
      else dirlookup_scan dp name (dirent_offs (i_size (inodes s dp))) s)"

text \<open>The search of \<open>dirlink\<close> for an empty entry: its offset, or the offset after the last one.\<close>

fun dirlink_scan :: "nat \<Rightarrow> uint \<Rightarrow> uint list \<Rightarrow> 'm con_state_scheme \<Rightarrow> (uint, 'm con_state_scheme) kres" where
  "dirlink_scan dp end [] s = Ret end s"
| "dirlink_scan dp end (off # offs) s =
     bind (readi dp None off (of_nat DIRENT) s) (\<lambda>r s.
     if fst r \<noteq> int DIRENT then Panic ''dirlink read''
     else if de_inum (snd r) = 0 then Ret off s
     else dirlink_scan dp (off + of_nat DIRENT) offs s)"

definition make_dirent :: "byte list \<Rightarrow> uint \<Rightarrow> byte list option" where
  "make_dirent name inum =
     map_option (\<lambda>n. st16 (replicate 2 0) 0 (ucast inum) @ n) (strncpy (replicate DIRSIZ 0) name DIRSIZ)"

definition dirlink :: "nat \<Rightarrow> byte list \<Rightarrow> uint \<Rightarrow> 'm con_state_scheme \<Rightarrow> (int, 'm con_state_scheme) kres" where
  "dirlink dp name inum s =
     bind (dirlookup dp name s) (\<lambda>r s.
     case r of
       Some (ip, _) \<Rightarrow> bind (iput ip s) (\<lambda>_ s. Ret (- 1) s)
     | None \<Rightarrow>
         bind (dirlink_scan dp 0 (dirent_offs (i_size (inodes s dp))) s) (\<lambda>off s.
         case make_dirent name inum of
           None \<Rightarrow> Undef
         | Some de \<Rightarrow>
             bind (writei dp (Local de) off (of_nat DIRENT) s) (\<lambda>w s.
             if w \<noteq> int DIRENT then Panic ''dirlink'' else Ret 0 s)))"

section \<open>Paths\<close>

abbreviation slash :: byte where "slash \<equiv> 47"

text \<open>
  \<open>skipelem\<close> returns the rest of the path and the new contents of \<open>name\<close>, an array of \<open>DIRSIZ\<close> bytes
  that is terminated by a null only when the element is shorter.
\<close>

definition skipelem :: "byte list \<Rightarrow> byte list \<Rightarrow> (byte list \<times> byte list) option" where
  "skipelem path name =
     (let path = dropWhile (\<lambda>c. c = slash) path
      in if path = [] then None
         else let elem = takeWhile (\<lambda>c. c \<noteq> slash) path;
                  path = dropWhile (\<lambda>c. c \<noteq> slash) path;
                  name = (if length elem \<ge> DIRSIZ then take DIRSIZ elem else put_bytes name 0 (elem @ [0]))
              in Some (dropWhile (\<lambda>c. c = slash) path, name))"

lemma skipelem_shorter: "skipelem path name = Some (rest, name') \<Longrightarrow> length rest < length path"
proof -
  assume sk: "skipelem path name = Some (rest, name')"
  let ?p = "dropWhile (\<lambda>c. c = slash) path"
  have ne: "?p \<noteq> []" and r: "rest = dropWhile (\<lambda>c. c = slash) (dropWhile (\<lambda>c. c \<noteq> slash) ?p)"
    using sk by (auto simp: skipelem_def Let_def split: if_splits)
  from ne have "hd ?p \<noteq> slash" using hd_dropWhile [of "\<lambda>c. c = slash" path] by blast
  then have "dropWhile (\<lambda>c. c \<noteq> slash) ?p = dropWhile (\<lambda>c. c \<noteq> slash) (tl ?p)"
    using ne by (cases ?p) auto
  then have "length rest \<le> length (dropWhile (\<lambda>c. c \<noteq> slash) (tl ?p))"
    unfolding r by (simp add: length_dropWhile_le)
  also have "\<dots> \<le> length (tl ?p)" by (rule length_dropWhile_le)
  also have "\<dots> < length ?p" using ne by (cases ?p) auto
  also have "\<dots> \<le> length path" by (rule length_dropWhile_le)
  finally show ?thesis .
qed

function namex_loop ::
  "byte list \<Rightarrow> bool \<Rightarrow> byte list \<Rightarrow> nat \<Rightarrow> 'm con_state_scheme \<Rightarrow>
   ((nat \<times> byte list) option, 'm con_state_scheme) kres" where
  "namex_loop path parent name ip s =
     (case skipelem path name of
        None \<Rightarrow> if parent then bind (iput ip s) (\<lambda>_ s. Ret None s) else Ret (Some (ip, name)) s
      | Some (path', name) \<Rightarrow>
          bind (ilock (Some ip) s) (\<lambda>_ s.
          if i_type (inodes s ip) \<noteq> T_DIR then bind (iunlockput ip s) (\<lambda>_ s. Ret None s)
          else if parent \<and> path' = [] then bind (iunlock (Some ip) s) (\<lambda>_ s. Ret (Some (ip, name)) s)
          else bind (dirlookup ip name s) (\<lambda>r s.
               case r of
                 None \<Rightarrow> bind (iunlockput ip s) (\<lambda>_ s. Ret None s)
               | Some (nxt, _) \<Rightarrow> bind (iunlockput ip s) (\<lambda>_ s. namex_loop path' parent name nxt s))))"
  by pat_completeness auto
termination
  by (relation "measure (\<lambda>(path, parent, name, ip, s). length path)") (auto dest: skipelem_shorter)

declare namex_loop.simps [simp del]

definition namex ::
  "byte list \<Rightarrow> bool \<Rightarrow> byte list \<Rightarrow> 'm con_state_scheme \<Rightarrow>
   ((nat \<times> byte list) option, 'm con_state_scheme) kres" where
  "namex path parent name s =
     bind (if path \<noteq> [] \<and> hd path = slash then iget ROOTDEV ROOTINO s
           else with_proc s (\<lambda>i. case p_cwd (procs s i) of None \<Rightarrow> Undef | Some cwd \<Rightarrow> idup cwd s)) (\<lambda>ip s.
     namex_loop path parent name ip s)"

text \<open>The array \<open>name\<close> is not initialised before \<open>skipelem\<close> writes it; its first contents are not read.\<close>

definition namei :: "byte list \<Rightarrow> 'm con_state_scheme \<Rightarrow> (nat option, 'm con_state_scheme) kres" where
  "namei path s = bind (namex path False (replicate DIRSIZ 0) s) (\<lambda>r s. Ret (map_option fst r) s)"

definition nameiparent ::
  "byte list \<Rightarrow> 'm con_state_scheme \<Rightarrow> ((nat \<times> byte list) option, 'm con_state_scheme) kres" where
  "nameiparent path s = namex path True (replicate DIRSIZ 0) s"

end
