(* ===== verification/File.thy ===== *)
theory File
  imports Fs
begin

text \<open>
  Open files (\<open>file.c\<close>, \<open>file.h\<close>) and pipes (\<open>pipe.c\<close>). A pointer to a file is its index in the file
  table. A pipe lives in a page of its own; its fields are kept in a table by the address of that page.
\<close>

section \<open>State\<close>

datatype file_type = FD_NONE | FD_PIPE | FD_INODE

record struct_file =
  f_type :: file_type
  f_ref :: int
  f_readable :: bool
  f_writable :: bool
  f_pipe :: addr
  f_ip :: nat
  f_off :: uint

record pipe =
  pi_data :: "byte list"
  pi_nread :: uint
  pi_nwrite :: uint
  pi_readopen :: bool
  pi_writeopen :: bool

record file_state = con_state +
  files :: "nat \<Rightarrow> struct_file"
  pipes :: "addr \<Rightarrow> pipe"

abbreviation NFILE :: nat where "NFILE \<equiv> 100"
abbreviation PIPESIZE :: nat where "PIPESIZE \<equiv> 512"

definition upd_file :: "nat \<Rightarrow> (struct_file \<Rightarrow> struct_file) \<Rightarrow> 'm file_state_scheme \<Rightarrow> 'm file_state_scheme" where
  "upd_file f g s = s\<lparr>files := (files s)(f := g (files s f))\<rparr>"

definition upd_pipe :: "addr \<Rightarrow> (pipe \<Rightarrow> pipe) \<Rightarrow> 'm file_state_scheme \<Rightarrow> 'm file_state_scheme" where
  "upd_pipe p g s = s\<lparr>pipes := (pipes s)(p := g (pipes s p))\<rparr>"

section \<open>The file table\<close>

definition fileinit :: "'m file_state_scheme \<Rightarrow> 'm file_state_scheme" where
  "fileinit s = initlock Ftable_lock ''ftable'' s"

definition filealloc :: "'m file_state_scheme \<Rightarrow> (nat option, 'm file_state_scheme) kres" where
  "filealloc s =
     bind (acquire Ftable_lock s) (\<lambda>_ s.
     case first_index NFILE (\<lambda>f. f_ref (files s f) = 0) of
       Some f \<Rightarrow>
         bind (release Ftable_lock (upd_file f (\<lambda>p. p\<lparr>f_ref := 1\<rparr>) s)) (\<lambda>_ s. Ret (Some f) s)
     | None \<Rightarrow> bind (release Ftable_lock s) (\<lambda>_ s. Ret None s))"

definition filedup :: "nat \<Rightarrow> 'm file_state_scheme \<Rightarrow> (nat, 'm file_state_scheme) kres" where
  "filedup f s =
     bind (acquire Ftable_lock s) (\<lambda>_ s.
     if f_ref (files s f) < 1 then Panic ''filedup''
     else bind (release Ftable_lock (upd_file f (\<lambda>p. p\<lparr>f_ref := f_ref p + 1\<rparr>) s)) (\<lambda>_ s. Ret f s))"

section \<open>Pipes\<close>

definition pipeclose :: "addr \<Rightarrow> bool \<Rightarrow> 'm file_state_scheme \<Rightarrow> (unit, 'm file_state_scheme) kres" where
  "pipeclose p writable s =
     bind (acquire (Pipe_lock p) s) (\<lambda>_ s.
     bind (if writable
           then wakeup (Some (Nread_chan p)) (upd_pipe p (\<lambda>q. q\<lparr>pi_writeopen := False\<rparr>) s)
           else wakeup (Some (Nwrite_chan p)) (upd_pipe p (\<lambda>q. q\<lparr>pi_readopen := False\<rparr>) s)) (\<lambda>_ s.
     if \<not> pi_readopen (pipes s p) \<and> \<not> pi_writeopen (pipes s p)
     then bind (release (Pipe_lock p) s) (\<lambda>_ s. kfree p s)
     else release (Pipe_lock p) s))"

text \<open>
  \<open>pipewrite\<close> with \<open>n\<close> bytes still to write of \<open>tot\<close>, from the test of its inner loop on; it may go to
  sleep while the pipe is full, and continues with \<open>pipewrite_resume\<close>.
\<close>

fun pipewrite_loop :: "addr \<Rightarrow> int \<Rightarrow> addr \<Rightarrow> nat \<Rightarrow> 'm file_state_scheme \<Rightarrow> (int, 'm file_state_scheme) kres" where
  "pipewrite_loop p tot a 0 s =
     bind (wakeup (Some (Nread_chan p)) s) (\<lambda>_ s.
     bind (release (Pipe_lock p) s) (\<lambda>_ s.
     Ret tot s))"
| "pipewrite_loop p tot a (Suc n) s =
     (if pi_nwrite (pipes s p) = pi_nread (pipes s p) + of_nat PIPESIZE then
        with_proc s (\<lambda>i.
        if \<not> pi_readopen (pipes s p) \<or> p_killed (procs s i)
        then bind (release (Pipe_lock p) s) (\<lambda>_ s. Ret (- 1) s)
        else bind (wakeup (Some (Nread_chan p)) s) (\<lambda>_ s.
             sleep (Nwrite_chan p) (Some (Pipe_lock p)) s))
      else bind (read_byte a s) (\<lambda>c s.
           pipewrite_loop p tot (a + 1) n
             (upd_pipe p (\<lambda>q. q\<lparr>pi_data := (pi_data q)[unat (pi_nwrite q mod of_nat PIPESIZE) := c],
                               pi_nwrite := pi_nwrite q + 1\<rparr>) s)))"

definition pipewrite :: "addr \<Rightarrow> addr \<Rightarrow> int \<Rightarrow> 'm file_state_scheme \<Rightarrow> (int, 'm file_state_scheme) kres" where
  "pipewrite p a n s = bind (acquire (Pipe_lock p) s) (\<lambda>_ s. pipewrite_loop p n a (nat n) s)"

definition pipewrite_resume ::
  "addr \<Rightarrow> int \<Rightarrow> addr \<Rightarrow> nat \<Rightarrow> bool \<Rightarrow> 'm file_state_scheme \<Rightarrow> (int, 'm file_state_scheme) kres" where
  "pipewrite_resume p tot a n intena s =
     bind (sleep_resume (Pipe_lock p) intena s) (\<lambda>_ s. pipewrite_loop p tot a n s)"

text \<open>The copying loop of \<open>piperead\<close> returns the number of bytes read.\<close>

fun piperead_copy :: "addr \<Rightarrow> addr \<Rightarrow> nat \<Rightarrow> 'm file_state_scheme \<Rightarrow> (int, 'm file_state_scheme) kres" where
  "piperead_copy p a 0 s = Ret 0 s"
| "piperead_copy p a (Suc n) s =
     (if pi_nread (pipes s p) = pi_nwrite (pipes s p) then Ret 0 s
      else let c = pi_data (pipes s p) ! unat (pi_nread (pipes s p) mod of_nat PIPESIZE)
           in bind (write_byte a c (upd_pipe p (\<lambda>q. q\<lparr>pi_nread := pi_nread q + 1\<rparr>) s)) (\<lambda>_ s.
              bind (piperead_copy p (a + 1) n s) (\<lambda>i s. Ret (i + 1) s)))"

definition piperead_loop :: "addr \<Rightarrow> addr \<Rightarrow> int \<Rightarrow> 'm file_state_scheme \<Rightarrow> (int, 'm file_state_scheme) kres" where
  "piperead_loop p a n s =
     (if pi_nread (pipes s p) = pi_nwrite (pipes s p) \<and> pi_writeopen (pipes s p) then
        with_proc s (\<lambda>i.
        if p_killed (procs s i) then bind (release (Pipe_lock p) s) (\<lambda>_ s. Ret (- 1) s)
        else sleep (Nread_chan p) (Some (Pipe_lock p)) s)
      else bind (piperead_copy p a (nat n) s) (\<lambda>i s.
           bind (wakeup (Some (Nwrite_chan p)) s) (\<lambda>_ s.
           bind (release (Pipe_lock p) s) (\<lambda>_ s.
           Ret i s))))"

definition piperead :: "addr \<Rightarrow> addr \<Rightarrow> int \<Rightarrow> 'm file_state_scheme \<Rightarrow> (int, 'm file_state_scheme) kres" where
  "piperead p a n s = bind (acquire (Pipe_lock p) s) (\<lambda>_ s. piperead_loop p a n s)"

definition piperead_resume ::
  "addr \<Rightarrow> addr \<Rightarrow> int \<Rightarrow> bool \<Rightarrow> 'm file_state_scheme \<Rightarrow> (int, 'm file_state_scheme) kres" where
  "piperead_resume p a n intena s =
     bind (sleep_resume (Pipe_lock p) intena s) (\<lambda>_ s. piperead_loop p a n s)"

section \<open>Operations on open files\<close>

definition fileclose :: "nat \<Rightarrow> 'm file_state_scheme \<Rightarrow> (unit, 'm file_state_scheme) kres" where
  "fileclose f s =
     bind (acquire Ftable_lock s) (\<lambda>_ s.
     if f_ref (files s f) < 1 then Panic ''fileclose''
     else let s = upd_file f (\<lambda>p. p\<lparr>f_ref := f_ref p - 1\<rparr>) s
          in if f_ref (files s f) > 0 then release Ftable_lock s
             else let ff = files s f;
                      s = upd_file f (\<lambda>p. p\<lparr>f_ref := 0, f_type := FD_NONE\<rparr>) s
                  in bind (release Ftable_lock s) (\<lambda>_ s.
                     case f_type ff of
                       FD_PIPE \<Rightarrow> pipeclose (f_pipe ff) (f_writable ff) s
                     | FD_INODE \<Rightarrow>
                         bind (begin_trans s) (\<lambda>_ s.
                         bind (iput (f_ip ff) s) (\<lambda>_ s.
                         commit_trans s))
                     | FD_NONE \<Rightarrow> Ret () s))"

definition pipealloc :: "'m file_state_scheme \<Rightarrow> ((nat \<times> nat) option, 'm file_state_scheme) kres" where
  "pipealloc s =
     bind (filealloc s) (\<lambda>f0 s.
     case f0 of
       None \<Rightarrow> Ret None s
     | Some f0 \<Rightarrow>
         bind (filealloc s) (\<lambda>f1 s.
         case f1 of
           None \<Rightarrow> bind (fileclose f0 s) (\<lambda>_ s. Ret None s)
         | Some f1 \<Rightarrow>
             bind (kalloc s) (\<lambda>p s.
             if p = 0 then bind (fileclose f0 s) (\<lambda>_ s. bind (fileclose f1 s) (\<lambda>_ s. Ret None s))
             else let s = upd_pipe p (\<lambda>q. q\<lparr>pi_readopen := True, pi_writeopen := True,
                                             pi_nwrite := 0, pi_nread := 0\<rparr>) s;
                      s = initlock (Pipe_lock p) ''pipe'' s;
                      s = upd_file f0 (\<lambda>q. q\<lparr>f_type := FD_PIPE, f_readable := True, f_writable := False,
                                             f_pipe := p\<rparr>) s;
                      s = upd_file f1 (\<lambda>q. q\<lparr>f_type := FD_PIPE, f_readable := False, f_writable := True,
                                             f_pipe := p\<rparr>) s
                  in Ret (Some (f0, f1)) s)))"

definition filestat :: "nat \<Rightarrow> addr \<Rightarrow> 'm file_state_scheme \<Rightarrow> (int, 'm file_state_scheme) kres" where
  "filestat f st s =
     (if f_type (files s f) = FD_INODE then
        bind (ilock (Some (f_ip (files s f))) s) (\<lambda>_ s.
        bind (write_stat st (stati (f_ip (files s f)) s) s) (\<lambda>_ s.
        bind (iunlock (Some (f_ip (files s f))) s) (\<lambda>_ s.
        Ret 0 s)))
      else Ret (- 1) s)"

definition fileread :: "nat \<Rightarrow> addr \<Rightarrow> int \<Rightarrow> 'm file_state_scheme \<Rightarrow> (int, 'm file_state_scheme) kres" where
  "fileread f a n s =
     (if \<not> f_readable (files s f) then Ret (- 1) s
      else case f_type (files s f) of
             FD_PIPE \<Rightarrow> piperead (f_pipe (files s f)) a n s
           | FD_INODE \<Rightarrow>
               bind (ilock (Some (f_ip (files s f))) s) (\<lambda>_ s.
               bind (readi (f_ip (files s f)) (Some a) (f_off (files s f)) (word_of_int n) s) (\<lambda>r s.
               let s = (if fst r > 0 then upd_file f (\<lambda>p. p\<lparr>f_off := f_off p + word_of_int (fst r)\<rparr>) s else s)
               in bind (iunlock (Some (f_ip (files s f))) s) (\<lambda>_ s.
                  Ret (fst r) s)))
           | FD_NONE \<Rightarrow> Panic ''fileread'')"

text \<open>
  One round of the loop of \<open>filewrite\<close>: a transaction that writes at most \<open>max\<close> bytes. The loop ends
  after at most \<open>n\<close> rounds, since a round that does not write all its bytes leaves it or panics.
\<close>

abbreviation filewrite_max :: int where "filewrite_max \<equiv> 1536"

definition filewrite_round ::
  "nat \<Rightarrow> addr \<Rightarrow> int \<Rightarrow> 'm file_state_scheme \<Rightarrow> (int, 'm file_state_scheme) kres" where
  "filewrite_round f a n1 s =
     bind (begin_trans s) (\<lambda>_ s.
     bind (ilock (Some (f_ip (files s f))) s) (\<lambda>_ s.
     bind (writei (f_ip (files s f)) (At a) (f_off (files s f)) (word_of_int n1) s) (\<lambda>r s.
     let s = (if r > 0 then upd_file f (\<lambda>p. p\<lparr>f_off := f_off p + word_of_int r\<rparr>) s else s)
     in bind (iunlock (Some (f_ip (files s f))) s) (\<lambda>_ s.
        bind (commit_trans s) (\<lambda>_ s.
        Ret r s)))))"

function filewrite_loop ::
  "nat \<Rightarrow> addr \<Rightarrow> int \<Rightarrow> int \<Rightarrow> 'm file_state_scheme \<Rightarrow> (int, 'm file_state_scheme) kres" where
  "filewrite_loop f a i n s =
     (if i < n then
        let n1 = (if n - i > filewrite_max then filewrite_max else n - i)
        in bind (filewrite_round f (a + word_of_int i) n1 s) (\<lambda>r s.
           if r < 0 then Ret i s
           else if r \<noteq> n1 then Panic ''short filewrite''
           else filewrite_loop f a (i + r) n s)
      else Ret i s)"
  by pat_completeness auto
termination
  by (relation "measure (\<lambda>(f, a, i, n, s). nat (n - i))") auto

declare filewrite_loop.simps [simp del]

definition filewrite :: "nat \<Rightarrow> addr \<Rightarrow> int \<Rightarrow> 'm file_state_scheme \<Rightarrow> (int, 'm file_state_scheme) kres" where
  "filewrite f a n s =
     (if \<not> f_writable (files s f) then Ret (- 1) s
      else case f_type (files s f) of
             FD_PIPE \<Rightarrow> pipewrite (f_pipe (files s f)) a n s
           | FD_INODE \<Rightarrow> bind (filewrite_loop f a 0 n s) (\<lambda>i s. Ret (if i = n then n else - 1) s)
           | FD_NONE \<Rightarrow> Panic ''filewrite'')"

section \<open>A pipe is a bounded queue of bytes\<close>

text \<open>
  The bytes in a pipe, oldest first: the counters run freely and wrap around at 32 bits, and the size of
  the ring divides \<open>2 ^ 32\<close>.
\<close>

definition pipe_len :: "pipe \<Rightarrow> nat" where
  "pipe_len q = unat (pi_nwrite q - pi_nread q)"

definition pipe_slot :: "uint \<Rightarrow> nat" where
  "pipe_slot k = unat (k mod of_nat PIPESIZE)"

definition contents :: "pipe \<Rightarrow> byte list" where
  "contents q = map (\<lambda>k. pi_data q ! pipe_slot (pi_nread q + of_nat k)) [0..<pipe_len q]"

definition pipe_ok :: "pipe \<Rightarrow> bool" where
  "pipe_ok q \<longleftrightarrow> length (pi_data q) = PIPESIZE \<and> pipe_len q \<le> PIPESIZE"

definition pipe_put :: "byte \<Rightarrow> pipe \<Rightarrow> pipe" where
  "pipe_put c q = q\<lparr>pi_data := (pi_data q)[pipe_slot (pi_nwrite q) := c], pi_nwrite := pi_nwrite q + 1\<rparr>"

definition pipe_get :: "pipe \<Rightarrow> byte \<times> pipe" where
  "pipe_get q = (pi_data q ! pipe_slot (pi_nread q), q\<lparr>pi_nread := pi_nread q + 1\<rparr>)"

lemma pipe_slot_less: "pipe_slot k < PIPESIZE"
  by (simp add: pipe_slot_def unat_mod)

lemma pipe_slot_add: "pipe_slot (a + of_nat k) = (pipe_slot a + k) mod PIPESIZE"
proof -
  have "unat (a + of_nat k :: uint) mod 512 = (unat a + k) mod 512"
    by (simp add: unat_word_ariths unat_of_nat mod_mod_cancel mod_add_left_eq mod_add_right_eq)
  then show ?thesis by (simp add: pipe_slot_def unat_mod mod_add_left_eq)
qed

lemma pipe_full: "pipe_ok q \<Longrightarrow> pi_nwrite q = pi_nread q + of_nat PIPESIZE \<longleftrightarrow> pipe_len q = PIPESIZE"
proof
  show "pi_nwrite q = pi_nread q + of_nat PIPESIZE \<Longrightarrow> pipe_len q = PIPESIZE" by (simp add: pipe_len_def)
  assume "pipe_len q = PIPESIZE"
  then have "pi_nwrite q - pi_nread q = of_nat PIPESIZE" by (simp add: pipe_len_def word_unat_eq_iff)
  then show "pi_nwrite q = pi_nread q + of_nat PIPESIZE" by (simp add: algebra_simps)
qed

lemma pipe_empty: "pi_nread q = pi_nwrite q \<longleftrightarrow> pipe_len q = 0"
  by (auto simp: pipe_len_def unat_eq_0)

lemma unat_succ: "unat (x :: uint) < 2 ^ 32 - 1 \<Longrightarrow> unat (x + 1) = Suc (unat x)"
  by (simp add: unat_word_ariths)

lemma mod_add_distinct: "i < j \<Longrightarrow> j < n + i \<Longrightarrow> (a + j) mod n \<noteq> (a + i) mod n" for i j n a :: nat
proof
  assume ij: "i < j" "j < n + i" and "(a + j) mod n = (a + i) mod n"
  then have "n dvd (a + j) - (a + i)" by (simp add: mod_eq_dvd_iff_nat)
  then show False using ij nat_dvd_not_less [of "j - i" n] by auto
qed

lemma pipe_put_ok:
  assumes ok: "pipe_ok q" and room: "pipe_len q < PIPESIZE"
  shows "pipe_ok (pipe_put c q)" and "pipe_len (pipe_put c q) = Suc (pipe_len q)" and "contents (pipe_put c q) = contents q @ [c]"
proof -
  have e: "pi_nwrite q + 1 - pi_nread q = (pi_nwrite q - pi_nread q) + 1" by simp
  show len: "pipe_len (pipe_put c q) = Suc (pipe_len q)"
    using room unat_succ [of "pi_nwrite q - pi_nread q"] by (simp add: pipe_put_def pipe_len_def e)
  then show "pipe_ok (pipe_put c q)" using ok room by (simp add: pipe_ok_def pipe_put_def)
  have w: "pi_nwrite q = pi_nread q + of_nat (pipe_len q)" by (simp add: pipe_len_def)
  have L: "length (pi_data q) = PIPESIZE" using ok by (simp add: pipe_ok_def)
  show "contents (pipe_put c q) = contents q @ [c]"
  proof (rule nth_equalityI)
    fix k assume "k < length (contents (pipe_put c q))"
    then have k: "k \<le> pipe_len q" using len by (simp add: contents_def)
    have slot: "pipe_slot (pi_nread q + of_nat j) = (pipe_slot (pi_nread q) + j) mod PIPESIZE" for j by (rule pipe_slot_add)
    show "contents (pipe_put c q) ! k = (contents q @ [c]) ! k"
    proof (cases "k = pipe_len q")
      case True
      then show ?thesis using len L pipe_slot_less by (simp add: contents_def nth_append pipe_put_def w)
    next
      case False
      then have "k < pipe_len q" using k by simp
      moreover have "(pipe_slot (pi_nread q) + pipe_len q) mod PIPESIZE \<noteq> (pipe_slot (pi_nread q) + k) mod PIPESIZE"
        using mod_add_distinct [of k "pipe_len q" PIPESIZE] calculation room by simp
      ultimately show ?thesis using len by (simp add: contents_def nth_append pipe_put_def w slot)
    qed
  qed (simp add: contents_def len)
qed

lemma pipe_get_ok:
  assumes ok: "pipe_ok q" and some: "0 < pipe_len q"
  shows "pipe_ok (snd (pipe_get q))" and "Suc (pipe_len (snd (pipe_get q))) = pipe_len q"
    and "contents q = fst (pipe_get q) # contents (snd (pipe_get q))"
proof -
  have e: "pi_nwrite q - (pi_nread q + 1) = (pi_nwrite q - pi_nread q) - 1" by simp
  have "pi_nwrite q - pi_nread q \<noteq> 0" using some by (auto simp: pipe_len_def)
  then have "unat ((pi_nwrite q - pi_nread q) - 1) = unat (pi_nwrite q - pi_nread q) - 1" by (rule unat_minus_one)
  then show len: "Suc (pipe_len (snd (pipe_get q))) = pipe_len q"
    using some by (simp add: pipe_len_def pipe_get_def e)
  show "pipe_ok (snd (pipe_get q))" using ok len by (simp add: pipe_ok_def pipe_get_def)
  have "contents q = map (\<lambda>k. pi_data q ! pipe_slot (pi_nread q + of_nat k)) (0 # map Suc [0..<pipe_len (snd (pipe_get q))])"
    unfolding contents_def len [symmetric] by (simp add: upt_conv_Cons map_Suc_upt del: upt_Suc)
  then show "contents q = fst (pipe_get q) # contents (snd (pipe_get q))"
    by (simp add: contents_def pipe_get_def o_def add.assoc)
qed

text \<open>What a client of a bounded queue of bytes relies on.\<close>

locale byte_queue =
  fixes inv :: "'q \<Rightarrow> bool" and items :: "'q \<Rightarrow> byte list" and cap :: nat
    and put :: "byte \<Rightarrow> 'q \<Rightarrow> 'q" and get :: "'q \<Rightarrow> byte \<times> 'q"
  assumes put_law: "inv q \<Longrightarrow> length (items q) < cap \<Longrightarrow> inv (put c q) \<and> items (put c q) = items q @ [c]"
    and get_law: "inv q \<Longrightarrow> items q \<noteq> [] \<Longrightarrow> inv (snd (get q)) \<and> items q = fst (get q) # items (snd (get q))"
begin

lemma puts: "inv q \<Longrightarrow> length (items q) + length cs \<le> cap \<Longrightarrow> inv (fold put cs q) \<and> items (fold put cs q) = items q @ cs"
proof (induction cs arbitrary: q)
  case (Cons c cs)
  then show ?case using put_law [of q c] Cons.IH [of "put c q"] by simp
qed simp

lemma gets: "inv q \<Longrightarrow> n \<le> length (items q) \<Longrightarrow> inv (((\<lambda>q. snd (get q)) ^^ n) q) \<and> items (((\<lambda>q. snd (get q)) ^^ n) q) = drop n (items q)"
proof (induction n)
  case (Suc n)
  let ?q = "((\<lambda>q. snd (get q)) ^^ n) q"
  have q: "inv ?q" "items ?q = drop n (items q)" using Suc by auto
  then have "items ?q \<noteq> []" using Suc.prems by simp
  then show ?case using get_law [OF q(1)] q(2) by (metis drop_Suc drop_drop funpow.simps(2) list.sel(3) o_apply plus_1_eq_Suc drop_Suc_Cons drop0)
qed simp

end

lemma contents_length [simp]: "length (contents q) = pipe_len q"
  by (simp add: contents_def)

interpretation pipe: byte_queue pipe_ok contents PIPESIZE pipe_put pipe_get
proof
  show "pipe_ok (pipe_put c q) \<and> contents (pipe_put c q) = contents q @ [c]" if "pipe_ok q" "length (contents q) < PIPESIZE" for q c
    using pipe_put_ok [OF that(1)] that(2) by simp
  show "pipe_ok (snd (pipe_get q)) \<and> contents q = fst (pipe_get q) # contents (snd (pipe_get q))" if "pipe_ok q" "contents q \<noteq> []" for q
    using pipe_get_ok [OF that(1)] that(2) by (metis contents_length length_greater_0_conv)
qed

text \<open>User memory is read and written the same way whatever the rest of the state.\<close>

lemma xlate_cong: "mem t = mem s \<Longrightarrow> c_cr3 (cpu t) = c_cr3 (cpu s) \<Longrightarrow> xlate w a t = xlate w a s"
  by (simp add: xlate_def Let_def)

lemma copy_in_cong:
  assumes "mem t = mem s" and "c_cr3 (cpu t) = c_cr3 (cpu s)"
  shows "copy_in a n s = Ret vs s' \<Longrightarrow> copy_in a n t = Ret vs t"
proof (induction n arbitrary: a vs s')
  case (Suc n)
  then show ?case using assms xlate_cong [OF assms, of False a]
    by (auto simp: read_byte_def bind_Ret_iff split: option.splits)
qed simp

lemma copy_to_cong:
  "mem t = mem s \<Longrightarrow> c_cr3 (cpu t) = c_cr3 (cpu s) \<Longrightarrow> copy_to a vs s = Ret () s' \<Longrightarrow>
   copy_to a vs t = Ret () (t\<lparr>mem := mem s'\<rparr>) \<and> cpu s' = cpu s"
proof (induction vs arbitrary: a s t)
  case (Cons v vs)
  obtain b where b: "xlate True a s = Some b" and c: "copy_to (a + 1) vs (s\<lparr>mem := (mem s)(b := v)\<rparr>) = Ret () s'"
    using Cons.prems(3) by (auto simp: write_byte_def bind_Ret_iff split: option.splits)
  have "copy_to (a + 1) vs (t\<lparr>mem := (mem t)(b := v)\<rparr>) = Ret () (t\<lparr>mem := mem s'\<rparr>) \<and> cpu s' = cpu s"
    using Cons.IH [OF _ _ c, of "t\<lparr>mem := (mem t)(b := v)\<rparr>"] Cons.prems(1,2) by simp
  then show ?case using xlate_cong [OF Cons.prems(1,2), of True a] b by (simp add: write_byte_def)
qed simp

lemma copy_in_state: "copy_in a n s = Ret vs s' \<Longrightarrow> s' = s \<and> length vs = n"
  by (induction n arbitrary: a vs s') (auto simp: read_byte_def bind_Ret_iff split: option.splits)

lemma upd_pipe_simps [simp]:
  "mem (upd_pipe p f s) = mem s" "cpu (upd_pipe p f s) = cpu s" "pipes (upd_pipe p f s) p = f (pipes s p)"
  "upd_pipe p f (upd_pipe p g s) = upd_pipe p (\<lambda>q. f (g q)) s"
  by (simp_all add: upd_pipe_def)

text \<open>The two copying loops are the operations of the queue, one byte at a time.\<close>

lemma pipewrite_loop_puts:
  "pipe_ok (pipes s p) \<Longrightarrow> pipe_len (pipes s p) + n \<le> PIPESIZE \<Longrightarrow> copy_in a n s = Ret vs s \<Longrightarrow>
   pipewrite_loop p tot a n s = pipewrite_loop p tot (a + of_nat n) 0 (upd_pipe p (fold pipe_put vs) s)"
proof (induction n arbitrary: a s vs)
  case 0
  then show ?case by (simp add: upd_pipe_def)
next
  case (Suc n)
  obtain c vs' where c: "read_byte a s = Ret c s" "copy_in (a + 1) n s = Ret vs' s" "vs = c # vs'"
    using Suc.prems(3) by (auto simp: read_byte_def bind_Ret_iff split: option.splits dest: copy_in_state)
  let ?s = "upd_pipe p (pipe_put c) s"
  have room: "pipe_len (pipes s p) < PIPESIZE" using Suc.prems(2) by simp
  then have "pi_nwrite (pipes s p) \<noteq> pi_nread (pipes s p) + of_nat PIPESIZE" using pipe_full [OF Suc.prems(1)] by auto
  then have "pipewrite_loop p tot a (Suc n) s = pipewrite_loop p tot (a + 1) n ?s"
    using c(1) by (simp add: pipe_put_def [abs_def] pipe_slot_def)
  also have "\<dots> = pipewrite_loop p tot (a + 1 + of_nat n) 0 (upd_pipe p (fold pipe_put vs') ?s)"
    using Suc.IH [of ?s "a + 1" vs'] pipe_put_ok [OF Suc.prems(1) room, of c] Suc.prems(2) copy_in_cong [OF _ _ c(2), of ?s] by simp
  finally show ?case using c(3) by (simp add: o_def add.assoc)
qed

lemma piperead_copy_gets:
  "pipe_ok (pipes s p) \<Longrightarrow> copy_to a (take n (contents (pipes s p))) s = Ret () s1 \<Longrightarrow>
   piperead_copy p a n s = Ret (int (min n (pipe_len (pipes s p))))
     ((upd_pipe p ((\<lambda>q. snd (pipe_get q)) ^^ min n (pipe_len (pipes s p))) s)\<lparr>mem := mem s1\<rparr>)"
proof (induction n arbitrary: a s s1)
  case 0
  then show ?case by (simp add: upd_pipe_def)
next
  case (Suc n)
  let ?q = "pipes s p" and ?g = "\<lambda>q. snd (pipe_get q)"
  show ?case
  proof (cases "pipe_len ?q = 0")
    case True
    then have "contents ?q = []" by (simp add: contents_def)
    then show ?thesis using Suc.prems True pipe_empty [of ?q] by (simp add: upd_pipe_def)
  next
    case False
    note g = pipe_get_ok [OF Suc.prems(1)]
    have c: "contents ?q = fst (pipe_get ?q) # contents (?g ?q)" "pipe_ok (?g ?q)" "pipe_len ?q = Suc (pipe_len (?g ?q))"
      using g False by auto
    let ?c = "fst (pipe_get ?q)"
    obtain b where b: "xlate True a s = Some b" "copy_to (a + 1) (take n (contents (?g ?q))) (s\<lparr>mem := (mem s)(b := ?c)\<rparr>) = Ret () s1"
      using Suc.prems(2) unfolding c(1) by (auto simp: write_byte_def bind_Ret_iff split: option.splits)
    let ?t = "(upd_pipe p ?g s)\<lparr>mem := (mem s)(b := ?c)\<rparr>"
    have t: "pipes ?t p = ?g ?q" by (simp add: upd_pipe_def)
    have ct: "copy_to (a + 1) (take n (contents (pipes ?t p))) ?t = Ret () (?t\<lparr>mem := mem s1\<rparr>)"
      using copy_to_cong [OF _ _ b(2), of ?t] t by simp
    have ih: "piperead_copy p (a + 1) n ?t = Ret (int (min n (pipe_len (?g ?q)))) ((upd_pipe p (?g ^^ min n (pipe_len (?g ?q))) ?t)\<lparr>mem := mem s1\<rparr>)"
      using Suc.IH [OF _ ct] t c(2) by simp
    have "write_byte a ?c (upd_pipe p (\<lambda>q. q\<lparr>pi_nread := pi_nread q + 1\<rparr>) s) = Ret () ?t"
      using xlate_cong [of "upd_pipe p (\<lambda>q. q\<lparr>pi_nread := pi_nread q + 1\<rparr>) s" s True a] b(1)
      by (simp add: write_byte_def upd_pipe_def pipe_get_def)
    then have "piperead_copy p a (Suc n) s = Ret (int (min n (pipe_len (?g ?q))) + 1) ((upd_pipe p (?g ^^ min n (pipe_len (?g ?q))) ?t)\<lparr>mem := mem s1\<rparr>)"
      using ih False pipe_empty [of ?q] by (simp add: pipe_get_def pipe_slot_def Let_def)
    moreover have "(upd_pipe p (?g ^^ k) ?t)\<lparr>mem := mem s1\<rparr> = (upd_pipe p (?g ^^ Suc k) s)\<lparr>mem := mem s1\<rparr>" for k
      using funpow_swap1 [of ?g k ?q] by (simp add: upd_pipe_def)
    ultimately show ?thesis using c(3) by (simp add: o_def)
  qed
qed

text \<open>The calls, while the process runs and nobody holds a lock.\<close>

lemma file_lock_frame [simp]:
  "pipes (take_lock l s) = pipes s" "pipes (drop_lock l s) = pipes s" "pipes (wakeup1 c s) = pipes s"
  "mem (take_lock l s) = mem s" "mem (drop_lock l s) = mem s" "mem (wakeup1 c s) = mem s"
  by (simp_all add: take_lock_def drop_lock_def pushcli_def wakeup1_eq Let_def)

lemma pipe_end:
  assumes "user_ctx i s" and "t = (take_lock l s)\<lparr>pipes := P, mem := m\<rparr>" and "l \<noteq> Ptable_lock"
  shows "\<exists>u. bind (wakeup c t) (\<lambda>_ t. bind (release l t) (\<lambda>_ t. Ret v t)) = Ret v u \<and> pipes u = P \<and> mem u = m"
proof -
  let ?u = "wakeup1 c (take_lock Ptable_lock t)"
  let ?v = "drop_lock Ptable_lock ?u"
  have ok: "cpu_ok s" "unlocked l s" "unlocked Ptable_lock s" using assms(1) by (auto simp: user_ctx_def cpu_ok_def unlocked_def)
  then have t: "unlocked Ptable_lock t" "cpu_ok t" "holding l t" using assms(2,3) by (auto simp: unlocked_def cpu_ok_def holding_def)
  have "release Ptable_lock ?u = Ret () ?v" using t(2) by (intro release_held) (auto simp: holding_def cpu_ok_def)
  moreover have "release l ?v = Ret () (drop_lock l ?v)"
    using t ok assms(2,3) by (intro release_held) (auto simp: holding_def cpu_ok_def)
  ultimately show ?thesis using t(1) assms(2) by (auto simp: acquire_free wakeup_def)
qed

lemma piperead_ok:
  assumes "user_ctx i s" and "pipe_ok (pipes s p)" and "0 \<le> m" and "contents (pipes s p) \<noteq> []"
    and "copy_to a (take (nat m) (contents (pipes s p))) s = Ret () s1"
  shows "\<exists>u. piperead p a m s = Ret (min m (int (length (contents (pipes s p))))) u \<and> mem u = mem s1 \<and>
    pipe_ok (pipes u p) \<and> contents (pipes u p) = drop (nat m) (contents (pipes s p))"
proof -
  let ?s = "take_lock (Pipe_lock p) s" and ?k = "min (nat m) (pipe_len (pipes s p))" and ?g = "\<lambda>q. snd (pipe_get q)"
  let ?t = "(upd_pipe p (?g ^^ ?k) ?s)\<lparr>mem := mem s1\<rparr>"
  have q: "pipe_ok ((?g ^^ ?k) (pipes s p))" "contents ((?g ^^ ?k) (pipes s p)) = drop ?k (contents (pipes s p))"
    using pipe.gets [OF assms(2), of ?k] by auto
  have "copy_to a (take (nat m) (contents (pipes s p))) ?s = Ret () (?s\<lparr>mem := mem s1\<rparr>)"
    using copy_to_cong [OF _ _ assms(5), of ?s] by simp
  then have "piperead_copy p a (nat m) ?s = Ret (int ?k) ?t"
    using piperead_copy_gets [of ?s p a "nat m" "?s\<lparr>mem := mem s1\<rparr>"] assms(2) by simp
  moreover have "pi_nread (pipes s p) \<noteq> pi_nwrite (pipes s p)"
    using assms(4) pipe_empty [of "pipes s p"] contents_length [of "pipes s p"] by (auto simp del: contents_length)
  moreover obtain u where "bind (wakeup (Some (Nwrite_chan p)) ?t) (\<lambda>_ s. bind (release (Pipe_lock p) s) (\<lambda>_ s. Ret (int ?k) s)) = Ret (int ?k) u"
    "pipes u = (pipes s)(p := (?g ^^ ?k) (pipes s p))" "mem u = mem s1"
    using pipe_end [OF assms(1), where t = ?t and l = "Pipe_lock p" and P = "(pipes s)(p := (?g ^^ ?k) (pipes s p))" and m = "mem s1" and
      c = "Some (Nwrite_chan p)" and v = "int ?k"]
    by (auto simp: upd_pipe_def)
  ultimately have "piperead p a m s = Ret (int ?k) u" "pipes u p = (?g ^^ ?k) (pipes s p)" "mem u = mem s1"
    using user_ctx_lock(1) [OF assms(1)] by (simp_all add: piperead_def piperead_loop_def)
  moreover have "int ?k = min m (int (length (contents (pipes s p))))" using assms(3) by (auto simp: min_def nat_le_iff)
  moreover have "drop ?k (contents (pipes s p)) = drop (nat m) (contents (pipes s p))" by (simp add: min_def)
  ultimately show ?thesis using q by auto
qed

text \<open>
  C13. A pipe delivers the bytes written to it, in order. A process that writes \<open>n\<close> bytes that fit appends
  exactly the bytes of its buffer to the contents of the pipe, and \<open>pipewrite\<close> returns \<open>n\<close>. A later read
  of up to \<open>m\<close> bytes returns how many there were to take, copies exactly the oldest bytes of the pipe to
  the buffer of the reader, and removes them. The ring of 512 bytes keeps its invariant, whatever the
  values of the two counters, which wrap around.
\<close>

theorem pipe_write_read_fifo:
  assumes "user_ctx i s" and "pipe_ok (pipes s p)" and "length (contents (pipes s p)) + n \<le> PIPESIZE" and "0 < n"
    and "copy_in a n s = Ret vs s"
  shows "\<exists>t. pipewrite p a (int n) s = Ret (int n) t \<and> pipe_ok (pipes t p) \<and> contents (pipes t p) = contents (pipes s p) @ vs \<and>
    (\<forall>(r :: file_state) j b m r1. user_ctx j r \<and> pipes r p = pipes t p \<and> 0 \<le> m \<and>
       copy_to b (take (nat m) (contents (pipes s p) @ vs)) r = Ret () r1 \<longrightarrow>
       (\<exists>u. piperead p b m r = Ret (min m (int (length (contents (pipes s p) @ vs)))) u \<and> mem u = mem r1 \<and>
          pipe_ok (pipes u p) \<and> contents (pipes u p) = drop (nat m) (contents (pipes s p) @ vs)))"
proof -
  let ?l = "Pipe_lock p" and ?q = "fold pipe_put vs (pipes s p)"
  let ?s = "take_lock ?l s"
  have vs: "length vs = n" using copy_in_state [OF assms(5)] by simp
  have q: "pipe_ok ?q" "contents ?q = contents (pipes s p) @ vs" using pipe.puts [OF assms(2), of vs] assms(3) vs by auto
  have "pipewrite_loop p (int n) a n ?s = pipewrite_loop p (int n) (a + of_nat n) 0 (upd_pipe p (fold pipe_put vs) ?s)"
    using pipewrite_loop_puts [of ?s p n a vs] assms(2,3) copy_in_cong [OF _ _ assms(5), of ?s] by simp
  moreover obtain t where t: "pipewrite_loop p (int n) (a + of_nat n) 0 (upd_pipe p (fold pipe_put vs) ?s) = Ret (int n) t"
    "pipes t = (pipes s)(p := ?q)"
    using pipe_end [OF assms(1), where t = "upd_pipe p (fold pipe_put vs) ?s" and l = ?l and P = "(pipes s)(p := ?q)" and m = "mem s" and
      c = "Some (Nread_chan p)" and v = "int n"]
    by (auto simp: upd_pipe_def)
  ultimately have w: "pipewrite p a (int n) s = Ret (int n) t" using user_ctx_lock(1) [OF assms(1)] by (simp add: pipewrite_def)
  have "\<exists>u. piperead p b m r = Ret (min m (int (length (contents ?q)))) u \<and> mem u = mem r1 \<and>
      pipe_ok (pipes u p) \<and> contents (pipes u p) = drop (nat m) (contents ?q)"
    if r: "user_ctx j r" "pipes r p = ?q" "0 \<le> m" "copy_to b (take (nat m) (contents ?q)) r = Ret () r1" for r :: file_state and j b m r1
    using piperead_ok [OF r(1) _ r(3), of p b r1] r(2,4) q vs assms(4) by auto
  then show ?thesis using w t(2) q by auto
qed

text \<open>A process that writes two bytes of kernel memory to an empty pipe whose counters are about to wrap around.\<close>

definition file_example :: "pipe \<Rightarrow> file_state" where
  "file_example q = con_state.extend (console_example\<lparr>cpu := (cpu console_example)\<lparr>c_proc := Some 0, c_cr3 := v2p 0x803FE000, c_esp0 := 0x803FE000\<rparr>,
       procs := (\<lambda>_. blank_proc)(0 := (runnable_proc 1)\<lparr>p_state := RUNNING\<rparr>), mem := (\<lambda>_. 0x41)(0x80000042 := 0x42)\<rparr>)
     (file_state.fields (\<lambda>_. \<lparr>f_type = FD_NONE, f_ref = 0, f_readable = False, f_writable = False, f_pipe = 0, f_ip = 0, f_off = 0\<rparr>)
       (\<lambda>_. q))"

definition wrapping_pipe :: pipe where
  "wrapping_pipe = \<lparr>pi_data = replicate 512 0, pi_nread = - 1, pi_nwrite = - 1, pi_readopen = True, pi_writeopen = True\<rparr>"

lemma con_extend:
  "cpu (con_state.extend r x) = cpu r" "locks (con_state.extend r x) = locks r" "procs (con_state.extend r x) = procs r"
  "mem (con_state.extend r x) = mem r" "pipes (con_state.extend r (file_state.fields F P)) = P"
  by (simp_all only: con_state.defs file_state.defs machine.simps kmem_state.simps ptable_state.simps file_state.simps)

lemma file_example_ctx: "user_ctx 0 (file_example q)" "pipes (file_example q) = (\<lambda>_. q)" "mem (file_example q) = (\<lambda>_. 0x41)(0x80000042 := 0x42)"
proof -
  have "locks console_example = (\<lambda>_. free_lock)" "c_ncli (cpu console_example) = 0" "c_if (cpu console_example)" "c_intena (cpu console_example)"
    by (simp_all add: console_example_def)
  then show "user_ctx 0 (file_example q)"
    unfolding user_ctx_def file_example_def con_extend by (simp add: free_lock_def runnable_proc_def blank_proc_def)
qed (simp_all add: file_example_def con_extend)

lemma pipe_write_read_fifo_witness:
  "\<exists>t. pipewrite 0x80500000 0x80000041 2 (file_example wrapping_pipe) = Ret 2 t \<and> contents (pipes t 0x80500000) = [0x41, 0x42]"
proof -
  let ?s = "file_example wrapping_pipe"
  have "contents wrapping_pipe = []" "pipe_ok wrapping_pipe"
    by (simp_all add: wrapping_pipe_def pipe_len_def contents_def pipe_ok_def)
  moreover have r: "read_byte 0x80000041 ?s = Ret 0x41 ?s" "read_byte 0x80000042 ?s = Ret 0x42 ?s"
    by (simp_all add: read_byte_def xlate_def file_example_ctx)
  have "copy_in 0x80000041 (Suc (Suc 0)) ?s = Ret [0x41, 0x42] ?s" by (simp add: r)
  then have "copy_in 0x80000041 2 ?s = Ret [0x41, 0x42] ?s" unfolding numeral_2_eq_2 .
  ultimately show ?thesis
    using pipe_write_read_fifo [of 0 ?s "0x80500000" 2 "0x80000041" "[0x41, 0x42]"] by (auto simp: file_example_ctx)
qed

text \<open>
  C26. Writing to a full pipe that nobody reads any more, or as a killed process, fails: \<open>pipewrite\<close>
  returns -1 with the lock of the pipe given back and the state as it was, instead of sleeping for ever.
\<close>

theorem pipewrite_fails_when_broken:
  assumes "user_ctx i s" and "pipe_ok (pipes s p)" and "length (contents (pipes s p)) = PIPESIZE" and "0 < n"
    and "\<not> pi_readopen (pipes s p) \<or> p_killed (procs s i)"
  shows "pipewrite p a n s = Ret (- 1) s"
proof -
  obtain k where k: "nat n = Suc k" using assms(4) by (cases "nat n") auto
  have "pi_nwrite (pipes s p) = pi_nread (pipes s p) + of_nat PIPESIZE" using pipe_full [OF assms(2)] assms(3) by simp
  moreover have "c_proc (cpu s) = Some i" using assms(1) by (simp add: user_ctx_def)
  moreover have "release (Pipe_lock p) (take_lock (Pipe_lock p) s) = Ret () s"
    using user_ctx_lock(2) [OF assms(1), of "Pipe_lock p" "bufs s"] by (metis (no_types) ide_state.surjective ide_state.update_convs(1) lock_frame_ide(1))
  moreover have "procs (take_lock (Pipe_lock p) s) = procs s" by (simp add: take_lock_def pushcli_def Let_def)
  ultimately show ?thesis using assms(5) user_ctx_lock(1) [OF assms(1)] by (simp add: pipewrite_def k with_proc_def)
qed

lemma pipewrite_fails_when_broken_witness:
  "pipewrite 0x80500000 0x80000041 2 (file_example (wrapping_pipe\<lparr>pi_nwrite := 511, pi_readopen := False\<rparr>)) =
     Ret (- 1) (file_example (wrapping_pipe\<lparr>pi_nwrite := 511, pi_readopen := False\<rparr>))"
  by (rule pipewrite_fails_when_broken [of 0]) (simp_all add: file_example_ctx wrapping_pipe_def pipe_ok_def pipe_len_def)

end
