(* ===== verification/Threads.thy ===== *)
theory Threads
  imports File
begin

text \<open>
  Creation and termination of processes and threads (\<open>proc.c\<close>): \<open>userinit\<close>, \<open>growproc\<close>, \<open>fork\<close>,
  \<open>exit\<close>, \<open>wait\<close>, \<open>register_handler\<close>, \<open>forkret\<close>, \<open>thread_create\<close> and \<open>thread_exit\<close>. A thread is a
  process table entry that shares page directory and process ID with its parent entry.
\<close>

section \<open>The trap frame\<close>

text \<open>Offsets of the fields of \<open>struct trapframe\<close> (\<open>x86.h\<close>) the code uses; its size is 76 bytes.\<close>

abbreviation TF_EAX :: addr where "TF_EAX \<equiv> 28"
abbreviation TF_ES :: addr where "TF_ES \<equiv> 40"
abbreviation TF_DS :: addr where "TF_DS \<equiv> 44"
abbreviation TF_TRAPNO :: addr where "TF_TRAPNO \<equiv> 48"
abbreviation TF_EIP :: addr where "TF_EIP \<equiv> 56"
abbreviation TF_CS :: addr where "TF_CS \<equiv> 60"
abbreviation TF_EFLAGS :: addr where "TF_EFLAGS \<equiv> 64"
abbreviation TF_ESP :: addr where "TF_ESP \<equiv> 68"
abbreviation TF_SS :: addr where "TF_SS \<equiv> 72"
abbreviation TF_SIZE :: uint where "TF_SIZE \<equiv> 76"

definition tf_get :: "nat \<Rightarrow> addr \<Rightarrow> 'm ptable_state_scheme \<Rightarrow> uint" where
  "tf_get i f s = load32 (mem s) (p_tf (procs s i) + f)"

definition tf_set :: "nat \<Rightarrow> addr \<Rightarrow> uint \<Rightarrow> 'm ptable_state_scheme \<Rightarrow> 'm ptable_state_scheme" where
  "tf_set i f v s = s\<lparr>mem := store32 (mem s) (p_tf (procs s i) + f) v\<rparr>"

text \<open>A segment selector is a 16-bit field.\<close>

definition tf_set16 :: "nat \<Rightarrow> addr \<Rightarrow> uint \<Rightarrow> 'm ptable_state_scheme \<Rightarrow> 'm ptable_state_scheme" where
  "tf_set16 i f v s =
     (let a = p_tf (procs s i) + f
      in s\<lparr>mem := (mem s)(a := ucast v, a + 1 := ucast (drop_bit 8 v))\<rparr>)"

definition copy_tf :: "nat \<Rightarrow> nat \<Rightarrow> 'm ptable_state_scheme \<Rightarrow> 'm ptable_state_scheme" where
  "copy_tf dst src s =
     s\<lparr>mem := memmove (mem s) (p_tf (procs s dst)) (p_tf (procs s src)) TF_SIZE\<rparr>"

definition set_name :: "nat \<Rightarrow> byte list \<Rightarrow> 'm ptable_state_scheme \<Rightarrow> (unit, 'm ptable_state_scheme) kres" where
  "set_name i name s =
     (case safestrcpy (p_name (procs s i)) name 16 of
        None \<Rightarrow> Undef
      | Some n \<Rightarrow> Ret () (upd_proc i (\<lambda>p. p\<lparr>p_name := n\<rparr>) s))"

section \<open>State\<close>

text \<open>
  The program \<open>initcode\<close> linked into the kernel: its address and size; and the static variable \<open>first\<close>
  of \<open>forkret\<close>.
\<close>

record thread_state = file_state +
  initcode_start :: addr
  initcode_size :: uint
  forkret_first :: bool

section \<open>The first process\<close>

definition userinit :: "'m thread_state_scheme \<Rightarrow> (unit, 'm thread_state_scheme) kres" where
  "userinit s =
     bind (allocproc s) (\<lambda>r s.
     case r of
       None \<Rightarrow> Undef
     | Some p \<Rightarrow>
         bind (setupkvm (s\<lparr>initproc := Some p\<rparr>)) (\<lambda>pgdir s.
         let s = upd_proc p (\<lambda>q. q\<lparr>p_pgdir := pgdir\<rparr>) s
         in if pgdir = 0 then Panic ''userinit: out of memory?''
            else bind (inituvm pgdir (initcode_start s) (initcode_size s) s) (\<lambda>_ s.
                 let s = upd_proc p (\<lambda>q. q\<lparr>p_sz := PGSIZE\<rparr>) s;
                     s = s\<lparr>mem := memset (mem s) (p_tf (procs s p)) 0 TF_SIZE\<rparr>;
                     s = tf_set16 p TF_CS 0x23 s;
                     s = tf_set16 p TF_DS 0x2B s;
                     s = tf_set16 p TF_ES 0x2B s;
                     s = tf_set16 p TF_SS 0x2B s;
                     s = tf_set p TF_EFLAGS 0x200 s;
                     s = tf_set p TF_ESP PGSIZE s;
                     s = tf_set p TF_EIP 0 s
                 in bind (set_name p (bytes_of ''initcode'' @ [0]) s) (\<lambda>_ s.
                    bind (namei [slash] s) (\<lambda>cwd s.
                    Ret () (upd_proc p (\<lambda>q. q\<lparr>p_cwd := cwd, p_state := RUNNABLE\<rparr>) s))))))"

definition forkret :: "'m thread_state_scheme \<Rightarrow> (unit, 'm thread_state_scheme) kres" where
  "forkret s =
     bind (release Ptable_lock s) (\<lambda>_ s.
     if forkret_first s then initlog (s\<lparr>forkret_first := False\<rparr>) else Ret () s)"

section \<open>Growing and forking\<close>

definition growproc :: "int \<Rightarrow> 'm ptable_state_scheme \<Rightarrow> (int, 'm ptable_state_scheme) kres" where
  "growproc n s =
     with_proc s (\<lambda>me.
     let sz = p_sz (procs s me);
         done = (\<lambda>sz s. bind (switchuvm me (upd_proc me (\<lambda>p. p\<lparr>p_sz := sz\<rparr>) s)) (\<lambda>_ s. Ret 0 s))
     in if n > 0 then
          bind (allocuvm (p_pgdir (procs s me)) sz (sz + word_of_int n) s) (\<lambda>sz s.
          if sz = 0 then Ret (- 1) s else done sz s)
        else if n < 0 then
          bind (deallocuvm (p_pgdir (procs s me)) sz (sz + word_of_int n) s) (\<lambda>sz s.
          if sz = 0 then Ret (- 1) s else done sz s)
        else done sz s)"

text \<open>The loop of \<open>fork\<close> and \<open>thread_create\<close> over the open files.\<close>

definition dup_files :: "nat \<Rightarrow> nat \<Rightarrow> 'm file_state_scheme \<Rightarrow> (unit, 'm file_state_scheme) kres" where
  "dup_files np me s =
     kfor (\<lambda>i s.
       case p_ofile (procs s me) i of
         None \<Rightarrow> Ret () s
       | Some f \<Rightarrow>
           bind (filedup f s) (\<lambda>f s.
           Ret () (upd_proc np (\<lambda>p. p\<lparr>p_ofile := (p_ofile p)(i := Some f)\<rparr>) s)))
       [0..<NOFILE] s"

definition fork :: "'m file_state_scheme \<Rightarrow> (int, 'm file_state_scheme) kres" where
  "fork s =
     bind (allocproc s) (\<lambda>r s.
     case r of
       None \<Rightarrow> Ret (- 1) s
     | Some np \<Rightarrow>
         with_proc s (\<lambda>me.
         bind (copyuvm (p_pgdir (procs s me)) (p_sz (procs s me)) s) (\<lambda>pgdir s.
         let s = upd_proc np (\<lambda>p. p\<lparr>p_pgdir := pgdir\<rparr>) s
         in if pgdir = 0 then
              bind (kfree (p_kstack (procs s np)) s) (\<lambda>_ s.
              Ret (- 1) (upd_proc np (\<lambda>p. p\<lparr>p_kstack := 0, p_state := UNUSED\<rparr>) s))
            else
              let s = upd_proc np (\<lambda>p. p\<lparr>p_sz := p_sz (procs s me),
                          p_parent := (if \<not> p_isthread (procs s me) then Some me
                                       else p_parent (procs s me))\<rparr>) s;
                  s = copy_tf np me s;
                  s = tf_set np TF_EAX 0 s
              in bind (dup_files np me s) (\<lambda>_ s.
                 case p_cwd (procs s me) of
                   None \<Rightarrow> Undef
                 | Some cwd \<Rightarrow>
                     bind (idup cwd s) (\<lambda>cwd s.
                     let s = upd_proc np (\<lambda>p. p\<lparr>p_cwd := Some cwd, p_thread_id := 0, p_isthread := False,
                                              p_isjoined := False\<rparr>) s;
                         pid = p_pid (procs s np);
                         s = upd_proc np (\<lambda>p. p\<lparr>p_state := RUNNABLE\<rparr>) s
                     in bind (set_name np (p_name (procs s me)) s) (\<lambda>_ s.
                        Ret pid s))))))"

section \<open>Termination\<close>

text \<open>
  A channel that is a pointer to a process: \<open>wakeup1\<close> on it wakes the process that waits on that entry.
  A null pointer is the channel \<open>None\<close>.
\<close>

definition proc_chan :: "nat option \<Rightarrow> chan option" where
  "proc_chan p = map_option Proc_chan p"

text \<open>The body of the loop of \<open>exit\<close> over the table, for entry \<open>p\<close>; dereferencing a null parent is undefined.\<close>

definition exit_thread :: "nat \<Rightarrow> 'm ptable_state_scheme \<Rightarrow> (unit, 'm ptable_state_scheme) kres" where
  "exit_thread p s =
     (let s = upd_proc p (\<lambda>q. q\<lparr>p_state := ZOMBIE\<rparr>) s
      in if p_isthread (procs s p) then
           (case p_parent (procs s p) of
              None \<Rightarrow> Undef
            | Some m \<Rightarrow>
                let s = (if p_threadnum (procs s m) \<noteq> 0
                         then upd_proc m (\<lambda>q. q\<lparr>p_threadnum := p_threadnum q - 1\<rparr>) s else s)
                in if p_threadnum (procs s m) = 0
                   then Ret () (wakeup1 (proc_chan (p_parent (procs s m))) s)
                   else Ret () s)
         else let s = upd_proc p (\<lambda>q. q\<lparr>p_threadnum := p_threadnum q - 1\<rparr>) s
              in if p_threadnum (procs s p) = 0
                 then Ret () (wakeup1 (proc_chan (p_parent (procs s p))) s)
                 else Ret () s)"

definition exit_entry :: "nat \<Rightarrow> nat \<Rightarrow> 'm ptable_state_scheme \<Rightarrow> (unit, 'm ptable_state_scheme) kres" where
  "exit_entry me p s =
     (if p_pid (procs s p) = p_pid (procs s me) \<and> p_state (procs s p) \<noteq> ZOMBIE then exit_thread p s
      else if p_parent (procs s p) = Some me \<and> \<not> p_isthread (procs s p) then
        let s = upd_proc p (\<lambda>q. q\<lparr>p_parent := initproc s\<rparr>) s
        in if p_state (procs s p) = ZOMBIE then Ret () (wakeup1 (proc_chan (initproc s)) s) else Ret () s
      else Ret () s)"

definition exit_scan :: "nat \<Rightarrow> 'm ptable_state_scheme \<Rightarrow> (unit, 'm ptable_state_scheme) kres" where
  "exit_scan me s = kfor (exit_entry me) [0..<NPROC] s"

definition close_files :: "nat \<Rightarrow> 'm file_state_scheme \<Rightarrow> (unit, 'm file_state_scheme) kres" where
  "close_files me s =
     kfor (\<lambda>fd s.
       case p_ofile (procs s me) fd of
         None \<Rightarrow> Ret () s
       | Some f \<Rightarrow>
           bind (fileclose f s) (\<lambda>_ s.
           Ret () (upd_proc me (\<lambda>p. p\<lparr>p_ofile := (p_ofile p)(fd := None)\<rparr>) s)))
       [0..<NOFILE] s"

text \<open>What follows the closing of the files and of the directory; \<open>exit\<close> ends in \<open>sched\<close>.\<close>

definition exit_table :: "nat \<Rightarrow> 'm ptable_state_scheme \<Rightarrow> (unit, 'm ptable_state_scheme) kres" where
  "exit_table me s =
     bind (acquire Ptable_lock s) (\<lambda>_ s.
     let s = wakeup1 (proc_chan (p_parent (procs s me))) s
     in bind (exit_scan me s) (\<lambda>_ s.
        sched (upd_proc me (\<lambda>p. p\<lparr>p_state := ZOMBIE\<rparr>) s)))"

definition exit :: "'m file_state_scheme \<Rightarrow> (unit, 'm file_state_scheme) kres" where
  "exit s =
     with_proc s (\<lambda>me.
     if Some me = initproc s then Panic ''init exiting''
     else bind (close_files me s) (\<lambda>_ s.
          case p_cwd (procs s me) of
            None \<Rightarrow> Undef
          | Some cwd \<Rightarrow>
              bind (iput cwd s) (\<lambda>_ s.
              exit_table me (upd_proc me (\<lambda>p. p\<lparr>p_cwd := None\<rparr>) s))))"

text \<open>
  \<open>wait\<close>: the search for a child all of whose threads have ended, and the release of all entries of
  that process. The page directory is freed for the first of them.
\<close>

definition wait_find :: "nat \<Rightarrow> 'm ptable_state_scheme \<Rightarrow> nat option" where
  "wait_find me s =
     first_index NPROC (\<lambda>p. p_parent (procs s p) = Some me \<and> p_state (procs s p) = ZOMBIE \<and>
                            \<not> p_isthread (procs s p) \<and> p_threadnum (procs s p) = 0)"

definition havekids :: "nat \<Rightarrow> 'm ptable_state_scheme \<Rightarrow> bool" where
  "havekids me s \<longleftrightarrow> first_index NPROC (\<lambda>p. p_parent (procs s p) = Some me) \<noteq> None"

fun reap :: "int \<Rightarrow> bool \<Rightarrow> nat list \<Rightarrow> 'm ptable_state_scheme \<Rightarrow> (unit, 'm ptable_state_scheme) kres" where
  "reap found first [] s = Ret () s"
| "reap found first (p # ps) s =
     (if p_pid (procs s p) \<noteq> found then reap found first ps s
      else bind (if \<not> first then freevm (p_pgdir (procs s p)) s else Ret () s) (\<lambda>_ s.
           bind (kfree (p_kstack (procs s p)) s) (\<lambda>_ s.
           reap found True ps
             (upd_proc p (\<lambda>q. q\<lparr>p_kstack := 0, p_state := UNUSED, p_pid := 0, p_parent := None,
                               p_name := (p_name q)[0 := 0], p_killed := False\<rparr>) s))))"

definition wait_loop :: "'m ptable_state_scheme \<Rightarrow> (int, 'm ptable_state_scheme) kres" where
  "wait_loop s =
     with_proc s (\<lambda>me.
     let found = (case wait_find me s of Some p \<Rightarrow> p_pid (procs s p) | None \<Rightarrow> 0)
     in bind (if found > 0 then reap found False [0..<NPROC] s else Ret () s) (\<lambda>_ s.
        if found \<noteq> 0 then bind (release Ptable_lock s) (\<lambda>_ s. if found > 0 then Ret found s else Undef)
        else if \<not> havekids me s \<or> p_killed (procs s me) then
          bind (release Ptable_lock s) (\<lambda>_ s. Ret (- 1) s)
        else sleep (Proc_chan me) (Some Ptable_lock) s))"

definition wait :: "'m ptable_state_scheme \<Rightarrow> (int, 'm ptable_state_scheme) kres" where
  "wait s = bind (acquire Ptable_lock s) (\<lambda>_ s. wait_loop s)"

definition wait_resume :: "bool \<Rightarrow> 'm ptable_state_scheme \<Rightarrow> (int, 'm ptable_state_scheme) kres" where
  "wait_resume intena s = bind (sleep_resume Ptable_lock intena s) (\<lambda>_ s. wait_loop s)"

definition register_handler :: "uint \<Rightarrow> 'm ptable_state_scheme \<Rightarrow> (unit, 'm ptable_state_scheme) kres" where
  "register_handler sighandler s =
     with_proc s (\<lambda>me.
     bind (uva2ka (p_pgdir (procs s me)) (tf_get me TF_ESP s) s) (\<lambda>a s.
     let esp = tf_get me TF_ESP s
     in if esp AND 0xFFF = 0 then Panic ''esp_offset == 0''
        else if a = 0 then Undef
        else let s = s\<lparr>mem := store32 (mem s) (a + ((esp - 4) AND 0xFFF)) (tf_get me TF_EIP s)\<rparr>;
                 s = tf_set me TF_ESP (esp - 4) s
             in Ret () (tf_set me TF_EIP sighandler s)))"

section \<open>Threads\<close>

definition thread_create ::
  "uint \<Rightarrow> uint \<Rightarrow> uint \<Rightarrow> 'm file_state_scheme \<Rightarrow> (int, 'm file_state_scheme) kres" where
  "thread_create start_func stack stack_size s =
     bind (allocproc s) (\<lambda>r s.
     case r of
       None \<Rightarrow> Ret (- 1) s
     | Some np \<Rightarrow>
         with_proc s (\<lambda>me.
         let main = (if p_isthread (procs s me) then p_parent (procs s me) else Some me);
             s = upd_proc np (\<lambda>p. p\<lparr>p_pid := p_pid (procs s me), p_pgdir := p_pgdir (procs s me),
                                  p_sz := p_sz (procs s me), p_parent := main\<rparr>) s
         in case main of
              None \<Rightarrow> Undef
            | Some m \<Rightarrow>
                bind (acquire Ptable_lock s) (\<lambda>_ s.
                bind (release Ptable_lock (upd_proc m (\<lambda>p. p\<lparr>p_threadnum := p_threadnum p + 1\<rparr>) s)) (\<lambda>_ s.
                let s = upd_proc np (\<lambda>p. p\<lparr>p_isthread := True, p_isjoined := False\<rparr>) s;
                    s = upd_proc m (\<lambda>p. p\<lparr>p_thread_id := p_thread_id p + 1\<rparr>) s;
                    s = upd_proc np (\<lambda>p. p\<lparr>p_thread_id := p_thread_id (procs s m)\<rparr>) s;
                    s = copy_tf np me s;
                    s = tf_set np TF_ESP (stack + stack_size) s;
                    s = tf_set np TF_EIP start_func s
                in bind (dup_files np me s) (\<lambda>_ s.
                   let s = upd_proc np (\<lambda>p. p\<lparr>p_cwd := p_cwd (procs s me)\<rparr>) s;
                       tid = p_thread_id (procs s np);
                       s = upd_proc np (\<lambda>p. p\<lparr>p_state := RUNNABLE\<rparr>) s
                   in bind (set_name np (p_name (procs s me)) s) (\<lambda>_ s.
                      Ret tid s))))))"

definition thread_exit :: "addr \<Rightarrow> 'm file_state_scheme \<Rightarrow> (unit, 'm file_state_scheme) kres" where
  "thread_exit ret_val s =
     bind (acquire Ptable_lock s) (\<lambda>_ s.
     with_proc s (\<lambda>me.
     if p_isthread (procs s me) then
       (case p_parent (procs s me) of
          None \<Rightarrow> Undef
        | Some m \<Rightarrow>
            if p_threadnum (procs s m) = 1 then
              bind (release Ptable_lock (upd_proc m (\<lambda>p. p\<lparr>p_threadnum := p_threadnum p - 1\<rparr>) s)) (\<lambda>_ s.
              exit s)
            else let s = upd_proc me (\<lambda>p. p\<lparr>p_ret_val := ret_val\<rparr>) s;
                     s = upd_proc m (\<lambda>p. p\<lparr>p_threadnum := p_threadnum p - 1\<rparr>) s;
                     s = upd_proc me (\<lambda>p. p\<lparr>p_state := ZOMBIE\<rparr>) s;
                     s = (if p_isjoined (procs s me) then wakeup1 (Some (Proc_chan me)) s else s)
                 in sched s)
     else if p_threadnum (procs s me) = 1 then
       bind (release Ptable_lock (upd_proc me (\<lambda>p. p\<lparr>p_threadnum := p_threadnum p - 1\<rparr>) s)) (\<lambda>_ s.
       exit s)
     else sched (upd_proc me (\<lambda>p. p\<lparr>p_threadnum := p_threadnum p - 1, p_state := ZOMBIE\<rparr>) s)))"

section \<open>What \<open>exit\<close> does to the process table\<close>

text \<open>
  One step of the loop of \<open>exit\<close>: process IDs and the kinds of entries stay; an entry of the exiting
  process may become a zombie, any entry may be woken, nothing else happens to the states.
\<close>

definition exit_rel :: "int \<Rightarrow> 'm ptable_state_scheme \<Rightarrow> 'm ptable_state_scheme \<Rightarrow> bool" where
  "exit_rel pid s s' \<longleftrightarrow> s' = s\<lparr>procs := procs s'\<rparr> \<and>
     (\<forall>k. p_pid (procs s' k) = p_pid (procs s k) \<and> p_isthread (procs s' k) = p_isthread (procs s k) \<and>
        (p_isthread (procs s k) \<longrightarrow> p_parent (procs s' k) = p_parent (procs s k)) \<and>
        (p_state (procs s' k) = p_state (procs s k) \<or> p_state (procs s' k) = ZOMBIE \<and> p_pid (procs s k) = pid \<or>
         p_state (procs s k) = SLEEPING \<and> p_state (procs s' k) = RUNNABLE))"

lemma exit_rel_refl: "exit_rel pid s s"
  by (simp add: exit_rel_def)

lemma exit_relD:
  assumes "exit_rel pid s s'"
  shows "s' = s\<lparr>procs := procs s'\<rparr>" "p_pid (procs s' k) = p_pid (procs s k)" "p_isthread (procs s' k) = p_isthread (procs s k)"
    "p_isthread (procs s k) \<Longrightarrow> p_parent (procs s' k) = p_parent (procs s k)"
    "p_state (procs s' k) = p_state (procs s k) \<or> p_state (procs s' k) = ZOMBIE \<and> p_pid (procs s k) = pid \<or>
     p_state (procs s k) = SLEEPING \<and> p_state (procs s' k) = RUNNABLE"
  using assms unfolding exit_rel_def by blast+

lemma exit_rel_trans:
  assumes "exit_rel pid s t" and "exit_rel pid t u"
  shows "exit_rel pid s u"
proof -
  note a = exit_relD [OF assms(1)] and b = exit_relD [OF assms(2)]
  have "t\<lparr>procs := P\<rparr> = s\<lparr>procs := P\<rparr>" for P using arg_cong [OF a(1), of "\<lambda>t. t\<lparr>procs := P\<rparr>"] by simp
  then have "u = s\<lparr>procs := procs u\<rparr>" using b(1) by simp
  moreover have "p_state (procs u k) = p_state (procs s k) \<or> p_state (procs u k) = ZOMBIE \<and> p_pid (procs s k) = pid \<or>
     p_state (procs s k) = SLEEPING \<and> p_state (procs u k) = RUNNABLE" for k
    using a(5) [of k] b(5) [of k] a(2) [of k] by (elim disjE conjE) simp_all
  ultimately show ?thesis unfolding exit_rel_def using a(2-4) b(2-4) by metis
qed

lemma exit_rel_wakeup: "exit_rel pid s (wakeup1 c s)"
  unfolding exit_rel_def wakeup1_eq by (auto simp: woken_def)

lemma exit_rel_upd:
  assumes "q = procs s p" and "p_pid (f q) = p_pid q" and "p_isthread (f q) = p_isthread q"
    and "p_isthread q \<Longrightarrow> p_parent (f q) = p_parent q" and "p_state (f q) = p_state q \<or> p_state (f q) = ZOMBIE \<and> p_pid q = pid"
  shows "exit_rel pid s (upd_proc p f s)"
  using assms unfolding exit_rel_def upd_proc_def by auto

lemma exit_thread_rel:
  assumes "p_pid (procs s p) = pid" and "p_isthread (procs s p) \<Longrightarrow> p_parent (procs s p) \<noteq> None"
  shows "\<exists>s'. exit_thread p s = Ret () s' \<and> exit_rel pid s s' \<and> p_state (procs s' p) = ZOMBIE"
proof -
  let ?s = "upd_proc p (\<lambda>q. q\<lparr>p_state := ZOMBIE\<rparr>) s"
  let ?dec = "\<lambda>m s. upd_proc m (\<lambda>q. q\<lparr>p_threadnum := p_threadnum q - 1\<rparr>) s"
  have r0: "exit_rel pid s ?s" using assms(1) by (intro exit_rel_upd [OF refl]) simp_all
  have rd: "exit_rel pid s t \<Longrightarrow> exit_rel pid s (?dec m t)" for m t by (erule exit_rel_trans) (rule exit_rel_upd [OF refl]; simp)
  have rw: "exit_rel pid s t \<Longrightarrow> exit_rel pid s (wakeup1 c t)" for c t by (erule exit_rel_trans) (rule exit_rel_wakeup)
  have z: "p_state (procs ?s p) = ZOMBIE" by (simp add: upd_proc_def)
  have zd: "p_state (procs t p) = ZOMBIE \<Longrightarrow> p_state (procs (?dec m t) p) = ZOMBIE" for m t by (auto simp: upd_proc_def)
  have zw: "p_state (procs t p) = ZOMBIE \<Longrightarrow> p_state (procs (wakeup1 c t) p) = ZOMBIE" for c t by (simp add: wakeup1_eq woken_def)
  have fin: "\<exists>s'. exit_thread p s = Ret () s' \<and> exit_rel pid s s' \<and> p_state (procs s' p) = ZOMBIE"
    if "exit_thread p s = Ret () (if c then wakeup1 ch t else t)" "exit_rel pid s t" "p_state (procs t p) = ZOMBIE" for c ch t
    using that rw [OF that(2)] zw [OF that(3)] by (cases c) auto
  show ?thesis
  proof (cases "p_isthread (procs s p)")
    case True
    then obtain m where m: "p_parent (procs s p) = Some m" using assms(2) by auto
    let ?t = "if p_threadnum (procs ?s m) \<noteq> 0 then ?dec m ?s else ?s"
    have "exit_thread p s = Ret () (if p_threadnum (procs ?t m) = 0 then wakeup1 (proc_chan (p_parent (procs ?t m))) ?t else ?t)"
      using True m by (simp add: exit_thread_def Let_def upd_proc_def)
    moreover have "exit_rel pid s ?t" "p_state (procs ?t p) = ZOMBIE" using r0 rd z zd by auto
    ultimately show ?thesis by (rule fin)
  next
    case False
    let ?t = "?dec p ?s"
    have "exit_thread p s = Ret () (if p_threadnum (procs ?t p) = 0 then wakeup1 (proc_chan (p_parent (procs ?t p))) ?t else ?t)"
      using False by (simp add: exit_thread_def Let_def upd_proc_def)
    then show ?thesis using rd [OF r0] zd [OF z] by (rule fin)
  qed
qed

lemma exit_entry_rel:
  assumes "p_isthread (procs s p) \<Longrightarrow> p_pid (procs s p) = p_pid (procs s me) \<Longrightarrow> p_parent (procs s p) \<noteq> None"
  shows "\<exists>s'. exit_entry me p s = Ret () s' \<and> exit_rel (p_pid (procs s me)) s s' \<and>
    (p_pid (procs s p) = p_pid (procs s me) \<longrightarrow> p_state (procs s' p) = ZOMBIE) \<and>
    (p_pid (procs s p) \<noteq> p_pid (procs s me) \<longrightarrow> (\<forall>k. p_threadnum (procs s' k) = p_threadnum (procs s k)) \<and> (\<forall>pid. exit_rel pid s s'))"
proof (cases "p_pid (procs s p) = p_pid (procs s me) \<and> p_state (procs s p) \<noteq> ZOMBIE")
  case True
  then show ?thesis using exit_thread_rel [of s p] assms by (simp add: exit_entry_def)
next
  case False
  let ?t = "upd_proc p (\<lambda>q. q\<lparr>p_parent := initproc s\<rparr>) s"
  show ?thesis
  proof (cases "p_parent (procs s p) = Some me \<and> \<not> p_isthread (procs s p)")
    case True
    have r: "exit_rel pid s ?t" for pid by (rule exit_rel_upd [OF refl]) (use True in simp_all)
    have w: "exit_rel pid s (wakeup1 c ?t)" for c pid by (rule exit_rel_trans [OF r exit_rel_wakeup])
    have st: "p_state (procs ?t p) = p_state (procs s p)" "\<And>k. p_threadnum (procs ?t k) = p_threadnum (procs s k)"
      by (simp_all add: upd_proc_def)
    have wk: "p_state (procs ?t p) = ZOMBIE \<Longrightarrow> p_state (procs (wakeup1 c ?t) p) = ZOMBIE"
      "p_threadnum (procs (wakeup1 c ?t) k) = p_threadnum (procs ?t k)" for c k by (simp_all add: wakeup1_eq woken_def)
    have "exit_entry me p s = Ret () (if p_state (procs s p) = ZOMBIE then wakeup1 (proc_chan (initproc s)) ?t else ?t)"
      using False True st(1) by (auto simp: exit_entry_def Let_def upd_proc_def)
    then show ?thesis using False r w st wk by (cases "p_state (procs s p) = ZOMBIE") auto
  next
    case no: False
    then have "exit_entry me p s = Ret () s" using False by (auto simp: exit_entry_def)
    then show ?thesis using False exit_rel_refl by auto
  qed
qed

text \<open>A loop whose body returns and establishes a property of its entry that later rounds keep.\<close>

lemma exit_scan_list:
  assumes "\<And>p. p \<in> set xs \<Longrightarrow> p_isthread (procs s p) \<Longrightarrow> p_pid (procs s p) = p_pid (procs s me) \<Longrightarrow> p_parent (procs s p) \<noteq> None"
  shows "\<exists>s'. kfor (exit_entry me) xs s = Ret () s' \<and> exit_rel (p_pid (procs s me)) s s' \<and>
    (\<forall>p\<in>set xs. p_pid (procs s p) = p_pid (procs s me) \<longrightarrow> p_state (procs s' p) = ZOMBIE) \<and>
    ((\<forall>p\<in>set xs. p_pid (procs s p) \<noteq> p_pid (procs s me)) \<longrightarrow>
       (\<forall>k. p_threadnum (procs s' k) = p_threadnum (procs s k)) \<and> (\<forall>pid. exit_rel pid s s'))"
  using assms
proof (induction xs arbitrary: s)
  case Nil
  show ?case by (simp add: exit_rel_refl)
next
  case (Cons x xs)
  let ?pid = "p_pid (procs s me)"
  obtain t where t: "exit_entry me x s = Ret () t" "exit_rel ?pid s t" "p_pid (procs s x) = ?pid \<longrightarrow> p_state (procs t x) = ZOMBIE"
    "p_pid (procs s x) \<noteq> ?pid \<longrightarrow> (\<forall>k. p_threadnum (procs t k) = p_threadnum (procs s k)) \<and> (\<forall>pid. exit_rel pid s t)"
    using exit_entry_rel [of s x me] Cons.prems by auto
  note d = exit_relD [OF t(2)]
  obtain u where u: "kfor (exit_entry me) xs t = Ret () u" "exit_rel ?pid t u"
    "\<forall>p\<in>set xs. p_pid (procs s p) = ?pid \<longrightarrow> p_state (procs u p) = ZOMBIE"
    "(\<forall>p\<in>set xs. p_pid (procs s p) \<noteq> ?pid) \<longrightarrow> (\<forall>k. p_threadnum (procs u k) = p_threadnum (procs t k)) \<and> (\<forall>pid. exit_rel pid t u)"
    using Cons.IH [of t] Cons.prems d(2-4) by auto
  have "p_pid (procs s x) = ?pid \<longrightarrow> p_state (procs u x) = ZOMBIE" using t(3) exit_relD(5) [OF u(2), of x] by auto
  moreover have "\<forall>pid. exit_rel pid s u" if "\<forall>p\<in>set (x # xs). p_pid (procs s p) \<noteq> ?pid"
    using that t(4) u(4) by (auto intro: exit_rel_trans [of _ s t u])
  ultimately show ?case using t(1,4) u(1,3,4) exit_rel_trans [OF t(2) u(2)] by auto
qed


text \<open>Entered with a count of 0 threads, the loop of \<open>exit\<close> leaves a count of -1.\<close>

lemma exit_scan_without_threads:
  assumes "me < NPROC" and "\<not> p_isthread (procs s me)" and "p_state (procs s me) = RUNNING" and "p_threadnum (procs s me) = 0"
    and "\<And>p. p < NPROC \<Longrightarrow> p \<noteq> me \<Longrightarrow> p_pid (procs s p) \<noteq> p_pid (procs s me)"
  shows "\<exists>s'. exit_scan me s = Ret () s' \<and> p_state (procs s' me) = ZOMBIE \<and> p_threadnum (procs s' me) = - 1 \<and>
    (\<forall>(t :: file_state) q. procs t me = procs s' me \<longrightarrow> wait_find q t \<noteq> Some me)"
proof -
  let ?pid = "p_pid (procs s me)"
  have split: "[0..<NPROC] = [0..<me] @ me # [Suc me..<NPROC]" 
    using upt_add_eq_append [of 0 me "NPROC - me"] upt_conv_Cons [OF assms(1)] assms(1) by simp
  obtain t where t: "kfor (exit_entry me) [0..<me] s = Ret () t" "exit_rel ?pid s t" "p_threadnum (procs t me) = 0" "\<forall>pid. exit_rel pid s t"
    using exit_scan_list [of "[0..<me]" s me] assms by auto
  have tm: "\<not> p_isthread (procs t me)" "p_pid (procs t me) = ?pid" "p_state (procs t me) \<noteq> ZOMBIE"
    using exit_relD(2,3) [OF t(2), of me] exit_relD(5) [OF t(4) [rule_format], of me "?pid + 1"] assms(2,3) by auto
  let ?u = "upd_proc me (\<lambda>q. q\<lparr>p_threadnum := p_threadnum q - 1\<rparr>) (upd_proc me (\<lambda>q. q\<lparr>p_state := ZOMBIE\<rparr>) t)"
  have u: "exit_entry me me t = Ret () ?u" using tm t(3) by (simp add: exit_entry_def exit_thread_def Let_def upd_proc_def)
  have pu: "procs ?u me = (procs t me)\<lparr>p_state := ZOMBIE, p_threadnum := - 1\<rparr>" using t(3) by (simp add: upd_proc_def)
  have pids: "p_pid (procs ?u p) = p_pid (procs s p)" for p using exit_relD(2) [OF t(2), of p] by (auto simp: upd_proc_def)
  have ne: "\<forall>p\<in>set [Suc me..<NPROC]. p_pid (procs ?u p) \<noteq> p_pid (procs ?u me)" unfolding pids using assms(5) by simp
  then obtain v where v: "kfor (exit_entry me) [Suc me..<NPROC] ?u = Ret () v" "exit_rel (p_pid (procs ?u me)) ?u v"
    "\<forall>k. p_threadnum (procs v k) = p_threadnum (procs ?u k)"
    using exit_scan_list [of "[Suc me..<NPROC]" ?u me] by blast
  have v3: "p_threadnum (procs v me) = - 1" using v(3) [rule_format, of me] unfolding pu by simp
  have "exit_scan me s = Ret () v" unfolding exit_scan_def split kfor_append using t(1) u v(1) by simp
  moreover have "p_state (procs v me) = ZOMBIE" using exit_relD(5) [OF v(2), of me] pu by auto
  moreover have "wait_find q r \<noteq> Some me" if "procs r me = procs v me" for r :: file_state and q
    using that v3 first_index_Some unfolding wait_find_def by fastforce
  ultimately show ?thesis using v3 by auto
qed

lemma lock_unlock:
  fixes s :: "'m ide_state_scheme"
  assumes "user_ctx i s"
  shows "release l (take_lock l s) = Ret () s"
  using user_ctx_lock(2) [OF assms, of l "bufs s"] by (metis (no_types) ide_state.surjective ide_state.update_convs(1) lock_frame_ide(1))


text \<open>
  C16. When every entry of the process table is in use, \<open>fork\<close> and \<open>thread_create\<close> return -1 and leave the
  state, locks included, exactly as it was.
\<close>

theorem fork_fails_when_table_full:
  fixes s :: "'m file_state_scheme"
  assumes "user_ctx i s" and "\<forall>p<NPROC. p_state (procs s p) \<noteq> UNUSED"
  shows "fork s = Ret (- 1) s \<and> thread_create f stack stack_size s = Ret (- 1) s"
proof -
  have "procs (take_lock Ptable_lock s) = procs s" by (simp add: take_lock_def pushcli_def Let_def)
  then have "first_index NPROC (\<lambda>i. p_state (procs (take_lock Ptable_lock s) i) = UNUSED) = None"
    using assms(2) by (simp add: first_index_None)
  then have "allocproc s = Ret None s"
    using user_ctx_lock(1) [OF assms(1)] lock_unlock [OF assms(1)] by (simp add: allocproc_def)
  then show ?thesis by (simp add: fork_def thread_create_def)
qed

lemma file_example_procs: "procs (file_example q) = (\<lambda>_. blank_proc)(0 := (runnable_proc 1)\<lparr>p_state := RUNNING\<rparr>)"
  unfolding file_example_def con_extend by simp



lemma fork_fails_when_table_full_witness:
  "fork ((file_example wrapping_pipe)\<lparr>procs := \<lambda>_. (runnable_proc 1)\<lparr>p_state := RUNNING\<rparr>\<rparr>) =
     Ret (- 1) ((file_example wrapping_pipe)\<lparr>procs := \<lambda>_. (runnable_proc 1)\<lparr>p_state := RUNNING\<rparr>\<rparr>)"
proof -
  let ?s = "(file_example wrapping_pipe)\<lparr>procs := \<lambda>_. (runnable_proc 1)\<lparr>p_state := RUNNING\<rparr>\<rparr>"
  note p = file_example_procs [of wrapping_pipe]
  have "user_ctx 0 ?s" using file_example_ctx(1) [of wrapping_pipe] unfolding user_ctx_def p by simp
  then show ?thesis using fork_fails_when_table_full [of 0 ?s] by simp
qed

end
