(* ===== verification/Exec.thy ===== *)
theory Exec
  imports Threads
begin

text \<open>
  Loading programs (\<open>exec.c\<close>, \<open>elf.h\<close>, \<open>loaduvm\<close> of \<open>vm.c\<close>). The arguments are the contents of the
  strings \<open>argv\<close> points to, without the terminating nulls.
\<close>

section \<open>Loading a segment\<close>

fun loaduvm_loop ::
  "addr \<Rightarrow> addr \<Rightarrow> nat \<Rightarrow> uint \<Rightarrow> uint \<Rightarrow> addr list \<Rightarrow> 'm con_state_scheme \<Rightarrow> (int, 'm con_state_scheme) kres" where
  "loaduvm_loop pgdir a ip offset sz [] s = Ret 0 s"
| "loaduvm_loop pgdir a ip offset sz (i # is) s =
     bind (walkpgdir pgdir (a + i) False s) (\<lambda>pte s.
     if pte = 0 then Panic ''loaduvm: address should exist''
     else let pa = PTE_ADDR (load32 (mem s) pte);
              n = (if sz - i < PGSIZE then sz - i else PGSIZE)
          in bind (readi ip (Some (p2v pa)) (offset + i) n s) (\<lambda>r s.
             if word_of_int (fst r) \<noteq> n then Ret (- 1) s
             else loaduvm_loop pgdir a ip offset sz is s))"

definition loaduvm ::
  "addr \<Rightarrow> addr \<Rightarrow> nat \<Rightarrow> uint \<Rightarrow> uint \<Rightarrow> 'm con_state_scheme \<Rightarrow> (int, 'm con_state_scheme) kres" where
  "loaduvm pgdir a ip offset sz s =
     (if a mod PGSIZE \<noteq> 0 then Panic ''loaduvm: addr must be page aligned''
      else loaduvm_loop pgdir a ip offset sz (page_range 0 sz) s)"

section \<open>Headers\<close>

abbreviation ELFHDR :: nat where "ELFHDR \<equiv> 52"
abbreviation PROGHDR :: nat where "PROGHDR \<equiv> 32"
abbreviation ELF_MAGIC :: uint where "ELF_MAGIC \<equiv> 0x464C457F"
abbreviation MAXARG :: nat where "MAXARG \<equiv> 32"

record elfhdr =
  e_magic :: uint
  e_entry :: uint
  e_phoff :: uint
  e_phnum :: "16 word"

definition elf_of :: "byte list \<Rightarrow> elfhdr" where
  "elf_of d = \<lparr>e_magic = ld32 d 0, e_entry = ld32 d 24, e_phoff = ld32 d 28, e_phnum = ld16 d 44\<rparr>"

record proghdr =
  ph_type :: uint
  ph_off :: uint
  ph_vaddr :: uint
  ph_filesz :: uint
  ph_memsz :: uint

definition ph_of :: "byte list \<Rightarrow> proghdr" where
  "ph_of d = \<lparr>ph_type = ld32 d 0, ph_off = ld32 d 4, ph_vaddr = ld32 d 8, ph_filesz = ld32 d 16,
     ph_memsz = ld32 d 20\<rparr>"

section \<open>The parts of exec\<close>

text \<open>The label \<open>bad\<close>.\<close>

definition exec_bad :: "addr \<Rightarrow> nat option \<Rightarrow> 'm con_state_scheme \<Rightarrow> (int, 'm con_state_scheme) kres" where
  "exec_bad pgdir ip s =
     bind (if pgdir \<noteq> 0 then freevm pgdir s else Ret () s) (\<lambda>_ s.
     bind (case ip of Some i \<Rightarrow> iunlockput i s | None \<Rightarrow> Ret () s) (\<lambda>_ s.
     Ret (- 1) s))"

text \<open>
  The loop over the program headers, at the given offsets; \<open>None\<close> is the jump to \<open>bad\<close>.
\<close>

fun exec_load ::
  "addr \<Rightarrow> nat \<Rightarrow> uint list \<Rightarrow> uint \<Rightarrow> 'm con_state_scheme \<Rightarrow> (uint option, 'm con_state_scheme) kres" where
  "exec_load pgdir ip [] sz s = Ret (Some sz) s"
| "exec_load pgdir ip (off # offs) sz s =
     bind (readi ip None off (of_nat PROGHDR) s) (\<lambda>r s.
     if fst r \<noteq> int PROGHDR then Ret None s
     else let ph = ph_of (snd r)
          in if ph_type ph \<noteq> 1 then exec_load pgdir ip offs sz s
             else if ph_memsz ph < ph_filesz ph then Ret None s
             else bind (allocuvm pgdir sz (ph_vaddr ph + ph_memsz ph) s) (\<lambda>sz s.
                  if sz = 0 then Ret None s
                  else bind (loaduvm pgdir (ph_vaddr ph) ip (ph_off ph) (ph_filesz ph) s) (\<lambda>r s.
                       if r < 0 then Ret None s else exec_load pgdir ip offs sz s)))"

text \<open>
  The loop that pushes the argument strings: the stack pointer and the addresses of the strings, or
  \<open>None\<close> for the jump to \<open>bad\<close>.
\<close>

fun exec_args ::
  "addr \<Rightarrow> nat \<Rightarrow> byte list list \<Rightarrow> uint \<Rightarrow> 'm kmem_state_scheme \<Rightarrow>
   ((uint \<times> uint list) option, 'm kmem_state_scheme) kres" where
  "exec_args pgdir argc [] sp s = Ret (Some (sp, [])) s"
| "exec_args pgdir argc (arg # args) sp s =
     (if argc \<ge> MAXARG then Ret None s
      else let sp = (sp - (of_nat (length arg) + 1)) AND NOT 3
           in bind (copyout pgdir sp (arg @ [0]) (of_nat (length arg + 1)) s) (\<lambda>r s.
              if r < 0 then Ret None s
              else bind (exec_args pgdir (argc + 1) args sp s) (\<lambda>r s.
                   Ret (map_option (\<lambda>(sp', ps). (sp', sp # ps)) r) s)))"

definition ustack :: "uint \<Rightarrow> uint list \<Rightarrow> uint list" where
  "ustack sp ps = [0xFFFFFFFF, of_nat (length ps), sp - (of_nat (length ps) + 1) * 4] @ ps @ [0]"

definition last_elem :: "byte list \<Rightarrow> byte list" where
  "last_elem path = rev (takeWhile (\<lambda>c. c \<noteq> slash) (rev path))"

definition exec_commit ::
  "byte list \<Rightarrow> addr \<Rightarrow> uint \<Rightarrow> uint \<Rightarrow> uint \<Rightarrow> 'm con_state_scheme \<Rightarrow> (int, 'm con_state_scheme) kres" where
  "exec_commit path pgdir sz sp entry s =
     with_proc s (\<lambda>me.
     bind (set_name me (last_elem path @ [0]) s) (\<lambda>_ s.
     let oldpgdir = p_pgdir (procs s me);
         s = upd_proc me (\<lambda>p. p\<lparr>p_pgdir := pgdir, p_sz := sz\<rparr>) s;
         s = tf_set me TF_EIP entry s;
         s = tf_set me TF_ESP sp s
     in bind (switchuvm me s) (\<lambda>_ s.
        bind (freevm oldpgdir s) (\<lambda>_ s.
        Ret 0 s))))"

definition exec_stack ::
  "byte list \<Rightarrow> byte list list \<Rightarrow> addr \<Rightarrow> uint \<Rightarrow> uint \<Rightarrow> 'm con_state_scheme \<Rightarrow> (int, 'm con_state_scheme) kres" where
  "exec_stack path argv pgdir sz entry s =
     (let sz = PGROUNDUP sz
      in bind (allocuvm pgdir sz (sz + 2 * PGSIZE) s) (\<lambda>sz s.
         if sz = 0 then exec_bad pgdir None s
         else bind (clearpteu pgdir (sz - 2 * PGSIZE) s) (\<lambda>_ s.
              bind (exec_args pgdir 0 argv sz s) (\<lambda>r s.
              case r of
                None \<Rightarrow> exec_bad pgdir None s
              | Some (sp, ps) \<Rightarrow>
                  let words = ustack sp ps;
                      sp = sp - of_nat (length words) * 4
                  in bind (copyout pgdir sp (concat (map word_bytes words)) (of_nat (length words) * 4) s) (\<lambda>r s.
                     if r < 0 then exec_bad pgdir None s
                     else exec_commit path pgdir sz sp entry s)))))"

text \<open>
  \<open>readi(...) < sizeof(elf)\<close> compares without sign: an error of \<open>readi\<close>, which is \<open>-1\<close>, passes the test
  and the header is used uninitialised.
\<close>

definition exec :: "byte list \<Rightarrow> byte list list \<Rightarrow> 'm con_state_scheme \<Rightarrow> (int, 'm con_state_scheme) kres" where
  "exec path argv s =
     bind (namei path s) (\<lambda>r s.
     case r of
       None \<Rightarrow> Ret (- 1) s
     | Some ip \<Rightarrow>
         bind (ilock (Some ip) s) (\<lambda>_ s.
         bind (readi ip None 0 (of_nat ELFHDR) s) (\<lambda>r s.
         if fst r < 0 then Undef
         else if fst r < int ELFHDR then exec_bad 0 (Some ip) s
         else let elf = elf_of (snd r)
              in if e_magic elf \<noteq> ELF_MAGIC then exec_bad 0 (Some ip) s
                 else bind (setupkvm s) (\<lambda>pgdir s.
                      if pgdir = 0 then exec_bad 0 (Some ip) s
                      else let offs = map (\<lambda>i. e_phoff elf + of_nat (PROGHDR * i)) [0..<unat (e_phnum elf)]
                           in bind (exec_load pgdir ip offs 0 s) (\<lambda>r s.
                              case r of
                                None \<Rightarrow> exec_bad pgdir (Some ip) s
                              | Some sz \<Rightarrow>
                                  bind (iunlockput ip s) (\<lambda>_ s.
                                  exec_stack path argv pgdir sz (e_entry elf) s))))))"

end
