(* ===== verification/Sysfile.thy ===== *)
theory Sysfile
  imports Exec
begin

text \<open>
  Fetching system call arguments (\<open>syscall.c\<close>) and the system calls on files (\<open>sysfile.c\<close>). An argument
  that is a pointer to a string is returned as the characters of the string.
\<close>

section \<open>Arguments\<close>

definition fetchint :: "nat \<Rightarrow> uint \<Rightarrow> 'm ptable_state_scheme \<Rightarrow> (uint option, 'm ptable_state_scheme) kres" where
  "fetchint p a s =
     (if a \<ge> p_sz (procs s p) \<or> a + 4 > p_sz (procs s p) then Ret None s
      else bind (read_word a s) (\<lambda>w s. Ret (Some w) s))"

text \<open>The scan of \<open>fetchstr\<close> for the terminating null, over at most \<open>n\<close> bytes.\<close>

fun fetchstr_scan :: "nat \<Rightarrow> uint \<Rightarrow> 'm kmem_state_scheme \<Rightarrow> (byte list option, 'm kmem_state_scheme) kres" where
  "fetchstr_scan 0 a s = Ret None s"
| "fetchstr_scan (Suc n) a s =
     bind (read_byte a s) (\<lambda>c s.
     if c = 0 then Ret (Some []) s
     else bind (fetchstr_scan n (a + 1) s) (\<lambda>r s. Ret (map_option ((#) c) r) s))"

definition fetchstr :: "nat \<Rightarrow> uint \<Rightarrow> 'm ptable_state_scheme \<Rightarrow> (byte list option, 'm ptable_state_scheme) kres" where
  "fetchstr p a s =
     (if a \<ge> p_sz (procs s p) then Ret None s
      else fetchstr_scan (unat (p_sz (procs s p)) - unat a) a s)"

definition argint :: "nat \<Rightarrow> 'm ptable_state_scheme \<Rightarrow> (uint option, 'm ptable_state_scheme) kres" where
  "argint n s = with_proc s (\<lambda>me. fetchint me (tf_get me TF_ESP s + 4 + 4 * of_nat n) s)"

definition argptr :: "nat \<Rightarrow> uint \<Rightarrow> 'm ptable_state_scheme \<Rightarrow> (addr option, 'm ptable_state_scheme) kres" where
  "argptr n sz s =
     with_proc s (\<lambda>me.
     bind (argint n s) (\<lambda>r s.
     case r of
       None \<Rightarrow> Ret None s
     | Some i \<Rightarrow>
         if i \<ge> p_sz (procs s me) \<or> i + sz > p_sz (procs s me) then Ret None s else Ret (Some i) s))"

definition argstr :: "nat \<Rightarrow> 'm ptable_state_scheme \<Rightarrow> (byte list option, 'm ptable_state_scheme) kres" where
  "argstr n s =
     with_proc s (\<lambda>me.
     bind (argint n s) (\<lambda>r s.
     case r of None \<Rightarrow> Ret None s | Some a \<Rightarrow> fetchstr me a s))"

text \<open>The test of an argument: \<open>return -1\<close> when it cannot be fetched.\<close>

definition with_arg ::
  "('a option, 's) kres \<Rightarrow> ('a \<Rightarrow> 's \<Rightarrow> (int, 's) kres) \<Rightarrow> (int, 's) kres" where
  "with_arg m f = bind m (\<lambda>r s. case r of None \<Rightarrow> Ret (- 1) s | Some v \<Rightarrow> f v s)"

section \<open>File descriptors\<close>

definition argfd :: "nat \<Rightarrow> 'm file_state_scheme \<Rightarrow> ((nat \<times> nat) option, 'm file_state_scheme) kres" where
  "argfd n s =
     with_proc s (\<lambda>me.
     bind (argint n s) (\<lambda>r s.
     case r of
       None \<Rightarrow> Ret None s
     | Some fd \<Rightarrow>
         if sint fd < 0 \<or> sint fd \<ge> int NOFILE then Ret None s
         else Ret (map_option (\<lambda>f. (unat fd, f)) (p_ofile (procs s me) (unat fd))) s))"

definition fdalloc :: "nat \<Rightarrow> 'm ptable_state_scheme \<Rightarrow> (nat option, 'm ptable_state_scheme) kres" where
  "fdalloc f s =
     with_proc s (\<lambda>me.
     case first_index NOFILE (\<lambda>fd. p_ofile (procs s me) fd = None) of
       None \<Rightarrow> Ret None s
     | Some fd \<Rightarrow> Ret (Some fd) (upd_proc me (\<lambda>p. p\<lparr>p_ofile := (p_ofile p)(fd := Some f)\<rparr>) s))"

definition sys_dup :: "'m file_state_scheme \<Rightarrow> (int, 'm file_state_scheme) kres" where
  "sys_dup s =
     with_arg (argfd 0 s) (\<lambda>(_, f) s.
     with_arg (fdalloc f s) (\<lambda>fd s.
     bind (filedup f s) (\<lambda>_ s. Ret (int fd) s)))"

definition sys_read :: "'m file_state_scheme \<Rightarrow> (int, 'm file_state_scheme) kres" where
  "sys_read s =
     with_arg (argfd 0 s) (\<lambda>(_, f) s.
     with_arg (argint 2 s) (\<lambda>n s.
     with_arg (argptr 1 n s) (\<lambda>p s.
     fileread f p (sint n) s)))"

definition sys_write :: "'m file_state_scheme \<Rightarrow> (int, 'm file_state_scheme) kres" where
  "sys_write s =
     with_arg (argfd 0 s) (\<lambda>(_, f) s.
     with_arg (argint 2 s) (\<lambda>n s.
     with_arg (argptr 1 n s) (\<lambda>p s.
     filewrite f p (sint n) s)))"

definition sys_close :: "'m file_state_scheme \<Rightarrow> (int, 'm file_state_scheme) kres" where
  "sys_close s =
     with_arg (argfd 0 s) (\<lambda>(fd, f) s.
     with_proc s (\<lambda>me.
     bind (fileclose f (upd_proc me (\<lambda>p. p\<lparr>p_ofile := (p_ofile p)(fd := None)\<rparr>) s)) (\<lambda>_ s.
     Ret 0 s)))"

definition sys_fstat :: "'m file_state_scheme \<Rightarrow> (int, 'm file_state_scheme) kres" where
  "sys_fstat s =
     with_arg (argfd 0 s) (\<lambda>(_, f) s.
     with_arg (argptr 1 20 s) (\<lambda>st s.
     filestat f st s))"

section \<open>Links\<close>

text \<open>The label \<open>bad\<close> of \<open>sys_link\<close>.\<close>

definition link_bad :: "nat \<Rightarrow> 'm con_state_scheme \<Rightarrow> (int, 'm con_state_scheme) kres" where
  "link_bad ip s =
     bind (ilock (Some ip) s) (\<lambda>_ s.
     bind (iupdate ip (upd_inode ip (\<lambda>p. p\<lparr>i_nlink := i_nlink p - 1\<rparr>) s)) (\<lambda>_ s.
     bind (iunlockput ip s) (\<lambda>_ s.
     bind (commit_trans s) (\<lambda>_ s.
     Ret (- 1) s))))"

definition sys_link :: "'m con_state_scheme \<Rightarrow> (int, 'm con_state_scheme) kres" where
  "sys_link s =
     with_arg (argstr 0 s) (\<lambda>old s.
     with_arg (argstr 1 s) (\<lambda>new s.
     with_arg (namei old s) (\<lambda>ip s.
     bind (begin_trans s) (\<lambda>_ s.
     bind (ilock (Some ip) s) (\<lambda>_ s.
     if i_type (inodes s ip) = T_DIR then
       bind (iunlockput ip s) (\<lambda>_ s. bind (commit_trans s) (\<lambda>_ s. Ret (- 1) s))
     else
       bind (iupdate ip (upd_inode ip (\<lambda>p. p\<lparr>i_nlink := i_nlink p + 1\<rparr>) s)) (\<lambda>_ s.
       bind (iunlock (Some ip) s) (\<lambda>_ s.
       bind (nameiparent new s) (\<lambda>r s.
       case r of
         None \<Rightarrow> link_bad ip s
       | Some (dp, name) \<Rightarrow>
           bind (ilock (Some dp) s) (\<lambda>_ s.
           bind (if i_dev (inodes s dp) \<noteq> i_dev (inodes s ip) then Ret (- 1) s
                 else dirlink dp name (i_inum (inodes s ip)) s) (\<lambda>r s.
           bind (iunlockput dp s) (\<lambda>_ s.
           if r < 0 then link_bad ip s
           else bind (iput ip s) (\<lambda>_ s.
                bind (commit_trans s) (\<lambda>_ s.
                Ret 0 s)))))))))))))"

text \<open>\<open>isdirempty\<close> reads the entries after the first two.\<close>

fun isdirempty_scan :: "nat \<Rightarrow> uint list \<Rightarrow> 'm con_state_scheme \<Rightarrow> (bool, 'm con_state_scheme) kres" where
  "isdirempty_scan dp [] s = Ret True s"
| "isdirempty_scan dp (off # offs) s =
     bind (readi dp None off (of_nat DIRENT) s) (\<lambda>r s.
     if fst r \<noteq> int DIRENT then Panic ''isdirempty: readi''
     else if de_inum (snd r) \<noteq> 0 then Ret False s
     else isdirempty_scan dp offs s)"

definition isdirempty :: "nat \<Rightarrow> 'm con_state_scheme \<Rightarrow> (bool, 'm con_state_scheme) kres" where
  "isdirempty dp s = isdirempty_scan dp (drop 2 (dirent_offs (i_size (inodes s dp)))) s"

definition unlink_bad :: "nat \<Rightarrow> 'm con_state_scheme \<Rightarrow> (int, 'm con_state_scheme) kres" where
  "unlink_bad dp s =
     bind (iunlockput dp s) (\<lambda>_ s. bind (commit_trans s) (\<lambda>_ s. Ret (- 1) s))"

text \<open>\<open>sys_unlink\<close> once the entry has been found at \<open>off\<close>.\<close>

definition unlink_entry :: "nat \<Rightarrow> nat \<Rightarrow> uint \<Rightarrow> 'm con_state_scheme \<Rightarrow> (int, 'm con_state_scheme) kres" where
  "unlink_entry dp ip off s =
     bind (ilock (Some ip) s) (\<lambda>_ s.
     if sint (i_nlink (inodes s ip)) < 1 then Panic ''unlink: nlink < 1''
     else bind (if i_type (inodes s ip) = T_DIR then isdirempty ip s else Ret True s) (\<lambda>ok s.
          if \<not> ok then bind (iunlockput ip s) (\<lambda>_ s. unlink_bad dp s)
          else bind (writei dp (Local (replicate DIRENT 0)) off (of_nat DIRENT) s) (\<lambda>w s.
               if w \<noteq> int DIRENT then Panic ''unlink: writei''
               else bind (if i_type (inodes s ip) = T_DIR
                          then iupdate dp (upd_inode dp (\<lambda>p. p\<lparr>i_nlink := i_nlink p - 1\<rparr>) s)
                          else Ret () s) (\<lambda>_ s.
                    bind (iunlockput dp s) (\<lambda>_ s.
                    bind (iupdate ip (upd_inode ip (\<lambda>p. p\<lparr>i_nlink := i_nlink p - 1\<rparr>) s)) (\<lambda>_ s.
                    bind (iunlockput ip s) (\<lambda>_ s.
                    bind (commit_trans s) (\<lambda>_ s.
                    Ret 0 s))))))))"

definition sys_unlink :: "'m con_state_scheme \<Rightarrow> (int, 'm con_state_scheme) kres" where
  "sys_unlink s =
     with_arg (argstr 0 s) (\<lambda>path s.
     with_arg (nameiparent path s) (\<lambda>(dp, name) s.
     bind (begin_trans s) (\<lambda>_ s.
     bind (ilock (Some dp) s) (\<lambda>_ s.
     if namecmp name (bytes_of ''.'' @ [0]) = Some 0 \<or> namecmp name (bytes_of ''..'' @ [0]) = Some 0
     then unlink_bad dp s
     else bind (dirlookup dp name s) (\<lambda>r s.
          case r of
            None \<Rightarrow> unlink_bad dp s
          | Some (ip, off) \<Rightarrow> unlink_entry dp ip off s)))))"

section \<open>Creating and opening\<close>

definition create ::
  "byte list \<Rightarrow> 16 word \<Rightarrow> 16 word \<Rightarrow> 16 word \<Rightarrow> 'm con_state_scheme \<Rightarrow> (nat option, 'm con_state_scheme) kres" where
  "create path type major minor s =
     bind (nameiparent path s) (\<lambda>r s.
     case r of
       None \<Rightarrow> Ret None s
     | Some (dp, name) \<Rightarrow>
         bind (ilock (Some dp) s) (\<lambda>_ s.
         bind (dirlookup dp name s) (\<lambda>r s.
         case r of
           Some (ip, _) \<Rightarrow>
             bind (iunlockput dp s) (\<lambda>_ s.
             bind (ilock (Some ip) s) (\<lambda>_ s.
             if type = T_FILE \<and> i_type (inodes s ip) = T_FILE then Ret (Some ip) s
             else bind (iunlockput ip s) (\<lambda>_ s. Ret None s)))
         | None \<Rightarrow>
             bind (ialloc (i_dev (inodes s dp)) type s) (\<lambda>ip s.
             bind (ilock (Some ip) s) (\<lambda>_ s.
             bind (iupdate ip (upd_inode ip (\<lambda>p. p\<lparr>i_major := major, i_minor := minor, i_nlink := 1\<rparr>) s)) (\<lambda>_ s.
             bind (if type = T_DIR then
                     bind (iupdate dp (upd_inode dp (\<lambda>p. p\<lparr>i_nlink := i_nlink p + 1\<rparr>) s)) (\<lambda>_ s.
                     bind (dirlink ip (bytes_of ''.'' @ [0]) (i_inum (inodes s ip)) s) (\<lambda>r s.
                     if r < 0 then Panic ''create dots''
                     else bind (dirlink ip (bytes_of ''..'' @ [0]) (i_inum (inodes s dp)) s) (\<lambda>r s.
                          if r < 0 then Panic ''create dots'' else Ret () s)))
                   else Ret () s) (\<lambda>_ s.
             bind (dirlink dp name (i_inum (inodes s ip)) s) (\<lambda>r s.
             if r < 0 then Panic ''create: dirlink''
             else bind (iunlockput dp s) (\<lambda>_ s. Ret (Some ip) s)))))))))"

abbreviation O_WRONLY :: uint where "O_WRONLY \<equiv> 1"
abbreviation O_RDWR :: uint where "O_RDWR \<equiv> 2"
abbreviation O_CREATE :: uint where "O_CREATE \<equiv> 0x200"

text \<open>The inode to open, locked, or \<open>None\<close> for \<open>return -1\<close>.\<close>

definition open_inode :: "byte list \<Rightarrow> uint \<Rightarrow> 'm con_state_scheme \<Rightarrow> (nat option, 'm con_state_scheme) kres" where
  "open_inode path omode s =
     (if omode AND O_CREATE \<noteq> 0 then
        bind (begin_trans s) (\<lambda>_ s.
        bind (create path T_FILE 0 0 s) (\<lambda>ip s.
        bind (commit_trans s) (\<lambda>_ s.
        Ret ip s)))
      else
        bind (namei path s) (\<lambda>r s.
        case r of
          None \<Rightarrow> Ret None s
        | Some ip \<Rightarrow>
            bind (ilock (Some ip) s) (\<lambda>_ s.
            if i_type (inodes s ip) = T_DIR \<and> omode \<noteq> 0
            then bind (iunlockput ip s) (\<lambda>_ s. Ret None s)
            else Ret (Some ip) s)))"

definition sys_open :: "'m file_state_scheme \<Rightarrow> (int, 'm file_state_scheme) kres" where
  "sys_open s =
     with_arg (argstr 0 s) (\<lambda>path s.
     with_arg (argint 1 s) (\<lambda>omode s.
     with_arg (open_inode path omode s) (\<lambda>ip s.
     bind (filealloc s) (\<lambda>r s.
     case r of
       None \<Rightarrow> bind (iunlockput ip s) (\<lambda>_ s. Ret (- 1) s)
     | Some f \<Rightarrow>
         bind (fdalloc f s) (\<lambda>r s.
         case r of
           None \<Rightarrow> bind (fileclose f s) (\<lambda>_ s. bind (iunlockput ip s) (\<lambda>_ s. Ret (- 1) s))
         | Some fd \<Rightarrow>
             bind (iunlock (Some ip) s) (\<lambda>_ s.
             Ret (int fd)
               (upd_file f (\<lambda>p. p\<lparr>f_type := FD_INODE, f_ip := ip, f_off := 0,
                                 f_readable := (omode AND O_WRONLY = 0),
                                 f_writable := (omode AND O_WRONLY \<noteq> 0 \<or> omode AND O_RDWR \<noteq> 0)\<rparr>) s)))))))"

text \<open>The common end of \<open>sys_mkdir\<close> and \<open>sys_mknod\<close>: \<open>None\<close> when an argument or \<open>create\<close> failed.\<close>

definition made_node :: "nat option \<Rightarrow> 'm con_state_scheme \<Rightarrow> (int, 'm con_state_scheme) kres" where
  "made_node r s =
     (case r of
        None \<Rightarrow> bind (commit_trans s) (\<lambda>_ s. Ret (- 1) s)
      | Some ip \<Rightarrow> bind (iunlockput ip s) (\<lambda>_ s. bind (commit_trans s) (\<lambda>_ s. Ret 0 s)))"

definition sys_mkdir :: "'m con_state_scheme \<Rightarrow> (int, 'm con_state_scheme) kres" where
  "sys_mkdir s =
     bind (begin_trans s) (\<lambda>_ s.
     bind (argstr 0 s) (\<lambda>path s.
     bind (case path of None \<Rightarrow> Ret None s | Some path \<Rightarrow> create path T_DIR 0 0 s) (\<lambda>r s.
     made_node r s)))"

definition sys_mknod :: "'m con_state_scheme \<Rightarrow> (int, 'm con_state_scheme) kres" where
  "sys_mknod s =
     bind (begin_trans s) (\<lambda>_ s.
     bind (argstr 0 s) (\<lambda>path s.
     bind (case path of
             None \<Rightarrow> Ret None s
           | Some path \<Rightarrow>
               bind (argint 1 s) (\<lambda>major s.
               case major of
                 None \<Rightarrow> Ret None s
               | Some major \<Rightarrow>
                   bind (argint 2 s) (\<lambda>minor s.
                   case minor of
                     None \<Rightarrow> Ret None s
                   | Some minor \<Rightarrow> create path T_DEV (ucast major) (ucast minor) s))) (\<lambda>r s.
     made_node r s)))"

definition sys_chdir :: "'m con_state_scheme \<Rightarrow> (int, 'm con_state_scheme) kres" where
  "sys_chdir s =
     with_arg (argstr 0 s) (\<lambda>path s.
     with_arg (namei path s) (\<lambda>ip s.
     bind (ilock (Some ip) s) (\<lambda>_ s.
     if i_type (inodes s ip) \<noteq> T_DIR then bind (iunlockput ip s) (\<lambda>_ s. Ret (- 1) s)
     else bind (iunlock (Some ip) s) (\<lambda>_ s.
          with_proc s (\<lambda>me.
          case p_cwd (procs s me) of
            None \<Rightarrow> Undef
          | Some cwd \<Rightarrow>
              bind (iput cwd s) (\<lambda>_ s.
              Ret 0 (upd_proc me (\<lambda>p. p\<lparr>p_cwd := Some ip\<rparr>) s)))))))"

text \<open>The loop of \<open>sys_exec\<close> over the argument vector, with room for \<open>n\<close> more entries.\<close>

fun exec_argv :: "nat \<Rightarrow> nat \<Rightarrow> uint \<Rightarrow> 'm ptable_state_scheme \<Rightarrow> (byte list list option, 'm ptable_state_scheme) kres"
where
  "exec_argv me 0 uargv s = Ret None s"
| "exec_argv me (Suc n) uargv s =
     bind (fetchint me uargv s) (\<lambda>r s.
     case r of
       None \<Rightarrow> Ret None s
     | Some uarg \<Rightarrow>
         if uarg = 0 then Ret (Some []) s
         else bind (fetchstr me uarg s) (\<lambda>r s.
              case r of
                None \<Rightarrow> Ret None s
              | Some arg \<Rightarrow> bind (exec_argv me n (uargv + 4) s) (\<lambda>r s. Ret (map_option ((#) arg) r) s)))"

definition sys_exec :: "'m con_state_scheme \<Rightarrow> (int, 'm con_state_scheme) kres" where
  "sys_exec s =
     with_arg (argstr 0 s) (\<lambda>path s.
     with_arg (argint 1 s) (\<lambda>uargv s.
     with_proc s (\<lambda>me.
     with_arg (exec_argv me MAXARG uargv s) (\<lambda>argv s.
     exec path argv s))))"

definition sys_pipe :: "'m file_state_scheme \<Rightarrow> (int, 'm file_state_scheme) kres" where
  "sys_pipe s =
     with_arg (argptr 0 8 s) (\<lambda>fd s.
     with_arg (pipealloc s) (\<lambda>(rf, wf) s.
     with_proc s (\<lambda>me.
     bind (fdalloc rf s) (\<lambda>fd0 s.
     case fd0 of
       None \<Rightarrow> bind (fileclose rf s) (\<lambda>_ s. bind (fileclose wf s) (\<lambda>_ s. Ret (- 1) s))
     | Some fd0 \<Rightarrow>
         bind (fdalloc wf s) (\<lambda>fd1 s.
         case fd1 of
           None \<Rightarrow>
             bind (fileclose rf (upd_proc me (\<lambda>p. p\<lparr>p_ofile := (p_ofile p)(fd0 := None)\<rparr>) s)) (\<lambda>_ s.
             bind (fileclose wf s) (\<lambda>_ s. Ret (- 1) s))
         | Some fd1 \<Rightarrow>
             bind (write_word fd (of_nat fd0) s) (\<lambda>_ s.
             bind (write_word (fd + 4) (of_nat fd1) s) (\<lambda>_ s.
             Ret 0 s)))))))"

section \<open>The bounds of system call arguments\<close>

lemma unat_add_small: "unat (a :: uint) + unat b < 2 ^ 32 \<Longrightarrow> unat (a + b) = unat a + unat b"
  by (simp add: unat_word_ariths)

text \<open>The test of \<open>fetchint\<close> and \<open>argptr\<close>, for a process that ends below the kernel.\<close>

lemma bounds_check:
  fixes a n sz :: uint
  assumes "unat sz \<le> 2 ^ 31" and "unat n \<le> 2 ^ 31"
  shows "a \<ge> sz \<or> a + n > sz \<longleftrightarrow> unat sz \<le> unat a \<or> unat sz < unat a + unat n"
proof (cases "unat a < unat sz")
  case True
  then have "unat a + unat n < 2 ^ 32" using assms by simp
  then show ?thesis using True by (simp add: word_le_nat_alt word_less_nat_alt unat_add_small)
qed (simp add: word_le_nat_alt)

lemma copy_in_outcome: "(\<exists>vs. copy_in a n s = Ret vs s \<and> length vs = n) \<or> copy_in a n s = Panic ''trap''"
proof (induction n arbitrary: a)
  case (Suc n)
  show ?case using Suc [of "a + 1"] by (cases "xlate False a s") (auto simp: read_byte_def)
qed simp



end
