(* ===== verification/Trap.thy ===== *)
theory Trap
  imports Sysfile BinSem
begin

text \<open>
  The remaining system calls (\<open>sysproc.c\<close>), their dispatch (\<open>syscall.c\<close>) and traps (\<open>trap.c\<close>). Telling
  the interrupt controller that an interrupt has been handled (\<open>lapiceoi\<close>) is not part of the state.
\<close>

section \<open>State\<close>

record gate =
  g_trap :: bool
  g_vector :: nat
  g_dpl :: nat

record sys_state = thread_state +
  ticks :: uint
  idt :: "nat \<Rightarrow> gate"
  idt_loaded :: bool
  cr2 :: uint

section \<open>System calls on processes\<close>

definition sys_fork :: "'m file_state_scheme \<Rightarrow> (int, 'm file_state_scheme) kres" where
  "sys_fork s = fork s"

definition sys_exit :: "'m file_state_scheme \<Rightarrow> (int, 'm file_state_scheme) kres" where
  "sys_exit s = bind (exit s) (\<lambda>_ s. Ret 0 s)"

definition sys_wait :: "'m ptable_state_scheme \<Rightarrow> (int, 'm ptable_state_scheme) kres" where
  "sys_wait s = wait s"

definition sys_kill :: "'m ptable_state_scheme \<Rightarrow> (int, 'm ptable_state_scheme) kres" where
  "sys_kill s = with_arg (argint 0 s) (\<lambda>pid s. kill (sint pid) s)"

definition sys_getpid :: "'m ptable_state_scheme \<Rightarrow> (int, 'm ptable_state_scheme) kres" where
  "sys_getpid s = with_proc s (\<lambda>me. Ret (p_pid (procs s me)) s)"

definition sys_sbrk :: "'m ptable_state_scheme \<Rightarrow> (int, 'm ptable_state_scheme) kres" where
  "sys_sbrk s =
     with_arg (argint 0 s) (\<lambda>n s.
     with_proc s (\<lambda>me.
     let a = sint (p_sz (procs s me))
     in bind (growproc (sint n) s) (\<lambda>r s. if r < 0 then Ret (- 1) s else Ret a s)))"

text \<open>\<open>sys_sleep\<close> up to its sleep, and what follows it. The comparison is unsigned.\<close>

definition sys_sleep_loop :: "uint \<Rightarrow> uint \<Rightarrow> 'm sys_state_scheme \<Rightarrow> (int, 'm sys_state_scheme) kres" where
  "sys_sleep_loop ticks0 n s =
     (if ticks s - ticks0 < n then
        with_proc s (\<lambda>me.
        if p_killed (procs s me) then bind (release Ticks_lock s) (\<lambda>_ s. Ret (- 1) s)
        else sleep Ticks_chan (Some Ticks_lock) s)
      else bind (release Ticks_lock s) (\<lambda>_ s. Ret 0 s))"

definition sys_sleep :: "'m sys_state_scheme \<Rightarrow> (int, 'm sys_state_scheme) kres" where
  "sys_sleep s =
     with_arg (argint 0 s) (\<lambda>n s.
     bind (acquire Ticks_lock s) (\<lambda>_ s. sys_sleep_loop (ticks s) n s))"

definition sys_sleep_resume ::
  "uint \<Rightarrow> uint \<Rightarrow> bool \<Rightarrow> 'm sys_state_scheme \<Rightarrow> (int, 'm sys_state_scheme) kres" where
  "sys_sleep_resume ticks0 n intena s =
     bind (sleep_resume Ticks_lock intena s) (\<lambda>_ s. sys_sleep_loop ticks0 n s)"

definition sys_uptime :: "'m sys_state_scheme \<Rightarrow> (int, 'm sys_state_scheme) kres" where
  "sys_uptime s =
     bind (acquire Ticks_lock s) (\<lambda>_ s.
     let xticks = ticks s
     in bind (release Ticks_lock s) (\<lambda>_ s. Ret (sint xticks) s))"

text \<open>
  The calls for threads and semaphores fetch integers with \<open>argptr\<close> and do not test its result: a value
  that is not below the size of the process leaves the variable uninitialised.
\<close>

definition raw_arg :: "nat \<Rightarrow> 'm ptable_state_scheme \<Rightarrow> (uint, 'm ptable_state_scheme) kres" where
  "raw_arg n s = bind (argptr n 4 s) (\<lambda>r s. case r of None \<Rightarrow> Undef | Some v \<Rightarrow> Ret v s)"

definition sys_thread_create :: "'m file_state_scheme \<Rightarrow> (int, 'm file_state_scheme) kres" where
  "sys_thread_create s =
     bind (raw_arg 0 s) (\<lambda>start_func s.
     bind (raw_arg 1 s) (\<lambda>stack s.
     bind (raw_arg 2 s) (\<lambda>stack_size s.
     thread_create start_func stack stack_size s)))"

definition sys_thread_getId :: "'m ptable_state_scheme \<Rightarrow> (int, 'm ptable_state_scheme) kres" where
  "sys_thread_getId s = with_proc s (\<lambda>me. Ret (p_thread_id (procs s me)) s)"

definition sys_thread_getProcId :: "'m ptable_state_scheme \<Rightarrow> (int, 'm ptable_state_scheme) kres" where
  "sys_thread_getProcId s = with_proc s (\<lambda>me. Ret (p_pid (procs s me)) s)"

definition sys_thread_join :: "'m ptable_state_scheme \<Rightarrow> (int, 'm ptable_state_scheme) kres" where
  "sys_thread_join s =
     bind (raw_arg 0 s) (\<lambda>thread_id s.
     bind (raw_arg 1 s) (\<lambda>ret_val s.
     thread_join (sint thread_id) s))"

definition sys_thread_exit :: "'m file_state_scheme \<Rightarrow> (unit, 'm file_state_scheme) kres" where
  "sys_thread_exit s = bind (raw_arg 0 s) (\<lambda>ret_val s. thread_exit ret_val s)"

definition sys_binary_semaphore_create :: "'m ptable_state_scheme \<Rightarrow> (int, 'm ptable_state_scheme) kres" where
  "sys_binary_semaphore_create s = bind (raw_arg 0 s) (\<lambda>v s. binary_semaphore_create (sint v) s)"

definition sys_binary_semaphore_down :: "'m ptable_state_scheme \<Rightarrow> (int, 'm ptable_state_scheme) kres" where
  "sys_binary_semaphore_down s = bind (raw_arg 0 s) (\<lambda>n s. binary_semaphore_down (sint n) s)"

definition sys_binary_semaphore_up :: "'m ptable_state_scheme \<Rightarrow> (int, 'm ptable_state_scheme) kres" where
  "sys_binary_semaphore_up s = bind (raw_arg 0 s) (\<lambda>n s. binary_semaphore_up (sint n) s)"

section \<open>Dispatch\<close>

text \<open>The table \<open>syscalls\<close>: entry 0 is empty.\<close>

definition syscalls :: "('m sys_state_scheme \<Rightarrow> (int, 'm sys_state_scheme) kres) option list" where
  "syscalls =
     [None, Some sys_fork, Some sys_exit, Some sys_wait, Some sys_pipe, Some sys_read, Some sys_kill,
      Some sys_exec, Some sys_fstat, Some sys_chdir, Some sys_dup, Some sys_getpid, Some sys_sbrk,
      Some sys_sleep, Some sys_uptime, Some sys_open, Some sys_write, Some sys_mknod, Some sys_unlink,
      Some sys_link, Some sys_mkdir, Some sys_close, Some sys_thread_create, Some sys_thread_getId,
      Some sys_thread_getProcId, Some sys_thread_join,
      Some (\<lambda>s. bind (sys_thread_exit s) (\<lambda>_ s. Undef)),
      Some sys_binary_semaphore_create, Some sys_binary_semaphore_down, Some sys_binary_semaphore_up]"

definition syscall_entry :: "int \<Rightarrow> ('m sys_state_scheme \<Rightarrow> (int, 'm sys_state_scheme) kres) option" where
  "syscall_entry num =
     (if 0 \<le> num \<and> nat num < length (syscalls :: ('m sys_state_scheme \<Rightarrow> (int, 'm sys_state_scheme) kres) option list)
      then syscalls ! nat num else None)"

definition syscall :: "'m sys_state_scheme \<Rightarrow> (unit, 'm sys_state_scheme) kres" where
  "syscall s =
     with_proc s (\<lambda>me.
     let num = sint (tf_get me TF_EAX s)
     in case syscall_entry num of
          Some call \<Rightarrow> bind (call s) (\<lambda>r s. Ret () (tf_set me TF_EAX (word_of_int r) s))
        | None \<Rightarrow>
            bind (cprintf ''%d %s: unknown sys call %d\<newline>''
                    [Word_arg (word_of_int (p_pid (procs s me))), Str_arg (Some (p_name (procs s me))),
                     Word_arg (word_of_int num)] s) (\<lambda>_ s.
            Ret () (tf_set me TF_EAX (- 1) s)))"

section \<open>Traps\<close>

definition tvinit :: "'m sys_state_scheme \<Rightarrow> 'm sys_state_scheme" where
  "tvinit s =
     (let s = s\<lparr>idt := (\<lambda>i. if i < 256 then \<lparr>g_trap = False, g_vector = i, g_dpl = 0\<rparr> else idt s i)\<rparr>;
          s = s\<lparr>idt := (idt s)(64 := \<lparr>g_trap = True, g_vector = 64, g_dpl = 3\<rparr>)\<rparr>
      in initlock Ticks_lock ''time'' s)"

definition idtinit :: "'m sys_state_scheme \<Rightarrow> 'm sys_state_scheme" where
  "idtinit s = s\<lparr>idt_loaded := True\<rparr>"

abbreviation T_SYSCALL :: uint where "T_SYSCALL \<equiv> 64"
abbreviation T_IRQ0 :: uint where "T_IRQ0 \<equiv> 32"

definition timer_tick :: "'m sys_state_scheme \<Rightarrow> (unit, 'm sys_state_scheme) kres" where
  "timer_tick s =
     (if c_id (cpu s) = 0 then
        bind (acquire Ticks_lock s) (\<lambda>_ s.
        bind (wakeup (Some Ticks_chan) (s\<lparr>ticks := ticks s + 1\<rparr>)) (\<lambda>_ s.
        release Ticks_lock s))
      else Ret () s)"

definition tf_user :: "addr \<Rightarrow> 'm kmem_state_scheme \<Rightarrow> bool" where
  "tf_user tf s \<longleftrightarrow> load32 (mem s) (tf + TF_CS) AND 3 = 3"

text \<open>The \<open>default\<close> case.\<close>

definition trap_fault :: "addr \<Rightarrow> 'm sys_state_scheme \<Rightarrow> (unit, 'm sys_state_scheme) kres" where
  "trap_fault tf s =
     (let w = (\<lambda>f. Word_arg (load32 (mem s) (tf + f)))
      in case c_proc (cpu s) of
           None \<Rightarrow> Panic ''trap''
         | Some me \<Rightarrow>
             if load32 (mem s) (tf + TF_CS) AND 3 = 0 then Panic ''trap''
             else bind (cprintf ''pid %d %s: trap %d err %d on cpu %d eip 0x%x addr 0x%x--kill proc\<newline>''
                          [Word_arg (word_of_int (p_pid (procs s me))), Str_arg (Some (p_name (procs s me))),
                           w TF_TRAPNO, w 52, Word_arg (of_nat (c_id (cpu s))), w TF_EIP, Word_arg (cr2 s)] s) (\<lambda>_ s.
                  Ret () (upd_proc me (\<lambda>p. p\<lparr>p_killed := True\<rparr>) s)))"

definition trap_irq :: "addr \<Rightarrow> 'm sys_state_scheme \<Rightarrow> (unit, 'm sys_state_scheme) kres" where
  "trap_irq tf s =
     (let no = load32 (mem s) (tf + TF_TRAPNO)
      in if no = T_IRQ0 then timer_tick s
         else if no = T_IRQ0 + 14 then ideintr s
         else if no = T_IRQ0 + 15 then Ret () s
         else if no = T_IRQ0 + 1 then kbdintr s
         else if no = T_IRQ0 + 4 then uartintr s
         else if no = T_IRQ0 + 7 \<or> no = T_IRQ0 + 31 then
           cprintf ''cpu%d: spurious interrupt at %x:%x\<newline>''
             [Word_arg (of_nat (c_id (cpu s))), Word_arg (load32 (mem s) (tf + TF_CS) AND 0xFFFF),
              Word_arg (load32 (mem s) (tf + TF_EIP))] s
         else trap_fault tf s)"

text \<open>A killed process does not return to user mode.\<close>

definition exit_if_killed :: "addr \<Rightarrow> 'm file_state_scheme \<Rightarrow> (unit, 'm file_state_scheme) kres" where
  "exit_if_killed tf s =
     (case c_proc (cpu s) of
        Some me \<Rightarrow> if p_killed (procs s me) \<and> tf_user tf s then exit s else Ret () s
      | None \<Rightarrow> Ret () s)"

text \<open>\<open>trap\<close>, up to the \<open>yield\<close> that takes the CPU from the process, and what follows it.\<close>

definition trap :: "addr \<Rightarrow> 'm sys_state_scheme \<Rightarrow> (unit, 'm sys_state_scheme) kres" where
  "trap tf s =
     (if load32 (mem s) (tf + TF_TRAPNO) = T_SYSCALL then
        with_proc s (\<lambda>me.
        bind (if p_killed (procs s me) then exit s else Ret () s) (\<lambda>_ s.
        bind (syscall (upd_proc me (\<lambda>p. p\<lparr>p_tf := tf\<rparr>) s)) (\<lambda>_ s.
        if p_killed (procs s me) then exit s else Ret () s)))
      else bind (trap_irq tf s) (\<lambda>_ s.
           bind (exit_if_killed tf s) (\<lambda>_ s.
           bind (case c_proc (cpu s) of
                   Some me \<Rightarrow>
                     if p_state (procs s me) = RUNNING \<and> load32 (mem s) (tf + TF_TRAPNO) = T_IRQ0
                     then yield s else Ret () s
                 | None \<Rightarrow> Ret () s) (\<lambda>_ s.
           exit_if_killed tf s))))"

definition trap_resume :: "addr \<Rightarrow> bool \<Rightarrow> 'm sys_state_scheme \<Rightarrow> (unit, 'm sys_state_scheme) kres" where
  "trap_resume tf intena s = bind (yield_resume intena s) (\<lambda>_ s. exit_if_killed tf s)"

section \<open>Messages of the kernel\<close>

text \<open>Printing changes the screen and what has been sent on the serial line only.\<close>

definition con_frame :: "'m con_state_scheme \<Rightarrow> 'm con_state_scheme \<Rightarrow> bool" where
  "con_frame s s' \<longleftrightarrow> (\<exists>p m out. s' = s\<lparr>crt_pos := p, crt := m, uart_out := out\<rparr> \<and> unat p < 24 * 80)"

lemma con_frame_trans:
  assumes "con_frame s t" and "con_frame t u"
  shows "con_frame s u"
proof -
  obtain p m out p' m' out' where "t = s\<lparr>crt_pos := p, crt := m, uart_out := out\<rparr>" "u = t\<lparr>crt_pos := p', crt := m', uart_out := out'\<rparr>" "unat p' < 24 * 80"
    using assms unfolding con_frame_def by auto
  then have "u = s\<lparr>crt_pos := p', crt := m', uart_out := out'\<rparr>" by simp
  then show ?thesis using \<open>unat p' < 24 * 80\<close> unfolding con_frame_def by blast
qed

lemma con_frame_ready:
  assumes "con_frame s t" and "\<not> panicked s"
  shows "on_screen t" and "\<not> panicked t"
  using assms unfolding con_frame_def on_screen_def by auto

lemma con_frame_refl: "on_screen s \<Longrightarrow> con_frame s s"
  unfolding con_frame_def on_screen_def by (intro exI [of _ "crt_pos s"] exI [of _ "crt s"] exI [of _ "uart_out s"]) simp

lemma consputs_frame:
  assumes "on_screen s" and "\<not> panicked s"
  shows "\<exists>t. kfor (\<lambda>c s. consputc (f c) s) cs s = Ret () t \<and> con_frame s t"
proof -
  obtain p m out where e: "kfor (\<lambda>c s. consputc (f c) s) cs s = Ret () (s\<lparr>crt_pos := p, crt := m, uart_out := out\<rparr>)" and p: "unat p < 1920"
    using consputs_ok [OF assms, of f cs] by blast
  have "con_frame s (s\<lparr>crt_pos := p, crt := m, uart_out := out\<rparr>)"
    unfolding con_frame_def by (intro exI [of _ p] exI [of _ m] exI [of _ out]) (simp add: p)
  then show ?thesis using e by blast
qed

lemma consputc_frame:
  assumes "on_screen s" and "\<not> panicked s"
  shows "\<exists>t. consputc c s = Ret () t \<and> con_frame s t"
  using consputs_frame [OF assms, of "\<lambda>c. c" "[c]"] by (auto simp: bind_Ret_iff)

lemma printint_frame:
  assumes "on_screen s" and "\<not> panicked s" and "base = 10 \<or> base = 16"
  shows "\<exists>t. printint x base sign s = Ret () t \<and> con_frame s t"
  using consputs_frame [OF assms(1,2), of uint "rev (print_buf x base sign)"] print_buf_length [OF assms(3), of x sign]
  by (simp add: printint_def)

text \<open>A format string with arguments of the kinds it asks for.\<close>

fun fmt_ok :: "byte list \<Rightarrow> carg list \<Rightarrow> bool" where
  "fmt_ok [] args = True"
| "fmt_ok (c # fmt) args =
     (if c \<noteq> of_char CHR ''%'' then fmt_ok fmt args
      else case fmt of
             [] \<Rightarrow> True
           | d # fmt' \<Rightarrow>
               if d = of_char CHR ''d'' \<or> d = of_char CHR ''x'' \<or> d = of_char CHR ''p'' then
                 (case args of Word_arg x # rest \<Rightarrow> fmt_ok fmt' rest | _ \<Rightarrow> False)
               else if d = of_char CHR ''s'' then (case args of Str_arg p # rest \<Rightarrow> fmt_ok fmt' rest | _ \<Rightarrow> False)
               else fmt_ok fmt' args)"

lemma bind_frame:
  assumes "\<exists>t. m = Ret v t \<and> con_frame s t" and "\<And>t. con_frame s t \<Longrightarrow> \<exists>u. f v t = Ret w u \<and> con_frame t u"
  shows "\<exists>u. bind m f = Ret w u \<and> con_frame s u"
  using assms con_frame_trans by fastforce

lemma cprintf_loop_frame:
  "fmt_ok fmt args \<Longrightarrow> on_screen s \<Longrightarrow> \<not> panicked s \<Longrightarrow> \<exists>t. cprintf_loop fmt args s = Ret () t \<and> con_frame s t"
proof (induction "length fmt" arbitrary: fmt args s rule: less_induct)
  case less
  note scr = less.prems(2,3)
  have step: "\<exists>u. bind m (\<lambda>_ s. cprintf_loop f a s) = Ret () u \<and> con_frame s u"
    if "\<exists>t. m = Ret () t \<and> con_frame s t" "length f < length fmt" "fmt_ok f a" for m f a
    using that(1) by (rule bind_frame) (rule less.hyps [OF that(2,3)]; use con_frame_ready scr(2) in blast)
  have put: "\<exists>t. consputc c s = Ret () t \<and> con_frame s t" for c by (rule consputc_frame [OF scr])
  have num: "\<exists>t. printint x 10 True s = Ret () t \<and> con_frame s t" "\<exists>t. printint x 16 False s = Ret () t \<and> con_frame s t" for x
    by (rule printint_frame [OF scr]; simp)+
  have str: "\<exists>t. kfor (\<lambda>c s. consputc (uint c) s) cs s = Ret () t \<and> con_frame s t" for cs :: "byte list" by (rule consputs_frame [OF scr])
  have two: "\<exists>t. bind (consputc c s) (\<lambda>_ s. consputc d s) = Ret () t \<and> con_frame s t" for c d
    using put by (rule bind_frame) (rule consputc_frame; use con_frame_ready scr(2) in blast)
  show ?case
  proof (cases fmt)
    case Nil
    then show ?thesis using con_frame_refl [OF scr(1)] by simp
  next
    case (Cons c fmt1)
    show ?thesis
    proof (cases "c = of_char CHR ''%''")
      case False
      then show ?thesis using step [OF put, of fmt1 args] less.prems(1) Cons by simp
    next
      case pc: True
      show ?thesis
      proof (cases fmt1)
        case Nil
        then show ?thesis using con_frame_refl [OF scr(1)] pc Cons by simp
      next
        case (Cons d fmt2)
        note eq = \<open>fmt = c # fmt1\<close> Cons
        have len: "length fmt2 < length fmt" by (simp add: eq)
        consider "d = of_char CHR ''d''" | "d = of_char CHR ''x'' \<or> d = of_char CHR ''p''" "d \<noteq> of_char CHR ''d''" | "d = of_char CHR ''s''"
          | "d \<notin> {of_char CHR ''d'', of_char CHR ''x'', of_char CHR ''p'', of_char CHR ''s''}" by auto
        then show ?thesis
        proof cases
          case 1
          then obtain x rest where "args = Word_arg x # rest" "fmt_ok fmt2 rest"
            using less.prems(1) pc eq by (auto split: list.splits carg.splits)
          then show ?thesis using step [OF num(1) len, of rest x] 1 pc eq by simp
        next
          case 2
          then obtain x rest where "args = Word_arg x # rest" "fmt_ok fmt2 rest"
            using less.prems(1) pc eq by (auto split: list.splits carg.splits)
          then show ?thesis using step [OF num(2) len, of rest x] 2 pc eq by simp
        next
          case 3
          then obtain q rest where "args = Str_arg q # rest" "fmt_ok fmt2 rest"
            using less.prems(1) pc eq by (auto split: list.splits carg.splits)
          then show ?thesis using step [OF str len, of rest] 3 pc eq by simp
        next
          case 4
          then have "fmt_ok fmt2 args" using less.prems(1) pc eq by simp
          then show ?thesis using step [OF put len, of args] step [OF two len, of args] 4 pc eq by simp
        qed
      qed
    qed
  qed
qed

text \<open>With the lock of the console, in the context of a process.\<close>

lemma con_upd_ctx: "user_ctx i (s\<lparr>crt_pos := p, crt := m, uart_out := out\<rparr>) = user_ctx i s"
  by (simp add: user_ctx_def)

lemma cprintf_frame:
  assumes "user_ctx i s" and "on_screen s" and "\<not> panicked s" and "fmt_ok (bytes_of fmt) args"
  shows "\<exists>t. cprintf fmt args s = Ret () t \<and> con_frame s t"
proof (cases "cons_locking s")
  case False
  then show ?thesis using cprintf_loop_frame [OF assms(4,2,3)] by (auto simp: cprintf_def Let_def bind_Ret_iff)
next
  case True
  let ?s = "take_lock Cons_lock s"
  have "on_screen ?s" "\<not> panicked ?s" using assms(2,3) by (simp_all add: on_screen_def take_lock_def pushcli_def Let_def)
  then obtain p m out where t: "cprintf_loop (bytes_of fmt) args ?s = Ret () (?s\<lparr>crt_pos := p, crt := m, uart_out := out\<rparr>)" "unat p < 24 * 80"
    using cprintf_loop_frame [OF assms(4), of ?s] unfolding con_frame_def by auto
  let ?t = "s\<lparr>crt_pos := p, crt := m, uart_out := out\<rparr>"
  have "?s\<lparr>crt_pos := p, crt := m, uart_out := out\<rparr> = take_lock Cons_lock ?t" by (simp add: take_lock_def pushcli_def Let_def)
  moreover have "release Cons_lock (take_lock Cons_lock ?t) = Ret () ?t" using lock_unlock [of i ?t] assms(1) by (simp add: con_upd_ctx)
  ultimately have "cprintf fmt args s = Ret () ?t" using True t(1) user_ctx_lock(1) [OF assms(1)] by (simp add: cprintf_def)
  then show ?thesis using t(2) unfolding con_frame_def by blast
qed

section \<open>Errors of user programs stay theirs\<close>

lemma syscall_entry_None:
  "syscall_entry num = (None :: ('m sys_state_scheme \<Rightarrow> (int, 'm sys_state_scheme) kres) option) \<longleftrightarrow> num \<le> 0 \<or> 30 \<le> num"
proof (cases "num \<le> 0 \<or> 30 \<le> num")
  case True
  then show ?thesis by (auto simp: syscall_entry_def syscalls_def)
next
  case False
  let ?tab = "syscalls :: ('m sys_state_scheme \<Rightarrow> (int, 'm sys_state_scheme) kres) option list"
  have t: "length ?tab = 30" "None \<notin> set (tl ?tab)" by (simp_all add: syscalls_def)
  obtain k where k: "nat num = Suc k" "k < 29" using False by (cases "nat num") auto
  have "?tab ! Suc k = tl ?tab ! k" using k(2) t(1) by (simp add: nth_tl)
  also have "\<dots> \<in> set (tl ?tab)" using k(2) t(1) by (intro nth_mem) simp
  finally have "?tab ! nat num \<noteq> None" using t(2) k(1) by metis
  then show ?thesis using False t(1) by (auto simp: syscall_entry_def)
qed

lemma newline_fmt: "fmt_ok (bytes_of ''%d %s: unknown sys call %d\<newline>'') [Word_arg a, Str_arg b, Word_arg c]"
  "fmt_ok (bytes_of ''pid %d %s: trap %d err %d on cpu %d eip 0x%x addr 0x%x--kill proc\<newline>'')
     [Word_arg a, Str_arg b, Word_arg c, Word_arg d, Word_arg e, Word_arg f, Word_arg g]"
  by (simp_all add: bytes_of_def)

text \<open>
  C17. A system call number that no entry of the table has, negative numbers and 0 included, is refused:
  the call prints a message, the process finds -1 in its \<open>eax\<close>, and nothing but the console and that word
  of its trap frame changes. Every other number reaches its routine.
\<close>

theorem unknown_syscall_returns_error:
  fixes s :: "'m sys_state_scheme"
  assumes "user_ctx me s" and "on_screen s" and "\<not> panicked s"
  shows "if sint (tf_get me TF_EAX s) \<le> 0 \<or> 30 \<le> sint (tf_get me TF_EAX s)
    then \<exists>t. syscall s = Ret () (tf_set me TF_EAX (- 1) t) \<and> con_frame s t
    else \<exists>call. syscalls ! nat (sint (tf_get me TF_EAX s)) = Some call \<and>
      syscall s = bind (call s) (\<lambda>r s. Ret () (tf_set me TF_EAX (word_of_int r) s))"
proof -
  let ?num = "sint (tf_get me TF_EAX s)"
  have me: "c_proc (cpu s) = Some me" using assms(1) by (simp add: user_ctx_def)
  show ?thesis
  proof (cases "?num \<le> 0 \<or> 30 \<le> ?num")
    case True
    then have "syscall_entry ?num = (None :: ('m sys_state_scheme \<Rightarrow> (int, 'm sys_state_scheme) kres) option)" by (simp add: syscall_entry_None)
    moreover obtain t where "cprintf ''%d %s: unknown sys call %d\<newline>'' [Word_arg (word_of_int (p_pid (procs s me))),
        Str_arg (Some (p_name (procs s me))), Word_arg (word_of_int ?num)] s = Ret () t" "con_frame s t"
      using cprintf_frame [OF assms newline_fmt(1)] by blast
    ultimately have "syscall s = Ret () (tf_set me TF_EAX (- 1) t)" using me by (simp add: syscall_def with_proc_def)
    then show ?thesis using True \<open>con_frame s t\<close> by auto
  next
    case False
    then have "syscall_entry ?num \<noteq> (None :: ('m sys_state_scheme \<Rightarrow> (int, 'm sys_state_scheme) kres) option)" by (simp add: syscall_entry_None)
    then obtain call :: "'m sys_state_scheme \<Rightarrow> (int, 'm sys_state_scheme) kres" where c: "syscall_entry ?num = Some call" by auto
    then have "syscalls ! nat ?num = Some call" by (simp add: syscall_entry_def split: if_splits)
    then show ?thesis using False c me by (simp add: syscall_def with_proc_def Let_def)
  qed
qed


definition sys_example :: sys_state where
  "sys_example = thread_state.extend (file_state.extend (file_example wrapping_pipe) (thread_state.fields 0x80109000 44 False))
     (sys_state.fields 0 (\<lambda>_. \<lparr>g_trap = False, g_vector = 0, g_dpl = 0\<rparr>) True 0)"

lemma sys_extend:
  "cpu sys_example = cpu (file_example wrapping_pipe)" "locks sys_example = locks (file_example wrapping_pipe)"
  "procs sys_example = procs (file_example wrapping_pipe)" "mem sys_example = mem (file_example wrapping_pipe)"
  "crt_pos sys_example = crt_pos (file_example wrapping_pipe)" "panicked sys_example = panicked (file_example wrapping_pipe)"
  unfolding sys_example_def thread_state.defs file_state.defs by simp_all

lemma sys_example_ctx: "user_ctx 0 sys_example" "on_screen sys_example" "\<not> panicked sys_example"
proof -
  show "user_ctx 0 sys_example" using file_example_ctx(1) [of wrapping_pipe] unfolding user_ctx_def sys_extend .
  have "crt_pos (file_example wrapping_pipe) = 1919" "\<not> panicked (file_example wrapping_pipe)"
    unfolding file_example_def con_state.defs by (simp_all add: console_example_def)
  then show "on_screen sys_example" "\<not> panicked sys_example" by (simp_all add: on_screen_def sys_extend)
qed

lemma unknown_syscall_returns_error_witness:
  "\<exists>t. syscall sys_example = Ret () (tf_set 0 TF_EAX (- 1) t)"
proof -
  have "tf_get 0 TF_EAX sys_example = 0x41414141"
    by (simp add: tf_get_def sys_extend file_example_procs runnable_proc_def blank_proc_def file_example_ctx load32_def)
  then show ?thesis using unknown_syscall_returns_error [OF sys_example_ctx] by auto
qed


end
