(* ===== verification/Ulib.thy ===== *)
theory Ulib
  imports Strings Console
begin

text \<open>
  The library that user programs are linked with: \<open>ulib.c\<close> (strings, \<open>gets\<close>, \<open>atoi\<close>, \<open>stat\<close>) and
  \<open>printf.c\<close>. A pointer into an array is the rest of the array, as in \<open>Strings\<close>; a routine that runs over
  the end of the array it was given has the result \<open>None\<close>. What a program writes is the list of its calls
  of \<open>write\<close>, each a descriptor with the bytes written. The bytes that reads of the standard input deliver
  are a list.
\<close>

section \<open>Strings\<close>

fun strcpy :: "byte list \<Rightarrow> byte list \<Rightarrow> byte list option" where
  "strcpy (x # s) (c # t) = (if c \<noteq> 0 then map_option ((#) c) (strcpy s t) else Some (c # s))"
| "strcpy s t = None"

fun strcmp :: "byte list \<Rightarrow> byte list \<Rightarrow> int option" where
  "strcmp (a # p) (b # q) = (if a \<noteq> 0 \<and> a = b then strcmp p q else Some (uint a - uint b))"
| "strcmp p q = None"

definition u_strlen :: "byte list \<Rightarrow> uint option" where
  "u_strlen s = map_option of_nat (strlen s)"

fun strchr :: "byte list \<Rightarrow> byte \<Rightarrow> nat option option" where
  "strchr [] c = None"
| "strchr (a # s) c =
     (if a = 0 then Some None else if a = c then Some (Some 0)
      else map_option (map_option Suc) (strchr s c))"

fun u_memset :: "memory \<Rightarrow> addr \<Rightarrow> byte \<Rightarrow> uint \<Rightarrow> memory" where
  "u_memset m dst c n = stosb m dst c (unat n)"

definition u_memmove :: "memory \<Rightarrow> addr \<Rightarrow> addr \<Rightarrow> int \<Rightarrow> memory" where
  "u_memmove m vdst vsrc n = (if n > 0 then move_fwd m vdst vsrc (nat n) else m)"

section \<open>Input\<close>

text \<open>\<open>gets_loop buf i mx inp\<close> is the loop of \<open>gets\<close>: the array, the place \<open>i\<close> and the input left over.\<close>

fun gets_loop :: "byte list \<Rightarrow> nat \<Rightarrow> int \<Rightarrow> byte list \<Rightarrow> (byte list \<times> nat \<times> byte list) option" where
  "gets_loop buf i mx [] = Some (buf, i, [])"
| "gets_loop buf i mx (c # inp) =
     (if \<not> int i + 1 < mx then Some (buf, i, c # inp)
      else if length buf \<le> i then None
      else if c = of_char CHR 0x0A \<or> c = of_char CHR 0x0D then Some (buf[i := c], i + 1, inp)
      else gets_loop (buf[i := c]) (i + 1) mx inp)"

definition gets :: "byte list \<Rightarrow> int \<Rightarrow> byte list \<Rightarrow> (byte list \<times> byte list) option" where
  "gets buf mx inp =
     (case gets_loop buf 0 mx inp of
        None \<Rightarrow> None
      | Some (buf, i, inp) \<Rightarrow> if length buf \<le> i then None else Some (buf[i := 0], inp))"

fun atoi_loop :: "uint \<Rightarrow> byte list \<Rightarrow> uint option" where
  "atoi_loop n [] = None"
| "atoi_loop n (c # s) =
     (if of_char CHR ''0'' \<le> c \<and> c \<le> of_char CHR ''9''
      then atoi_loop (n * 10 + ucast c - of_char CHR ''0'') s else Some n)"

definition atoi :: "byte list \<Rightarrow> uint option" where
  "atoi s = atoi_loop 0 s"

text \<open>\<open>stat\<close> is made of the calls \<open>open\<close>, \<open>fstat\<close> and \<open>close\<close>, given as functions on the state of the system.\<close>

definition u_stat ::
  "('n \<Rightarrow> 's \<Rightarrow> int \<times> 's) \<Rightarrow> (int \<Rightarrow> 's \<Rightarrow> (int \<times> 'st) \<times> 's) \<Rightarrow> (int \<Rightarrow> 's \<Rightarrow> 's) \<Rightarrow> 'n \<Rightarrow> 's \<Rightarrow> (int \<times> 'st option) \<times> 's" where
  "u_stat sys_open sys_fstat sys_close n w =
     (let (fd, w) = sys_open n w
      in if fd < 0 then ((- 1, None), w)
         else let ((r, st), w) = sys_fstat fd w in ((r, Some st), sys_close fd w))"

section \<open>Output\<close>

type_synonym writes = "(int \<times> byte list) list"

definition putc :: "int \<Rightarrow> byte \<Rightarrow> writes \<Rightarrow> writes" where
  "putc fd c out = out @ [(fd, [c])]"

definition u_digit :: "nat \<Rightarrow> byte" where
  "u_digit k = bytes_of ''0123456789ABCDEF'' ! k"

function u_digits :: "nat \<Rightarrow> nat \<Rightarrow> byte list" where
  "u_digits base x =
     (if base < 2 then [] else u_digit (x mod base) # (if x div base = 0 then [] else u_digits base (x div base)))"
  by pat_completeness auto
termination
  by (relation "measure snd") (auto simp: div_greater_zero_iff)

declare u_digits.simps [simp del]

definition u_print_buf :: "uint \<Rightarrow> nat \<Rightarrow> bool \<Rightarrow> byte list" where
  "u_print_buf xx base sg =
     (let neg = (sg \<and> sint xx < 0);
          x = (if neg then - xx else xx)
      in u_digits base (unat x) @ (if neg then bytes_of ''-'' else []))"

definition u_printint :: "int \<Rightarrow> uint \<Rightarrow> nat \<Rightarrow> bool \<Rightarrow> writes \<Rightarrow> writes option" where
  "u_printint fd xx base sg out =
     (if length (u_print_buf xx base sg) > 16 then None
      else Some (fold (putc fd) (rev (u_print_buf xx base sg)) out))"

text \<open>
  \<open>printf_loop fd fmt st args out\<close> is the loop over the format, with \<open>st\<close> for the state \<open>'%'\<close>. The arguments
  are those of \<open>cprintf\<close>; using one that is missing or of the other kind is undefined.
\<close>

fun printf_loop :: "int \<Rightarrow> byte list \<Rightarrow> bool \<Rightarrow> carg list \<Rightarrow> writes \<Rightarrow> writes option" where
  "printf_loop fd [] st args out = Some out"
| "printf_loop fd (c # fmt) False args out =
     (if c = of_char CHR ''%'' then printf_loop fd fmt True args out
      else printf_loop fd fmt False args (putc fd c out))"
| "printf_loop fd (c # fmt) True args out =
     (if c = of_char CHR ''d'' then
        (case args of
           Word_arg x # rest \<Rightarrow> Option.bind (u_printint fd x 10 True out) (\<lambda>out. printf_loop fd fmt False rest out)
         | _ \<Rightarrow> None)
      else if c = of_char CHR ''x'' \<or> c = of_char CHR ''p'' then
        (case args of
           Word_arg x # rest \<Rightarrow> Option.bind (u_printint fd x 16 False out) (\<lambda>out. printf_loop fd fmt False rest out)
         | _ \<Rightarrow> None)
      else if c = of_char CHR ''s'' then
        (case args of
           Str_arg p # rest \<Rightarrow>
             printf_loop fd fmt False rest
               (fold (putc fd) (case p of None \<Rightarrow> bytes_of ''(null)'' | Some s \<Rightarrow> cstr s) out)
         | _ \<Rightarrow> None)
      else if c = of_char CHR ''c'' then
        (case args of
           Word_arg x # rest \<Rightarrow> printf_loop fd fmt False rest (putc fd (ucast x) out)
         | _ \<Rightarrow> None)
      else if c = of_char CHR ''%'' then printf_loop fd fmt False args (putc fd c out)
      else printf_loop fd fmt False args (putc fd c (putc fd (of_char CHR ''%'') out)))"

definition printf :: "int \<Rightarrow> string \<Rightarrow> carg list \<Rightarrow> writes \<Rightarrow> writes option" where
  "printf fd fmt args out = printf_loop fd (bytes_of fmt) False args out"

section \<open>Properties\<close>

lemma strcmp_zero:
  "0 \<in> set p \<Longrightarrow> 0 \<in> set q \<Longrightarrow> \<exists>r. strcmp p q = Some r \<and> (r = 0 \<longleftrightarrow> cstr p = cstr q)"
  by (induction p q rule: strcmp.induct) (auto simp: cstr_def word_uint_eq_iff)

lemma strcpy_copies:
  "0 \<in> set t \<Longrightarrow> length (cstr t) < length s \<Longrightarrow>
   strcpy s t = Some (cstr t @ 0 # drop (Suc (length (cstr t))) s)"
  by (induction s t rule: strcpy.induct) (auto simp: cstr_def)

lemma strchr_found:
  "strchr s c = Some (Some k) \<Longrightarrow> k < length s \<and> s ! k = c \<and> (\<forall>x\<in>set (take k s). x \<noteq> c \<and> x \<noteq> 0)"
  by (induction s c arbitrary: k rule: strchr.induct) (auto split: if_splits)

lemma strchr_line:
  "\<forall>x\<in>set l. x \<noteq> c \<and> x \<noteq> 0 \<Longrightarrow> c \<noteq> 0 \<Longrightarrow> strchr (l @ c # s) c = Some (Some (length l))"
  by (induction l) auto

lemma strchr_end:
  "\<forall>x\<in>set l. x \<noteq> c \<and> x \<noteq> 0 \<Longrightarrow> strchr (l @ 0 # s) c = Some None"
  by (induction l) auto

lemma cstr_line: "\<forall>x\<in>set l. x \<noteq> 0 \<Longrightarrow> cstr (l @ 0 # s) = l"
  unfolding cstr_def by (induction l) auto

lemma u_digit_10: "d < 10 \<Longrightarrow> u_digit d = 48 + of_nat d"
  by (auto simp: u_digit_def bytes_of_def less_Suc_eq numeral_eq_Suc)


text \<open>The line at the front of the input, with the character that ends it.\<close>

fun line_of :: "byte list \<Rightarrow> byte list" where
  "line_of [] = []"
| "line_of (c # inp) = c # (if c = of_char CHR 0x0A \<or> c = of_char CHR 0x0D then [] else line_of inp)"

lemma gets_loop_line:
  "i + n = N \<Longrightarrow> N < length buf \<Longrightarrow> l = take n (line_of inp) \<Longrightarrow>
   gets_loop buf i (int N + 1) inp =
     Some (take i buf @ l @ drop (i + length l) buf, i + length l, drop (length l) inp)"
proof (induction inp arbitrary: buf i n l)
  case (Cons c inp)
  show ?case
  proof (cases n)
    case (Suc n')
    show ?thesis
    proof (cases "c = of_char CHR 0x0A \<or> c = of_char CHR 0x0D")
      case True
      then show ?thesis using Suc Cons.prems by (auto simp: upd_conv_take_nth_drop)
    next
      case False
      then have "gets_loop buf i (int N + 1) (c # inp) = gets_loop (buf[i := c]) (i + 1) (int N + 1) inp"
        using Suc Cons.prems by auto
      also have "\<dots> = Some (take (i + 1) (buf[i := c]) @ tl l @ drop (i + 1 + length (tl l)) (buf[i := c]), i + 1 + length (tl l),
        drop (length (tl l)) inp)"
        using Suc Cons.prems False by (intro Cons.IH [of _ n']) auto
      finally show ?thesis using Suc Cons.prems False by (simp add: take_Suc_conv_app_nth)
    qed
  qed (use Cons.prems in simp)
qed simp

text \<open>
  C20. \<open>gets\<close> reads one line and stays inside its array: it always returns, the array then holds the
  first line of the input, cut to \<open>max - 1\<close> characters and followed by a NUL, the rest of the array is
  untouched, and exactly the characters stored have been taken from the input.
\<close>

theorem gets_reads_line:
  assumes "0 < mx" and "mx \<le> int (length buf)"
  shows "gets buf mx inp =
    (let l = take (nat (mx - 1)) (line_of inp)
     in Some (l @ 0 # drop (Suc (length l)) buf, drop (length l) inp))"
proof -
  let ?l = "take (nat (mx - 1)) (line_of inp)"
  have n: "nat (mx - 1) < length buf" "int (nat (mx - 1)) + 1 = mx" using assms by linarith+
  have l: "length ?l < length buf" using n(1) by simp
  have "gets_loop buf 0 mx inp = Some (?l @ drop (length ?l) buf, length ?l, drop (length ?l) inp)"
    using gets_loop_line [OF _ n(1) refl, where i = 0 and inp = inp] n(2) by simp
  moreover have "(?l @ drop (length ?l) buf)[length ?l := 0] = ?l @ 0 # drop (Suc (length ?l)) buf"
    using l by (simp add: list_update_append Cons_nth_drop_Suc [symmetric])
  ultimately show ?thesis using l n(1) by (simp add: gets_def Let_def)
qed

lemma gets_reads_line_witness:
  "gets [7, 7, 7, 7, 7, 7, 7, 7] 5 (map of_char ''ls'' @ [10] @ map of_char ''cat'') =
     Some ([108, 115, 10, 0, 7, 7, 7, 7], map of_char ''cat'')"
  using gets_reads_line [of 5 "[7, 7, 7, 7, 7, 7, 7, 7]" "map of_char ''ls'' @ [10] @ map of_char ''cat''"]
  by simp

lemma u_digits_value:
  assumes "2 \<le> base"
  shows "\<exists>ds. u_digits base x = map u_digit ds \<and> (\<forall>d\<in>set ds. d < base) \<and> digits_value base ds = x"
  using assms
proof (induction base x rule: u_digits.induct)
  case (1 base x)
  show ?case
  proof (cases "x div base = 0")
    case True
    then have "u_digits base x = map u_digit [x mod base]" using 1 by (subst u_digits.simps) simp
    moreover have "x < base" "x mod base = x" using True 1(2) by (auto simp: div_eq_0_iff)
    ultimately show ?thesis using 1(2) by (intro exI [of _ "[x mod base]"]) (auto simp: digits_value_def)
  next
    case False
    then obtain ds where "u_digits base (x div base) = map u_digit ds" "\<forall>d\<in>set ds. d < base" "digits_value base ds = x div base"
      using 1 by auto
    moreover have "u_digits base x = u_digit (x mod base) # u_digits base (x div base)"
      using 1(2) False by (subst u_digits.simps) simp
    ultimately show ?thesis using 1(2)
      by (intro exI [of _ "x mod base # ds"]) (auto simp: digits_value_def)
  qed
qed

lemma u_digits_length: "length (u_digits base x) = length (print_digits base x)"
  by (induction base x rule: u_digits.induct) (subst u_digits.simps, subst print_digits.simps, simp)

lemma u_print_buf_length: "base = 10 \<or> base = 16 \<Longrightarrow> length (u_print_buf xx base sg) \<le> 11"
  using print_buf_length [of base xx sg]
  by (simp add: u_print_buf_def print_buf_def Let_def u_digits_length)

lemma putc_fold: "fold (putc fd) cs out = out @ map (\<lambda>c. (fd, [c])) cs"
  by (induction cs arbitrary: out) (auto simp: putc_def)

lemma atoi_loop_digits:
  "\<forall>d\<in>set ds. d < 10 \<Longrightarrow> atoi_loop n (map u_digit ds @ [0]) = Some (foldl (\<lambda>n d. n * 10 + of_nat d) n ds)"
proof (induction ds arbitrary: n)
  case (Cons d ds)
  have u: "unat (u_digit d) = 48 + d"
    using Cons.prems by (simp add: u_digit_10 unat_word_ariths unat_of_nat)
  then have "of_char CHR ''0'' \<le> u_digit d" "u_digit d \<le> of_char CHR ''9''"
    using Cons.prems by (simp_all add: word_le_nat_alt)
  moreover have "ucast (u_digit d) = (48 + of_nat d :: uint)"
    by (metis u of_nat_add of_nat_numeral of_nat_unat)
  ultimately show ?case using Cons by simp
qed simp

lemma digits_fold: "foldl (\<lambda>n d. n * 10 + of_nat d) 0 (rev ds) = (of_nat (digits_value 10 ds) :: uint)"
  by (induction ds) (simp_all add: digits_value_def algebra_simps)

text \<open>
  C19. Reading back a printed number gives the number: for every number that is not negative as a
  signed word, \<open>printint\<close> in base 10 stays inside its buffer, and \<open>atoi\<close> of the characters it writes is
  the number.
\<close>

theorem printint_atoi_roundtrip:
  assumes "0 \<le> sint x"
  shows "\<exists>out. u_printint fd x 10 True [] = Some out \<and> (\<forall>w\<in>set out. fst w = fd) \<and> atoi (concat (map snd out) @ [0]) = Some x"
proof -
  obtain ds where ds: "u_digits 10 (unat x) = map u_digit ds" "\<forall>d\<in>set ds. d < 10" "digits_value 10 ds = unat x"
    using u_digits_value [of 10 "unat x"] by auto
  have buf: "rev (u_print_buf x 10 True) = map u_digit (rev ds)" using assms ds(1) by (simp add: u_print_buf_def rev_map)
  have "concat (map (\<lambda>c. [c]) cs) = cs" for cs :: "byte list" by (induction cs) auto
  moreover have "atoi (map u_digit (rev ds) @ [0]) = Some x"
    using atoi_loop_digits [of "rev ds" 0] ds(2,3) by (simp add: atoi_def digits_fold)
  ultimately show ?thesis
    using u_print_buf_length [of 10 x True] by (auto simp: u_printint_def putc_fold buf comp_def)
qed

lemma printint_atoi_roundtrip_witness:
  "\<exists>out. u_printint 1 2013 10 True [] = Some out \<and> (\<forall>w\<in>set out. fst w = 1) \<and> atoi (concat (map snd out) @ [0]) = Some 2013"
  by (rule printint_atoi_roundtrip) simp

end
