(* ===== verification/Grep.thy ===== *)
theory Grep
  imports Ulib
begin

text \<open>
  \<open>grep.c\<close>: the regular expression matcher, the loop that reads the input through a buffer of 1024 bytes
  and splits it in lines, and \<open>main\<close>. A pattern and a text are the bytes before their NUL.
\<close>

section \<open>The matcher\<close>

text \<open>
  \<open>matchhere\<close> and \<open>matchstar\<close> call each other; the \<open>do\<close> loop of \<open>matchstar\<close> is the recursion on the text.
\<close>

function matchhere :: "byte list \<Rightarrow> byte list \<Rightarrow> bool"
  and matchstar :: "byte \<Rightarrow> byte list \<Rightarrow> byte list \<Rightarrow> bool" where
  "matchhere [] text = True"
| "matchhere (c # re) text =
     (if re \<noteq> [] \<and> hd re = of_char CHR ''*'' then matchstar c (tl re) text
      else if c = of_char CHR ''$'' \<and> re = [] then text = []
      else case text of
             [] \<Rightarrow> False
           | t # text' \<Rightarrow> if c = of_char CHR ''.'' \<or> c = t then matchhere re text' else False)"
| "matchstar c re [] = matchhere re []"
| "matchstar c re (t # text) =
     (if matchhere re (t # text) then True
      else if t = c \<or> c = of_char CHR ''.'' then matchstar c re text else False)"
  by pat_completeness auto
termination
  by (relation "measure (\<lambda>x. case x of Inl (re, text) \<Rightarrow> 2 * length re + length text
       | Inr (c, re, text) \<Rightarrow> 2 * length re + length text + 1)") auto

fun match_from :: "byte list \<Rightarrow> byte list \<Rightarrow> bool" where
  "match_from re [] = matchhere re []"
| "match_from re (t # text) = (if matchhere re (t # text) then True else match_from re text)"

definition match :: "byte list \<Rightarrow> byte list \<Rightarrow> bool" where
  "match re text =
     (if re \<noteq> [] \<and> hd re = of_char CHR ''^'' then matchhere (tl re) text else match_from re text)"

section \<open>Reading the input\<close>

text \<open>
  The input is the list of portions in which it arrives. A \<open>read\<close> of at most \<open>n\<close> bytes takes the first
  portion, or its first \<open>n\<close> bytes; it gives nothing when \<open>n\<close> is 0, at the end, and at an empty portion.
\<close>

fun read_some :: "nat \<Rightarrow> byte list list \<Rightarrow> byte list \<times> byte list list" where
  "read_some n [] = ([], [])"
| "read_some n (d # ds) = (if length d \<le> n then (d, ds) else (take n d, drop n d # ds))"

abbreviation newline :: byte where
  "newline \<equiv> 0x0A"

text \<open>
  The inner loop: \<open>p\<close> is the place of the line in \<open>b\<close>. A line that matches is written with its newline put
  back; in one that does not match the NUL stays. A \<open>strchr\<close> that leaves the buffer is undefined.
\<close>

function grep_lines :: "byte list \<Rightarrow> nat \<Rightarrow> byte list \<Rightarrow> writes \<Rightarrow> (nat \<times> byte list \<times> writes) option" where
  "grep_lines pattern p b out =
     (case strchr (drop p b) newline of
        None \<Rightarrow> None
      | Some None \<Rightarrow> Some (p, b, out)
      | Some (Some k) \<Rightarrow>
          let q = p + k; b' = b[q := 0]
          in if match pattern (cstr (drop p b'))
             then let b'' = b'[q := newline]
                  in grep_lines pattern (q + 1) b'' (out @ [(1, take (q + 1 - p) (drop p b''))])
             else grep_lines pattern (q + 1) b' out)"
  by pat_completeness auto
termination
  by (relation "measure (\<lambda>(pattern, p, b, out). length b - p)") (auto dest: strchr_found)

declare grep_lines.simps [simp del]

text \<open>
  The outer loop. \<open>m\<close> is a signed integer; when it is negative, \<open>buf + m\<close> is outside of the buffer and the
  \<open>read\<close> is undefined. \<open>memmove (buf, p, m)\<close> moves what is left to the front.
\<close>

function grep_loop :: "byte list \<Rightarrow> int \<Rightarrow> byte list \<Rightarrow> byte list list \<Rightarrow> writes \<Rightarrow> (byte list \<times> writes) option" where
  "grep_loop pattern m b inp out =
     (if m < 0 then None
      else let (d, inp') = read_some (length b - nat m) inp
           in if d = [] then Some (b, out)
              else let b = take (nat m) b @ d @ drop (nat m + length d) b; m = m + int (length d)
                   in case grep_lines pattern 0 b out of
                        None \<Rightarrow> None
                      | Some (p, b, out) \<Rightarrow>
                          let m = (if p = 0 then 0 else m)
                          in if m > 0
                             then let m = m - int p
                                  in grep_loop pattern m (take (nat m) (drop p b) @ drop (nat m) b) inp' out
                             else grep_loop pattern m b inp' out)"
  by pat_completeness auto
termination
proof (relation "measure (\<lambda>(pattern, m, b, inp, out). sum_list (map length inp))", goal_cases)
  have less: "sum_list (map length inp') < sum_list (map length inp)" if "(d, inp') = read_some n inp" "d \<noteq> []"
    for d inp' n and inp :: "byte list list"
    using that by (cases inp) (auto split: if_splits)
  {
    case 2
    then show ?case using less by simp
  next
    case 3
    then show ?case using less by simp
  }
qed simp

declare grep_loop.simps [simp del]

definition grep :: "byte list \<Rightarrow> byte list \<Rightarrow> byte list list \<Rightarrow> writes \<Rightarrow> (byte list \<times> writes) option" where
  "grep pattern b inp out = grep_loop pattern 0 b inp out"

text \<open>
  \<open>main\<close>: the arguments after the program name, the input that opening a file gives, and the standard
  input. The buffer \<open>buf\<close> of the program is passed from one call of \<open>grep\<close> to the next.
\<close>

fun grep_files :: "byte list \<Rightarrow> (byte list \<Rightarrow> byte list list option) \<Rightarrow> byte list list \<Rightarrow> byte list \<Rightarrow> writes \<Rightarrow> writes option" where
  "grep_files pattern files [] b out = Some out"
| "grep_files pattern files (f # fs) b out =
     (case files f of
        None \<Rightarrow> printf 1 (''grep: cannot open %s'' @ [CHR 0x0A]) [Str_arg (Some (f @ [0]))] out
      | Some inp \<Rightarrow> (case grep pattern b inp out of None \<Rightarrow> None | Some (b, out) \<Rightarrow> grep_files pattern files fs b out))"

definition grep_main :: "byte list list \<Rightarrow> (byte list \<Rightarrow> byte list list option) \<Rightarrow> byte list list \<Rightarrow> writes option" where
  "grep_main args files stdin =
     (case args of
        [] \<Rightarrow> printf 2 (''usage: grep pattern [file ...]'' @ [CHR 0x0A]) [] []
      | [pattern] \<Rightarrow> map_option snd (grep pattern (replicate 1024 0) stdin [])
      | pattern # fs \<Rightarrow> grep_files pattern files fs (replicate 1024 0) [])"

section \<open>The language of a pattern\<close>

text \<open>
  What a pattern means, apart from the matcher: a sequence of items, each for one character or for any
  number of them, and whether it ends in a \<open>$\<close> that stands for the end of the text.
\<close>

datatype item = One byte | Many byte

definition sym :: "byte \<Rightarrow> byte \<Rightarrow> bool" where
  "sym c t \<longleftrightarrow> c = of_char CHR ''.'' \<or> c = t"

fun items :: "byte list \<Rightarrow> item list" where
  "items [] = []"
| "items (c # re) =
     (if re \<noteq> [] \<and> hd re = of_char CHR ''*'' then Many c # items (tl re)
      else if c = of_char CHR ''$'' \<and> re = [] then []
      else One c # items re)"

fun at_end :: "byte list \<Rightarrow> bool" where
  "at_end [] = False"
| "at_end (c # re) =
     (if re \<noteq> [] \<and> hd re = of_char CHR ''*'' then at_end (tl re)
      else if c = of_char CHR ''$'' \<and> re = [] then True
      else at_end re)"

fun lang :: "item list \<Rightarrow> byte list set" where
  "lang [] = {[]}"
| "lang (One c # is) = {t # u | t u. sym c t \<and> u \<in> lang is}"
| "lang (Many c # is) = {w @ u | w u. (\<forall>t\<in>set w. sym c t) \<and> u \<in> lang is}"

definition matches_at :: "byte list \<Rightarrow> byte list \<Rightarrow> bool" where
  "matches_at re text \<longleftrightarrow> (\<exists>u v. text = u @ v \<and> u \<in> lang (items re) \<and> (at_end re \<longrightarrow> v = []))"

definition matches_star :: "byte \<Rightarrow> byte list \<Rightarrow> byte list \<Rightarrow> bool" where
  "matches_star c re text \<longleftrightarrow> (\<exists>w rest. text = w @ rest \<and> (\<forall>t\<in>set w. sym c t) \<and> matches_at re rest)"

lemma matches_at_Nil: "matches_at [] text"
  by (simp add: matches_at_def)

lemma matches_at_star:
  "matches_at (c # of_char CHR ''*'' # re) text \<longleftrightarrow> matches_star c re text"
proof
  assume "matches_at (c # of_char CHR ''*'' # re) text"
  then obtain x v where "text = x @ v" "x \<in> lang (Many c # items re)" and v: "at_end re \<longrightarrow> v = []"
    unfolding matches_at_def by auto
  then obtain w u where "text = (w @ u) @ v" "\<forall>t\<in>set w. sym c t" "u \<in> lang (items re)" by auto
  then have "text = w @ (u @ v)" "\<forall>t\<in>set w. sym c t" "matches_at re (u @ v)" using v unfolding matches_at_def by auto
  then show "matches_star c re text" unfolding matches_star_def by blast
next
  assume "matches_star c re text"
  then obtain w u v where "text = w @ u @ v" "\<forall>t\<in>set w. sym c t" "u \<in> lang (items re)" "at_end re \<longrightarrow> v = []"
    unfolding matches_star_def matches_at_def by blast
  then show "matches_at (c # of_char CHR ''*'' # re) text"
    unfolding matches_at_def by (intro exI [of _ "w @ u"] exI [of _ v]) auto
qed

lemma matches_at_end: "matches_at [of_char CHR ''$''] text \<longleftrightarrow> text = []"
  by (auto simp: matches_at_def)

lemma matches_at_one:
  assumes "\<not> (re \<noteq> [] \<and> hd re = of_char CHR ''*'')" and "\<not> (c = of_char CHR ''$'' \<and> re = [])"
  shows "matches_at (c # re) text \<longleftrightarrow> (case text of [] \<Rightarrow> False | t # text' \<Rightarrow> sym c t \<and> matches_at re text')"
  using assms by (cases "text") (auto simp: matches_at_def Cons_eq_append_conv)

lemma matches_star_Nil: "matches_star c re [] \<longleftrightarrow> matches_at re []"
  by (auto simp: matches_star_def)

lemma matches_star_Cons:
  "matches_star c re (t # text) \<longleftrightarrow> matches_at re (t # text) \<or> sym c t \<and> matches_star c re text"
proof
  assume "matches_star c re (t # text)"
  then show "matches_at re (t # text) \<or> sym c t \<and> matches_star c re text"
    unfolding matches_star_def Cons_eq_append_conv by (metis append_Nil list.set_intros)
next
  assume a: "matches_at re (t # text) \<or> sym c t \<and> matches_star c re text"
  have "matches_star c re (t # text)" if "sym c t" "text = w @ rest" "\<forall>t\<in>set w. sym c t" "matches_at re rest" for w rest
    unfolding matches_star_def using that by (intro exI [of _ "t # w"] exI [of _ rest]) auto
  moreover have "matches_star c re (t # text)" if "matches_at re (t # text)"
    unfolding matches_star_def using that by (intro exI [of _ "[]"] exI [of _ "t # text"]) auto
  ultimately show "matches_star c re (t # text)" using a unfolding matches_star_def [of c re "text"] by blast
qed

lemma matchhere_language:
  "matchhere re text \<longleftrightarrow> matches_at re text"
  "matchstar c re text \<longleftrightarrow> matches_star c re text"
proof (induction re "text" and c re "text" rule: matchhere_matchstar.induct)
  case (2 c re "text")
  show ?case
  proof (cases "re \<noteq> [] \<and> hd re = of_char CHR ''*''")
    case True
    then obtain re' where "re = of_char CHR ''*'' # re'" by (cases re) auto
    then show ?thesis using 2(1) True by (simp only: matches_at_star) simp
  next
    case star: False
    show ?thesis
    proof (cases "c = of_char CHR ''$'' \<and> re = []")
      case True
      then show ?thesis using matches_at_end by simp
    next
      case False
      then show ?thesis using 2(2) [OF star False] star
        by (subst matches_at_one [OF star False]) (auto simp: sym_def split: list.splits)
    qed
  qed
qed (auto simp: matches_at_Nil matches_star_Nil matches_star_Cons sym_def)

lemma match_from_language: "match_from re text \<longleftrightarrow> (\<exists>pre rest. text = pre @ rest \<and> matches_at re rest)"
proof (induction "text")
  case (Cons t "text")
  then show ?case by (auto simp: matchhere_language(1) Cons_eq_append_conv)
qed (simp add: matchhere_language(1))

text \<open>
  C6. The matcher decides the language of the pattern. A text matches exactly when some part of it is a
  word of the language of the pattern, where the part starts the text if the pattern begins with \<open>^\<close>, and
  ends it if the pattern ends in an unstarred \<open>$\<close>. In particular the two routines that call each other
  always return.
\<close>

theorem match_decides_language:
  "match re text =
     (\<exists>pre u post. text = pre @ u @ post \<and>
        (let anchored = (re \<noteq> [] \<and> hd re = of_char CHR ''^''); body = (if anchored then tl re else re)
         in u \<in> lang (items body) \<and> (if anchored then pre = [] else True) \<and> (if at_end body then post = [] else True)))"
  by (auto simp: match_def matchhere_language match_from_language matches_at_def Let_def)

section \<open>Lines\<close>

lemma grep_lines_step:
  assumes "\<forall>x\<in>set l. x \<noteq> newline \<and> x \<noteq> 0"
  shows "grep_lines pat (length pre) (pre @ l @ newline # s) out =
    (if match pat l then grep_lines pat (length (pre @ l @ [newline])) ((pre @ l @ [newline]) @ s) (out @ [(1, l @ [newline])])
     else grep_lines pat (length (pre @ l @ [0])) ((pre @ l @ [0]) @ s) out)"
proof -
  have "strchr (drop (length pre) (pre @ l @ newline # s)) newline = Some (Some (length l))"
    using strchr_line [OF assms] by simp
  moreover have "(pre @ l @ newline # s)[length pre + length l := 0] = pre @ l @ 0 # s"
    "(pre @ l @ 0 # s)[length pre + length l := newline] = pre @ l @ newline # s"
    by (simp_all add: list_update_append)
  moreover have "cstr (l @ 0 # s) = l" using assms by (intro cstr_line) auto
  ultimately show ?thesis by (subst grep_lines.simps) (simp add: Let_def)
qed

lemma grep_lines_all:
  assumes "\<forall>l\<in>set ls. \<forall>x\<in>set l. x \<noteq> newline \<and> x \<noteq> 0" and "\<forall>x\<in>set final. x \<noteq> newline \<and> x \<noteq> 0"
  shows "\<exists>b. grep_lines pat (length pre) (pre @ concat (map (\<lambda>l. l @ [newline]) ls) @ final @ 0 # s) out =
      Some (length pre + length (concat (map (\<lambda>l. l @ [newline]) ls)), b @ final @ 0 # s,
        out @ map (\<lambda>l. (1, l @ [newline])) (filter (match pat) ls)) \<and>
    length b = length pre + length (concat (map (\<lambda>l. l @ [newline]) ls))"
  using assms(1)
proof (induction ls arbitrary: pre out)
  case Nil
  show ?case using strchr_end [OF assms(2)] by (subst grep_lines.simps) simp
next
  case (Cons l ls)
  have l: "\<forall>x\<in>set l. x \<noteq> newline \<and> x \<noteq> 0" using Cons.prems by simp
  show ?case
    using Cons.IH [of "pre @ l @ [newline]" "out @ [(1, l @ [newline])]"] Cons.IH [of "pre @ l @ [0]" out] Cons.prems
    by (simp add: grep_lines_step [OF l] add.assoc)
qed

text \<open>
  C21. \<open>grep\<close> prints the matching lines. When the input arrives in one portion that is shorter than the
  buffer and has no NUL, \<open>grep\<close> returns and has written exactly the lines that match, each with its newline,
  in their order, one \<open>write\<close> for each; what follows the last newline is dropped.
\<close>

theorem grep_prints_matching_lines:
  assumes "\<forall>l\<in>set ls. \<forall>x\<in>set l. x \<noteq> newline \<and> x \<noteq> 0" and "\<forall>x\<in>set final. x \<noteq> newline \<and> x \<noteq> 0"
    and "length (concat (map (\<lambda>l. l @ [newline]) ls) @ final) < 1024"
  shows "grep_main [pat] files [concat (map (\<lambda>l. l @ [newline]) ls) @ final] =
    Some (map (\<lambda>l. (1, l @ [newline])) (filter (match pat) ls))"
proof -
  let ?ls = "concat (map (\<lambda>l. l @ [newline]) ls)" and ?out = "map (\<lambda>l. (1, l @ [newline])) (filter (match pat) ls)"
  let ?d = "?ls @ final"
  obtain k where k: "1024 - length ?d = Suc k" using assms(3) by (cases "1024 - length ?d") auto
  then have b: "drop (length ?d) (replicate 1024 (0 :: byte)) = 0 # replicate k 0" by simp
  obtain b' where b': "grep_lines pat 0 (?d @ 0 # replicate k 0) [] =
      Some (length ?ls, b' @ final @ 0 # replicate k 0, map (\<lambda>l. (1, l @ [newline])) (filter (match pat) ls))"
    "length b' = length ?ls"
    using grep_lines_all [OF assms(1,2), of pat "[]" "replicate k 0" "[]"] by auto
  have stop: "grep_loop pat m c [] out = Some (c, out)" if "0 \<le> m" for m c out using that by (subst grep_loop.simps) simp
  show ?thesis
  proof (cases "?d = []")
    case True
    then have "ls = []" by (cases ls) auto
    then show ?thesis using True grep_loop.simps [of pat 0 _ "[[]]" "[]"] by (simp add: grep_main_def grep_def)
  next
    case False
    then have "0 < length ?d" by (simp only: length_greater_0_conv) simp
    then have pos: "0 < int (length ?ls) + int (length final)" unfolding length_append by linarith
    have "grep_loop pat 0 (replicate 1024 0) [?d] [] =
      Some (if length ?ls = 0 then b' @ final @ 0 # replicate k 0 else final @ drop (length final) (b' @ final @ 0 # replicate k 0),
        map (\<lambda>l. (1, l @ [newline])) (filter (match pat) ls))"
      using False assms(3) b b' pos
      by (subst grep_loop.simps) (simp add: Let_def stop del: drop_replicate)
    then show ?thesis by (simp add: grep_main_def grep_def)
  qed
qed

lemma grep_prints_matching_lines_witness:
  "grep_main [bytes_of ''^a.*b$''] (\<lambda>_. None) [bytes_of ''acb'' @ [newline] @ bytes_of ''abc'' @ [newline] @ bytes_of ''ab''] =
     Some [(1, bytes_of ''acb'' @ [newline])]"
proof -
  have "match (bytes_of ''^a.*b$'') (bytes_of ''acb'')" "\<not> match (bytes_of ''^a.*b$'') (bytes_of ''abc'')"
    by (simp_all add: match_def bytes_of_def)
  then show ?thesis
    using grep_prints_matching_lines [of "[bytes_of ''acb'', bytes_of ''abc'']" "bytes_of ''ab''" "bytes_of ''^a.*b$''" "\<lambda>_. None"]
    by (simp add: bytes_of_def)
qed



end
