(* ===== verification/Shell.thy ===== *)
theory Shell
  imports Ulib
begin

text \<open>
  The shell, \<open>sh.c\<close>: the tokeniser, the recursive-descent parser, and the execution of a parsed command.
  A pointer into the line is an index of the buffer \<open>b\<close>; \<open>es\<close> is the index of the NUL that ends the line.
  The commands that the parser allocates are values of a datatype.
\<close>

section \<open>Commands and tokens\<close>

type_synonym span = "nat \<times> nat"

text \<open>A word of the line is the pair of indices \<open>q\<close> and \<open>eq\<close> that the structures of the code hold.\<close>

datatype cmd =
    Exec "span list"
  | Redir cmd span int int
  | Pipe cmd cmd
  | List cmd cmd
  | Back cmd

abbreviation MAXARGS :: nat where
  "MAXARGS \<equiv> 10"

abbreviation O_RDONLY :: int where
  "O_RDONLY \<equiv> 0"

abbreviation O_WRONLY_CREATE :: int where
  "O_WRONLY_CREATE \<equiv> 0x201"

definition whitespace :: "byte list" where
  "whitespace = [32, 9, 13, 10, 11]"

definition symbols :: "byte list" where
  "symbols = bytes_of ''<|>&;()''"

definition chr_in :: "byte list \<Rightarrow> byte \<Rightarrow> bool" where
  "chr_in toks c = (case strchr (toks @ [0]) c of Some (Some k) \<Rightarrow> True | _ \<Rightarrow> False)"

function skip_ws :: "byte list \<Rightarrow> nat \<Rightarrow> nat \<Rightarrow> nat" where
  "skip_ws b es s = (if s < es \<and> chr_in whitespace (b ! s) then skip_ws b es (s + 1) else s)"
  by pat_completeness auto
termination
  by (relation "measure (\<lambda>(b, es, s). es - s)") auto

function skip_word :: "byte list \<Rightarrow> nat \<Rightarrow> nat \<Rightarrow> nat" where
  "skip_word b es s =
     (if s < es \<and> \<not> chr_in whitespace (b ! s) \<and> \<not> chr_in symbols (b ! s) then skip_word b es (s + 1) else s)"
  by pat_completeness auto
termination
  by (relation "measure (\<lambda>(b, es, s). es - s)") auto

declare skip_ws.simps [simp del] skip_word.simps [simp del]

text \<open>\<open>gettoken b es s\<close> is the token, its two ends, and the new place.\<close>

definition token_end :: "byte list \<Rightarrow> nat \<Rightarrow> nat \<Rightarrow> byte \<times> nat" where
  "token_end b es s =
     (let c = b ! s
      in if c = 0 then (c, s)
         else if c \<in> set (bytes_of ''|();&<'') then (c, s + 1)
         else if c = of_char CHR ''>'' then
           (if b ! (s + 1) = of_char CHR ''>'' then (of_char CHR ''+'', s + 2) else (c, s + 1))
         else (of_char CHR ''a'', skip_word b es s))"

definition gettoken :: "byte list \<Rightarrow> nat \<Rightarrow> nat \<Rightarrow> byte \<times> nat \<times> nat \<times> nat" where
  "gettoken b es s =
     (let q = skip_ws b es s; (ret, eq) = token_end b es q
      in (ret, q, eq, skip_ws b es eq))"

definition peek :: "byte list \<Rightarrow> nat \<Rightarrow> nat \<Rightarrow> string \<Rightarrow> bool \<times> nat" where
  "peek b es s toks =
     (let s = skip_ws b es s in (b ! s \<noteq> 0 \<and> chr_in (bytes_of toks) (b ! s), s))"

section \<open>The parser\<close>

text \<open>
  A parser gives a command and the place after it, or the message of a \<open>panic\<close>. The routines that call each
  other have a bound on the depth of their calls and are \<open>None\<close> when it is exceeded; the bound of \<open>parsecmd\<close>
  never is.
\<close>

datatype parse_error = Message string | Leftovers "byte list"

type_synonym parsed = "(parse_error + cmd \<times> nat) option"

fun pbind :: "parsed \<Rightarrow> (cmd \<Rightarrow> nat \<Rightarrow> parsed) \<Rightarrow> parsed" where
  "pbind None f = None"
| "pbind (Some (Inl e)) f = Some (Inl e)"
| "pbind (Some (Inr (c, s))) f = f c s"

lemma skip_ws_ge: "s \<le> skip_ws b es s"
  by (induction b es s rule: skip_ws.induct) (subst skip_ws.simps, auto)

lemma skip_ws_le: "s \<le> es \<Longrightarrow> skip_ws b es s \<le> es"
  by (induction b es s rule: skip_ws.induct) (subst skip_ws.simps, auto)

lemma skip_word_ge: "s \<le> skip_word b es s"
  by (induction b es s rule: skip_word.induct) (subst skip_word.simps, auto)

lemma skip_word_le: "s \<le> es \<Longrightarrow> skip_word b es s \<le> es"
  by (induction b es s rule: skip_word.induct) (subst skip_word.simps, auto)

lemma chr_in_iff: "0 \<notin> set toks \<Longrightarrow> chr_in toks c \<longleftrightarrow> c \<in> set toks"
proof (induction toks)
  case (Cons a toks)
  then show ?case by (auto simp: chr_in_def split: option.splits)
qed (simp add: chr_in_def)

definition word_char :: "byte \<Rightarrow> bool" where
  "word_char c \<longleftrightarrow> c \<noteq> 0 \<and> c \<notin> set whitespace \<and> c \<notin> set symbols"

lemma chr_in_simps:
  "chr_in whitespace c \<longleftrightarrow> c \<in> set whitespace" "chr_in symbols c \<longleftrightarrow> c \<in> set symbols"
  by (subst chr_in_iff; simp add: whitespace_def symbols_def bytes_of_def)+

lemma skip_ws_stop: "s \<le> es \<Longrightarrow> skip_ws b es s = es \<or> b ! skip_ws b es s \<notin> set whitespace"
  by (induction b es s rule: skip_ws.induct) (subst (1 2) skip_ws.simps, auto simp: chr_in_simps)

text \<open>A token that is not the end of the line is not empty, and the place moves on.\<close>

lemma token_end_gt:
  assumes "b ! s \<noteq> 0" and "s < es" and "b ! s \<notin> set whitespace"
  shows "s < snd (token_end b es s)"
proof -
  have "s < skip_word b es s" if "b ! s \<notin> set symbols"
    using that assms skip_word_ge [of "s + 1" b es] by (subst skip_word.simps) (simp add: chr_in_simps)
  then show ?thesis using assms by (auto simp: token_end_def Let_def symbols_def bytes_of_def)
qed

lemma token_end_le:
  assumes "s \<le> es" and "b ! es = 0"
  shows "s \<le> snd (token_end b es s) \<and> snd (token_end b es s) \<le> es"
proof -
  have *: "s < es" if "b ! s \<noteq> 0" using that assms by (cases "s = es") auto
  have **: "s + 2 \<le> es" if "b ! s \<noteq> 0" "b ! (s + 1) = of_char CHR ''>''"
    using that * assms by (cases "s + 1 = es") auto
  show ?thesis using * ** assms skip_word_ge [of s b es] skip_word_le [of s es b] by (auto simp: token_end_def Let_def)
qed

lemma gettoken_place:
  assumes "s \<le> es" and "b ! es = 0" and "gettoken b es s = (tok, q, eq, s')"
  shows "s \<le> q" and "q \<le> eq" and "eq \<le> s'" and "s' \<le> es" and "tok \<noteq> 0 \<Longrightarrow> q < eq" and "b ! q \<noteq> 0 \<Longrightarrow> q < eq"
proof -
  have q: "q = skip_ws b es s" "eq = snd (token_end b es q)" "s' = skip_ws b es eq" "tok = fst (token_end b es q)"
    using assms(3) by (auto simp: gettoken_def Let_def split: prod.splits)
  have le: "s \<le> q" "q \<le> es" using assms(1) skip_ws_ge skip_ws_le q(1) by auto
  then have e: "q \<le> eq" "eq \<le> es" using token_end_le assms(2) q(2) by auto
  have s': "eq \<le> s'" "s' \<le> es" using e(2) skip_ws_ge skip_ws_le q(3) by auto
  have "tok \<noteq> 0 \<Longrightarrow> b ! q \<noteq> 0" using q(4) by (auto simp: token_end_def Let_def)
  moreover have gt: "q < eq" if "b ! q \<noteq> 0"
  proof -
    have "q \<noteq> es" using that assms(2) by auto
    then show ?thesis using that token_end_gt [of b q es] skip_ws_stop [OF assms(1), of b] le q(1,2) by auto
  qed
  ultimately show "s \<le> q" "q \<le> eq" "eq \<le> s'" "s' \<le> es" "tok \<noteq> 0 \<Longrightarrow> q < eq" "b ! q \<noteq> 0 \<Longrightarrow> q < eq"
    using le e s' by auto
qed

lemma peek_place:
  assumes "s \<le> es" and "peek b es s toks = (r, s')"
  shows "s \<le> s'" and "s' \<le> es" and "r \<Longrightarrow> b ! s' \<noteq> 0" and "skip_ws b es s' = s'"
proof -
  have s': "s' = skip_ws b es s" using assms(2) by (simp add: peek_def Let_def)
  show "s \<le> s'" "s' \<le> es" using assms(1) skip_ws_ge skip_ws_le s' by auto
  show "r \<Longrightarrow> b ! s' \<noteq> 0" using assms(2) by (auto simp: peek_def Let_def)
  show "skip_ws b es s' = s'"
    using skip_ws_stop [OF assms(1), of b] s' by (subst skip_ws.simps) (auto simp: chr_in_simps)
qed

text \<open>
  The loops take the same bound. \<open>parseredirs\<close> wraps a command in its redirections; \<open>argv\<close> of the
  \<open>execcmd\<close> inside them is filled through the pointer \<open>cmd\<close>, which is \<open>add_arg\<close>.
\<close>

fun parseredirs :: "nat \<Rightarrow> byte list \<Rightarrow> nat \<Rightarrow> cmd \<Rightarrow> nat \<Rightarrow> parsed" where
  "parseredirs 0 b es cmd s = None"
| "parseredirs (Suc n) b es cmd s =
     (let (more, s) = peek b es s ''<>''
      in if \<not> more then Some (Inr (cmd, s))
         else let (tok, _, _, s) = gettoken b es s; (w, q, eq, s) = gettoken b es s
              in if w \<noteq> of_char CHR ''a'' then Some (Inl (Message ''missing file for redirection''))
                 else if tok = of_char CHR ''<'' then parseredirs n b es (Redir cmd (q, eq) O_RDONLY 0) s
                 else if tok = of_char CHR ''>'' then parseredirs n b es (Redir cmd (q, eq) O_WRONLY_CREATE 1) s
                 else if tok = of_char CHR ''+'' then parseredirs n b es (Redir cmd (q, eq) O_WRONLY_CREATE 1) s
                 else parseredirs n b es cmd s)"

fun add_arg :: "span \<Rightarrow> cmd \<Rightarrow> cmd" where
  "add_arg a (Exec as) = Exec (as @ [a])"
| "add_arg a (Redir cmd f mode fd) = Redir (add_arg a cmd) f mode fd"
| "add_arg a cmd = cmd"

fun parseexec_loop :: "nat \<Rightarrow> byte list \<Rightarrow> nat \<Rightarrow> nat \<Rightarrow> cmd \<Rightarrow> nat \<Rightarrow> parsed" where
  "parseexec_loop 0 b es argc ret s = None"
| "parseexec_loop (Suc n) b es argc ret s =
     (let (stop, s) = peek b es s ''|)&;''
      in if stop then Some (Inr (ret, s))
         else let (tok, q, eq, s) = gettoken b es s
              in if tok = 0 then Some (Inr (ret, s))
                 else if tok \<noteq> of_char CHR ''a'' then Some (Inl (Message ''syntax''))
                 else if argc + 1 \<ge> MAXARGS then Some (Inl (Message ''too many args''))
                 else pbind (parseredirs n b es (add_arg (q, eq) ret) s) (\<lambda>ret s. parseexec_loop n b es (argc + 1) ret s))"

fun parse_backs :: "nat \<Rightarrow> byte list \<Rightarrow> nat \<Rightarrow> cmd \<Rightarrow> nat \<Rightarrow> parsed" where
  "parse_backs 0 b es cmd s = None"
| "parse_backs (Suc n) b es cmd s =
     (let (more, s) = peek b es s ''&''
      in if more then let (_, _, _, s) = gettoken b es s in parse_backs n b es (Back cmd) s
         else Some (Inr (cmd, s)))"

function (sequential) parseline :: "nat \<Rightarrow> byte list \<Rightarrow> nat \<Rightarrow> nat \<Rightarrow> parsed"
  and parsepipe :: "nat \<Rightarrow> byte list \<Rightarrow> nat \<Rightarrow> nat \<Rightarrow> parsed"
  and parseexec :: "nat \<Rightarrow> byte list \<Rightarrow> nat \<Rightarrow> nat \<Rightarrow> parsed"
  and parseblock :: "nat \<Rightarrow> byte list \<Rightarrow> nat \<Rightarrow> nat \<Rightarrow> parsed" where
  "parseline 0 b es s = None"
| "parseline (Suc n) b es s =
     pbind (parsepipe n b es s) (\<lambda>cmd s.
     pbind (parse_backs n b es cmd s) (\<lambda>cmd s.
       let (semi, s) = peek b es s '';''
       in if semi then
            let (_, _, _, s) = gettoken b es s
            in pbind (parseline n b es s) (\<lambda>right s. Some (Inr (List cmd right, s)))
          else Some (Inr (cmd, s))))"
| "parsepipe 0 b es s = None"
| "parsepipe (Suc n) b es s =
     pbind (parseexec n b es s) (\<lambda>cmd s.
       let (bar, s) = peek b es s ''|''
       in if bar then
            let (_, _, _, s) = gettoken b es s
            in pbind (parsepipe n b es s) (\<lambda>right s. Some (Inr (Pipe cmd right, s)))
          else Some (Inr (cmd, s)))"
| "parseexec 0 b es s = None"
| "parseexec (Suc n) b es s =
     (let (block, s) = peek b es s ''(''
      in if block then parseblock n b es s
         else pbind (parseredirs n b es (Exec []) s) (\<lambda>ret s. parseexec_loop n b es 0 ret s))"
| "parseblock 0 b es s = None"
| "parseblock (Suc n) b es s =
     (let (opening, s) = peek b es s ''(''
      in if \<not> opening then Some (Inl (Message ''parseblock''))
         else let (_, _, _, s) = gettoken b es s
              in pbind (parseline n b es s) (\<lambda>cmd s.
                   let (closing, s) = peek b es s '')''
                   in if \<not> closing then Some (Inl (Message ''syntax - missing )''))
                      else let (_, _, _, s) = gettoken b es s in parseredirs n b es cmd s))"
  by pat_completeness auto
termination
  by (relation "measure (case_sum (case_sum fst fst) (case_sum fst fst))") simp_all

fun nulterminate :: "cmd \<Rightarrow> byte list \<Rightarrow> byte list" where
  "nulterminate (Exec as) b = fold (\<lambda>(q, eq) b. b[eq := 0]) as b"
| "nulterminate (Redir cmd f mode fd) b = (nulterminate cmd b)[snd f := 0]"
| "nulterminate (Pipe left right) b = nulterminate right (nulterminate left b)"
| "nulterminate (List left right) b = nulterminate right (nulterminate left b)"
| "nulterminate (Back cmd) b = nulterminate cmd b"

text \<open>\<open>parsecmd\<close> gives the command and the buffer after \<open>nulterminate\<close>. It needs a NUL in the buffer.\<close>

definition parsecmd :: "byte list \<Rightarrow> (parse_error + cmd \<times> byte list) option" where
  "parsecmd b =
     (case strlen b of
        None \<Rightarrow> None
      | Some es \<Rightarrow>
          (case parseline (4 * es + 4) b es 0 of
             None \<Rightarrow> None
           | Some (Inl e) \<Rightarrow> Some (Inl e)
           | Some (Inr (cmd, s)) \<Rightarrow>
               let (_, s) = peek b es s []
               in if s \<noteq> es then Some (Inl (Leftovers (cstr (drop s b))))
                  else Some (Inr (cmd, nulterminate cmd b))))"

section \<open>Running a command\<close>

text \<open>
  A process is a tree of the system calls it makes: \<open>Sys call k\<close> makes the call and goes on as \<open>k\<close> says
  for its result, an integer and, for \<open>pipe\<close>, the two descriptors. \<open>Halt\<close> is \<open>exit\<close>. A \<open>fork\<close> has the
  result 0 in the child.
\<close>

datatype syscall_req =
    S_close int | S_open "byte list" int | S_exec "byte list" "byte list list" | S_fork | S_wait
  | S_pipe | S_dup int | S_write int "byte list"

datatype prog = Halt | Sys syscall_req "int \<times> int \<times> int \<Rightarrow> prog"

abbreviation call :: "syscall_req \<Rightarrow> prog \<Rightarrow> prog" where
  "call r k \<equiv> Sys r (\<lambda>_. k)"

definition say :: "string \<Rightarrow> carg list \<Rightarrow> prog \<Rightarrow> prog" where
  "say fmt args k =
     (case printf 2 fmt args [] of None \<Rightarrow> Halt | Some out \<Rightarrow> foldr (\<lambda>(fd, d) k. call (S_write fd d) k) out k)"

definition sh_panic :: "string \<Rightarrow> prog" where
  "sh_panic msg = say (''%s'' @ [CHR 0x0A]) [Str_arg (Some (bytes_of msg @ [0]))] Halt"

definition fork1 :: "prog \<Rightarrow> prog \<Rightarrow> prog" where
  "fork1 child parent = Sys S_fork (\<lambda>(pid, _). if pid = - 1 then sh_panic ''fork'' else if pid = 0 then child else parent)"

definition arg_str :: "byte list \<Rightarrow> span \<Rightarrow> byte list" where
  "arg_str b w = cstr (drop (fst w) b)"

fun runcmd :: "byte list \<Rightarrow> cmd \<Rightarrow> prog" where
  "runcmd b (Exec as) =
     (case as of
        [] \<Rightarrow> Halt
      | a # _ \<Rightarrow> call (S_exec (arg_str b a) (map (arg_str b) as))
          (say (''exec %s failed'' @ [CHR 0x0A]) [Str_arg (Some (drop (fst a) b))] Halt))"
| "runcmd b (Redir cmd f mode fd) =
     call (S_close fd) (Sys (S_open (arg_str b f) mode) (\<lambda>(r, _).
       if r < 0 then say (''open %s failed'' @ [CHR 0x0A]) [Str_arg (Some (drop (fst f) b))] Halt
       else runcmd b cmd))"
| "runcmd b (List left right) = fork1 (runcmd b left) (call S_wait (runcmd b right))"
| "runcmd b (Pipe left right) =
     Sys S_pipe (\<lambda>(r, p0, p1).
       if r < 0 then sh_panic ''pipe''
       else fork1 (call (S_close 1) (call (S_dup p1) (call (S_close p0) (call (S_close p1) (runcmd b left)))))
           (fork1 (call (S_close 0) (call (S_dup p0) (call (S_close p0) (call (S_close p1) (runcmd b right)))))
              (call (S_close p0) (call (S_close p1) (call S_wait (call S_wait Halt))))))"
| "runcmd b (Back cmd) = fork1 (runcmd b cmd) Halt"

text \<open>The child of the shell for one line: \<open>runcmd (parsecmd (buf))\<close>, with the messages of the parser.\<close>

definition run_line :: "byte list \<Rightarrow> prog option" where
  "run_line b =
     (case parsecmd b of
        None \<Rightarrow> None
      | Some (Inl (Message msg)) \<Rightarrow> Some (sh_panic msg)
      | Some (Inl (Leftovers rest)) \<Rightarrow> Some (say (''leftovers: %s'' @ [CHR 0x0A]) [Str_arg (Some (rest @ [0]))] (sh_panic ''syntax''))
      | Some (Inr (cmd, b)) \<Rightarrow> Some (runcmd b cmd))"

section \<open>The main loop\<close>

definition getcmd :: "byte list \<Rightarrow> (int \<times> byte list \<times> byte list) option" where
  "getcmd inp =
     (case gets (replicate 100 0) 100 inp of
        None \<Rightarrow> None
      | Some (buf, inp) \<Rightarrow> Some (if buf ! 0 = 0 then - 1 else 0, buf, inp))"

lemma gets_loop_count:
  "gets_loop buf i mx inp = Some (buf', j, inp') \<Longrightarrow> i \<le> j \<and> j - i + length inp' = length inp \<and> length buf' = length buf"
  by (induction buf i mx inp rule: gets_loop.induct) (fastforce split: if_splits)+

lemma getcmd_consumes: "getcmd inp = Some (0, buf, inp') \<Longrightarrow> length inp' < length inp"
proof -
  assume "getcmd inp = Some (0, buf, inp')"
  then obtain buf' j where j: "gets_loop (replicate 100 0) 0 100 inp = Some (buf', j, inp')" "\<not> length buf' \<le> j" "buf'[j := 0] ! 0 \<noteq> 0"
    by (auto simp: getcmd_def gets_def split: option.splits if_splits)
  then have "j \<noteq> 0" by (metis nth_list_update_eq not_le)
  then show "length inp' < length inp" using gets_loop_count [OF j(1)] by linarith
qed

text \<open>
  What the shell does with its input, line by line: change the directory itself, or start a child for the
  line. \<open>buf[strlen(buf)-1] = 0\<close> cuts the newline off.
\<close>

datatype job = Chdir "byte list" | Child "prog option"

function sh_loop :: "byte list \<Rightarrow> job list" where
  "sh_loop inp =
     (case getcmd inp of
        None \<Rightarrow> []
      | Some (r, buf, inp') \<Rightarrow>
          if r \<noteq> 0 then []
          else if buf ! 0 = of_char CHR ''c'' \<and> buf ! 1 = of_char CHR ''d'' \<and> buf ! 2 = of_char CHR '' ''
          then Chdir (cstr (drop 3 (buf[length (cstr buf) - 1 := 0]))) # sh_loop inp'
          else Child (run_line buf) # sh_loop inp')"
  by pat_completeness auto
termination
  by (relation "measure length") (auto dest: getcmd_consumes)

declare sh_loop.simps [simp del]

section \<open>The parser always returns\<close>

definition ends :: "nat \<Rightarrow> nat \<Rightarrow> parsed \<Rightarrow> bool" where
  "ends es s r = (case r of None \<Rightarrow> False | Some (Inl e) \<Rightarrow> True | Some (Inr (cmd, s')) \<Rightarrow> s \<le> s' \<and> s' \<le> es)"

lemma ends_simps [simp]:
  "\<not> ends es s None" "ends es s (Some (Inl e))" "ends es s (Some (Inr (cmd, s'))) \<longleftrightarrow> s \<le> s' \<and> s' \<le> es"
  by (simp_all add: ends_def)

lemma ends_mono: "ends es s' r \<Longrightarrow> s \<le> s' \<Longrightarrow> ends es s r"
  by (auto simp: ends_def split: option.splits sum.splits)

lemma ends_pbind:
  assumes "ends es s m" and "\<And>cmd s'. s \<le> s' \<Longrightarrow> s' \<le> es \<Longrightarrow> ends es s' (f cmd s')"
  shows "ends es s (pbind m f)"
proof (cases "(m, f)" rule: pbind.cases)
  case (3 cmd s' g)
  then show ?thesis using assms(1) assms(2) [of s' cmd] by (auto intro: ends_mono)
qed (use assms in auto)

lemma peek_gettoken:
  assumes "s \<le> es" and "b ! es = 0" and "peek b es s toks = (True, s1)" and "gettoken b es s1 = (tok, q, eq, s2)"
  shows "s < s2" and "s2 \<le> es"
proof -
  note p = peek_place [OF assms(1,3)] and g = gettoken_place [OF peek_place(2) [OF assms(1,3)] assms(2,4)]
  have "q = s1" using assms(4) p(4) by (simp add: gettoken_def Let_def split: prod.splits)
  then show "s < s2" "s2 \<le> es" using p(1) p(3) g(3,4,6) by simp_all
qed

lemma gettoken_next:
  assumes "s \<le> es" and "b ! es = 0" and "gettoken b es s = (tok, q, eq, s')"
  shows "s \<le> s'" and "s' \<le> es" and "tok \<noteq> 0 \<Longrightarrow> s < s'"
  using gettoken_place(1-5) [OF assms] by linarith+

lemma parseredirs_ends:
  "s \<le> es \<Longrightarrow> b ! es = 0 \<Longrightarrow> es - s < n \<Longrightarrow> ends es s (parseredirs n b es cmd s)"
proof (induction n arbitrary: cmd s)
  case (Suc n)
  obtain more s1 where p: "peek b es s ''<>'' = (more, s1)" by force
  note p' = peek_place [OF Suc.prems(1) p]
  obtain tok q1 e1 s2 where g1: "gettoken b es s1 = (tok, q1, e1, s2)" by (rule prod_cases4)
  obtain w q e s3 where g2: "gettoken b es s2 = (w, q, e, s3)" by (rule prod_cases4)
  show ?case
  proof (cases more)
    case True
    have p1: "peek b es s ''<>'' = (True, s1)" using p True by simp
    note s2 = peek_gettoken [OF Suc.prems(1,2) p1 g1]
    have "s2 \<le> s3" "s3 \<le> es" using gettoken_next(1,2) [OF s2(2) Suc.prems(2) g2] by simp_all
    then have "ends es s (parseredirs n b es c s3)" for c
      using Suc.IH [of s3 c] Suc.prems s2 by - (rule ends_mono [of es s3], auto)
    then show ?thesis using p g1 g2 True by simp
  qed (use p p' in simp)
qed simp

lemma parseexec_loop_ends:
  "s \<le> es \<Longrightarrow> b ! es = 0 \<Longrightarrow> es - s < n \<Longrightarrow> ends es s (parseexec_loop n b es argc ret s)"
proof (induction n arbitrary: argc ret s)
  case (Suc n)
  obtain stop s1 where p: "peek b es s ''|)&;'' = (stop, s1)" by force
  note p' = peek_place [OF Suc.prems(1) p]
  obtain tok q e s2 where g: "gettoken b es s1 = (tok, q, e, s2)" by (rule prod_cases4)
  note g' = gettoken_next [OF p'(2) Suc.prems(2) g]
  have "ends es s (pbind (parseredirs n b es c s2) (\<lambda>ret s. parseexec_loop n b es a ret s))" if "tok \<noteq> 0" for c a
  proof -
    have s2: "s < s2" "s2 \<le> es" using g'(2) g'(3) [OF that] p'(1) by simp_all
    have "ends es s2 (pbind (parseredirs n b es c s2) (\<lambda>ret s. parseexec_loop n b es a ret s))"
      using s2 Suc.prems by (intro ends_pbind parseredirs_ends Suc.IH) auto
    then show ?thesis using s2 by - (rule ends_mono [of es s2], auto)
  qed
  then show ?case using p g p'(1,2) g'(1,2) by (auto simp del: parseredirs.simps)
qed simp

lemma parse_backs_ends:
  "s \<le> es \<Longrightarrow> b ! es = 0 \<Longrightarrow> es - s < n \<Longrightarrow> ends es s (parse_backs n b es cmd s)"
proof (induction n arbitrary: cmd s)
  case (Suc n)
  obtain more s1 where p: "peek b es s ''&'' = (more, s1)" by force
  note p' = peek_place [OF Suc.prems(1) p]
  obtain tok q e s2 where g: "gettoken b es s1 = (tok, q, e, s2)" by (rule prod_cases4)
  show ?case
  proof (cases more)
    case True
    then have p1: "peek b es s ''&'' = (True, s1)" using p by simp
    note s2 = peek_gettoken [OF Suc.prems(1,2) p1 g]
    then have "ends es s (parse_backs n b es (Back cmd) s2)"
      using Suc.IH [of s2 "Back cmd"] Suc.prems by - (rule ends_mono [of es s2], auto)
    then show ?thesis using p g True by simp
  qed (use p p' in simp)
qed simp

text \<open>An optional rest of a command: a separator, and a command after it.\<close>

lemma optional_ends:
  assumes "s \<le> es" and "b ! es = 0" and "\<And>s'. s < s' \<Longrightarrow> s' \<le> es \<Longrightarrow> ends es s' (f s')"
  shows "ends es s (let (more, s) = peek b es s toks
     in if more then let (_, _, _, s) = gettoken b es s in pbind (f s) (\<lambda>right s. Some (Inr (g right, s)))
        else Some (Inr (cmd, s)))"
proof -
  obtain more s1 where p: "peek b es s toks = (more, s1)" by force
  obtain tok q e s2 where g: "gettoken b es s1 = (tok, q, e, s2)" by (rule prod_cases4)
  show ?thesis
  proof (cases more)
    case True
    then have p1: "peek b es s toks = (True, s1)" using p by simp
    note s2 = peek_gettoken [OF assms(1,2) p1 g]
    then have "ends es s2 (pbind (f s2) (\<lambda>right s. Some (Inr (g right, s))))" by (intro ends_pbind assms(3)) auto
    then have "ends es s (pbind (f s2) (\<lambda>right s. Some (Inr (g right, s))))" using s2(1) by - (rule ends_mono [of es s2], auto)
    then show ?thesis using p g True by simp
  qed (use p peek_place [OF assms(1) p] in simp)
qed

lemma parse_ends:
  "b ! es = 0 \<Longrightarrow> s \<le> es \<Longrightarrow>
   (4 * (es - s) + 4 \<le> n \<longrightarrow> ends es s (parseline n b es s)) \<and>
   (4 * (es - s) + 3 \<le> n \<longrightarrow> ends es s (parsepipe n b es s)) \<and>
   (4 * (es - s) + 2 \<le> n \<longrightarrow> ends es s (parseexec n b es s)) \<and>
   (4 * (es - s) + 1 \<le> n \<longrightarrow> ends es s (parseblock n b es s))"
proof (induction n arbitrary: s)
  case (Suc n)
  have b: "b ! es = 0" by (rule Suc.prems(1))
  note IH = Suc.IH [OF b]
  have line: "ends es s (parseline (Suc n) b es s)" if "4 * (es - s) + 4 \<le> Suc n"
    unfolding parseline.simps using that Suc.prems
    by (intro ends_pbind optional_ends parse_backs_ends IH [THEN conjunct1, THEN mp] IH [THEN conjunct2, THEN conjunct1, THEN mp]) auto
  have pipe: "ends es s (parsepipe (Suc n) b es s)" if "4 * (es - s) + 3 \<le> Suc n"
    unfolding parsepipe.simps using that Suc.prems
    by (intro ends_pbind optional_ends IH [THEN conjunct2, THEN conjunct1, THEN mp]
        IH [THEN conjunct2, THEN conjunct2, THEN conjunct1, THEN mp]) auto
  have exec: "ends es s (parseexec (Suc n) b es s)" if n: "4 * (es - s) + 2 \<le> Suc n"
  proof -
    obtain block s1 where p: "peek b es s ''('' = (block, s1)" by force
    note p' = peek_place [OF Suc.prems(2) p]
    have "ends es s1 (parseblock n b es s1)" using IH [OF p'(2)] n p'(1) by auto
    moreover have "ends es s1 (pbind (parseredirs n b es (Exec []) s1) (\<lambda>ret s. parseexec_loop n b es 0 ret s))"
      using n p'(1,2) b by (intro ends_pbind parseredirs_ends parseexec_loop_ends) auto
    ultimately show ?thesis using p ends_mono [OF _ p'(1)] by simp
  qed
  have block: "ends es s (parseblock (Suc n) b es s)" if n: "4 * (es - s) + 1 \<le> Suc n"
  proof -
    obtain op s1 where p: "peek b es s ''('' = (op, s1)" by force
    obtain tok q e s2 where g: "gettoken b es s1 = (tok, q, e, s2)" by (rule prod_cases4)
    let ?rest = "\<lambda>cmd s. let (closing, s) = peek b es s '')''
      in if \<not> closing then Some (Inl (Message ''syntax - missing )''))
         else let (_, _, _, s) = gettoken b es s in parseredirs n b es cmd s"
    have rest: "ends es s' (?rest cmd s')" if s': "s < s'" "s' \<le> es" for cmd s'
    proof -
      obtain closing s3 where p3: "peek b es s' '')'' = (closing, s3)" by force
      obtain tok q e s4 where g4: "gettoken b es s3 = (tok, q, e, s4)" by (rule prod_cases4)
      show ?thesis
      proof (cases closing)
        case True
        then have p1: "peek b es s' '')'' = (True, s3)" using p3 by simp
        note s4 = peek_gettoken [OF s'(2) b p1 g4]
        then have "ends es s' (parseredirs n b es cmd s4)"
          using s' n b by - (rule ends_mono [of es s4], auto intro!: parseredirs_ends)
        then show ?thesis using p3 g4 True by simp
      qed (use p3 in simp)
    qed
    show ?thesis
    proof (cases op)
      case True
      then have p1: "peek b es s ''('' = (True, s1)" using p by simp
      note s2 = peek_gettoken [OF Suc.prems(2) b p1 g]
      have "ends es s2 (pbind (parseline n b es s2) ?rest)"
        using IH [OF s2(2)] s2 n by (intro ends_pbind rest) auto
      then have "ends es s (pbind (parseline n b es s2) ?rest)" using s2(1) by - (rule ends_mono [of es s2], auto)
      then show ?thesis using p g True by simp
    qed (use p in simp)
  qed
  show ?case using line pipe exec block by blast
qed simp

lemma strlen_NUL: "0 \<in> set b \<Longrightarrow> \<exists>es. strlen b = Some es \<and> es < length b \<and> b ! es = 0 \<and> cstr b = take es b"
proof (induction b)
  case (Cons c b)
  then show ?case by (cases "c = 0") (auto simp: cstr_def)
qed simp

text \<open>
  C7. The parser always returns. Whatever the line, as long as it ends in a NUL, \<open>parsecmd\<close> gives a command
  or one of its error messages: no loop of the parser runs for ever, and the depth of its calls is at
  most four for each character.
\<close>

theorem parsecmd_returns:
  assumes "0 \<in> set b"
  shows "\<exists>r. parsecmd b = Some r"
proof -
  obtain es where es: "strlen b = Some es" "b ! es = 0" using strlen_NUL [OF assms] by blast
  then have "ends es 0 (parseline (4 * es + 4) b es 0)" using parse_ends [of b es 0 "4 * es + 4"] by simp
  then show ?thesis using es(1) by (auto simp: parsecmd_def ends_def Let_def split: option.splits sum.splits prod.splits)
qed

lemma parsecmd_returns_witness: "\<exists>r. parsecmd (bytes_of ''(ls | wc) > x &'' @ [0]) = Some r"
  by (rule parsecmd_returns) simp

end
