(* ===== verification/ShellParse.thy ===== *)
theory ShellParse
  imports Shell
begin

text \<open>
  The parser of the shell inverts printing. A command with its words is printed as tokens, each followed by
  a space; \<open>toks\<close> describes a place of the line by the tokens that follow it, and for each routine of the
  parser a predicate says what it does on the tokens of a command: \<open>exec_ok\<close>, \<open>pipe_ok\<close>, \<open>back_ok\<close> and
  \<open>line_ok\<close>, all proved by induction on the command in \<open>all_ok\<close>.
\<close>

section \<open>Printing and parsing\<close>

text \<open>
  Commands with their words, and their text. \<open>scmd_tokens lev c\<close> is the text of \<open>c\<close> as tokens, in a place of the
  grammar where only a line (0), a command in the background (1), a pipeline (2) or a simple command (3)
  can stand; parentheses are put where they are needed.
\<close>

datatype scmd =
    SExec "byte list list"
  | SRedir scmd "byte list" int int
  | SPipe scmd scmd
  | SList scmd scmd
  | SBack scmd

abbreviation chr :: "char \<Rightarrow> byte" where
  "chr c \<equiv> of_char c"

abbreviation sym_tok :: "char \<Rightarrow> byte \<times> byte list" where
  "sym_tok c \<equiv> (chr c, [chr c])"

abbreviation word_tok :: "byte list \<Rightarrow> byte \<times> byte list" where
  "word_tok w \<equiv> (chr CHR ''a'', w)"

definition parens :: "bool \<Rightarrow> (byte \<times> byte list) list \<Rightarrow> (byte \<times> byte list) list" where
  "parens p ts = (if p then sym_tok CHR ''('' # ts @ [sym_tok CHR '')''] else ts)"

primrec scmd_tokens :: "scmd \<Rightarrow> nat \<Rightarrow> (byte \<times> byte list) list" where
  "scmd_tokens (SExec ws) lev = map word_tok ws"
| "scmd_tokens (SRedir c f mode fd) lev = scmd_tokens c 3 @ [sym_tok (if fd = 0 then CHR ''<'' else CHR ''>''), word_tok f]"
| "scmd_tokens (SPipe l r) lev = parens (2 < lev) (scmd_tokens l 3 @ sym_tok CHR ''|'' # scmd_tokens r 2)"
| "scmd_tokens (SList l r) lev = parens (0 < lev) (scmd_tokens l 1 @ sym_tok CHR '';'' # scmd_tokens r 0)"
| "scmd_tokens (SBack c) lev = parens (1 < lev) (scmd_tokens c 1 @ [sym_tok CHR ''&''])"

definition text_of :: "(byte \<times> byte list) list \<Rightarrow> byte list" where
  "text_of ts = concat (map (\<lambda>t. snd t @ [32]) ts)"

definition word :: "byte list \<Rightarrow> bool" where
  "word w \<longleftrightarrow> w \<noteq> [] \<and> (\<forall>x\<in>set w. word_char x)"

fun printable :: "scmd \<Rightarrow> bool" where
  "printable (SExec ws) \<longleftrightarrow> length ws < MAXARGS \<and> (\<forall>w\<in>set ws. word w)"
| "printable (SRedir c f mode fd) \<longleftrightarrow> printable c \<and> word f \<and> (mode, fd) \<in> {(O_RDONLY, 0), (O_WRONLY_CREATE, 1)}"
| "printable (SPipe l r) \<longleftrightarrow> printable l \<and> printable r"
| "printable (SList l r) \<longleftrightarrow> printable l \<and> printable r"
| "printable (SBack c) \<longleftrightarrow> printable c"

text \<open>\<open>good b es (q, e) w\<close>: the word \<open>w\<close> stands from \<open>q\<close> to \<open>e\<close>, and no character of a word stands at \<open>e\<close>.\<close>

definition good :: "byte list \<Rightarrow> nat \<Rightarrow> span \<Rightarrow> byte list \<Rightarrow> bool" where
  "good b es a w \<longleftrightarrow> word w \<and> fst a + length w = snd a \<and> snd a \<le> es \<and>
     take (length w) (drop (fst a) b) = w \<and> \<not> word_char (b ! snd a)"

fun denotes :: "byte list \<Rightarrow> nat \<Rightarrow> cmd \<Rightarrow> scmd \<Rightarrow> bool" where
  "denotes b es (Exec as) (SExec ws) \<longleftrightarrow> list_all2 (good b es) as ws"
| "denotes b es (Redir c f mode fd) (SRedir c' w mode' fd') \<longleftrightarrow> denotes b es c c' \<and> good b es f w \<and>
     mode = mode' \<and> fd = fd'"
| "denotes b es (Pipe l r) (SPipe l' r') \<longleftrightarrow> denotes b es l l' \<and> denotes b es r r'"
| "denotes b es (List l r) (SList l' r') \<longleftrightarrow> denotes b es l l' \<and> denotes b es r r'"
| "denotes b es (Back c) (SBack c') \<longleftrightarrow> denotes b es c c'"
| "denotes b es _ _ \<longleftrightarrow> False"

text \<open>\<open>toks b es s ts\<close>: the tokens of the line from the place \<open>s\<close> on are \<open>ts\<close>.\<close>

primrec toks :: "byte list \<Rightarrow> nat \<Rightarrow> nat \<Rightarrow> (byte \<times> byte list) list \<Rightarrow> bool" where
  "toks b es s [] \<longleftrightarrow> s \<le> es \<and> skip_ws b es s = es"
| "toks b es s (t # ts) \<longleftrightarrow> s \<le> es \<and>
     (\<exists>e s'. gettoken b es s = (fst t, skip_ws b es s, e, s') \<and> toks b es s' ts \<and>
        (if fst t = chr CHR ''a'' then good b es (skip_ws b es s, e) (snd t) \<and> word_char (b ! skip_ws b es s)
         else fst t = b ! skip_ws b es s \<and> fst t \<in> set symbols))"

lemma symbols_simps [simp]:
  "0 \<notin> set symbols" "chr CHR ''a'' \<notin> set symbols" "\<not> word_char 0"
  by (simp_all add: symbols_def bytes_of_def word_char_def)

lemma skip_ws_idem: "s \<le> es \<Longrightarrow> skip_ws b es (skip_ws b es s) = skip_ws b es s"
  using skip_ws_stop [of s es b] by (subst skip_ws.simps) (auto simp: chr_in_simps)

lemma toks_skip: "s \<le> es \<Longrightarrow> toks b es (skip_ws b es s) ts \<longleftrightarrow> toks b es s ts"
  by (cases ts) (simp_all add: skip_ws_idem skip_ws_le gettoken_def)

lemma toks_le: "toks b es s ts \<Longrightarrow> s \<le> es"
  by (cases ts) auto

definition head_in :: "string \<Rightarrow> (byte \<times> byte list) list \<Rightarrow> bool" where
  "head_in cs ts \<longleftrightarrow> ts \<noteq> [] \<and> fst (hd ts) \<in> set (bytes_of cs)"

lemma peek_toks:
  assumes "toks b es s ts" and "b ! es = 0" and "set (bytes_of cs) \<subseteq> set symbols"
  obtains s' where "peek b es s cs = (head_in cs ts, s')" "toks b es s' ts" "s \<le> s'"
proof -
  let ?s = "skip_ws b es s"
  have le: "s \<le> es" using assms(1) by (rule toks_le)
  have "0 \<notin> set (bytes_of cs)" using assms(3) by auto
  then have in_cs: "chr_in (bytes_of cs) c \<longleftrightarrow> c \<in> set (bytes_of cs)" for c by (rule chr_in_iff)
  have "(b ! ?s \<noteq> 0 \<and> b ! ?s \<in> set (bytes_of cs)) = head_in cs ts"
  proof (cases ts)
    case Nil
    then show ?thesis using assms(1,2) by (simp add: head_in_def)
  next
    case (Cons t ts')
    then consider "fst t = chr CHR ''a''" "word_char (b ! ?s)" | "fst t = b ! ?s" "fst t \<in> set symbols"
      using assms(1) by (auto split: if_splits)
    then show ?thesis
    proof cases
      case 1
      then have "b ! ?s \<notin> set (bytes_of cs)" "fst t \<notin> set (bytes_of cs)" using assms(3) symbols_simps(2) by (auto simp: word_char_def)
      then show ?thesis using Cons by (simp add: head_in_def)
    next
      case 2
      then have "b ! ?s \<noteq> 0" using symbols_simps(1) by auto
      then show ?thesis using Cons 2 by (simp add: head_in_def)
    qed
  qed
  then have "peek b es s cs = (head_in cs ts, ?s)" by (simp add: peek_def Let_def in_cs)
  then show ?thesis using that [of ?s] assms(1) toks_skip [OF le] skip_ws_ge by auto
qed

lemma toks_next:
  assumes "toks b es s ((k, w) # ts)" and "b ! es = 0"
  obtains q e s' where "gettoken b es s = (k, q, e, s')" "toks b es s' ts" "s < s'" "s' \<le> es"
    "k = chr CHR ''a'' \<Longrightarrow> good b es (q, e) w" "k \<noteq> 0"
proof -
  obtain e s' where g: "gettoken b es s = (k, skip_ws b es s, e, s')" "toks b es s' ts"
    "k = chr CHR ''a'' \<Longrightarrow> good b es (skip_ws b es s, e) w" "k = chr CHR ''a'' \<or> k \<in> set symbols"
    using assms(1) by (auto split: if_splits)
  have k: "k \<noteq> 0" using g(4) symbols_simps(1) by auto
  have "s < s'" "s' \<le> es" using gettoken_place [OF toks_le [OF assms(1)] assms(2) g(1)] k by linarith+
  then show ?thesis using that g k by blast
qed

lemma skip_word_over:
  assumes "\<forall>x\<in>set w. word_char x" and "length pre + length w \<le> es" and "\<not> word_char c" and "c \<noteq> 0"
  shows "skip_word (pre @ w @ c # r) es (length pre) = length pre + length w"
  using assms(1,2)
proof (induction w arbitrary: pre)
  case Nil
  then show ?case using assms(3,4) by (subst skip_word.simps) (auto simp: chr_in_simps word_char_def)
next
  case (Cons x w)
  then have "skip_word (pre @ (x # w) @ c # r) es (length pre) = skip_word ((pre @ [x]) @ w @ c # r) es (length (pre @ [x]))"
    by (subst skip_word.simps) (auto simp: chr_in_simps word_char_def)
  also have "\<dots> = length (pre @ [x]) + length w" using Cons by (intro Cons.IH) auto
  finally show ?case by simp
qed

lemma skip_ws_over:
  assumes "set ws \<subseteq> set whitespace" and "length pre + length ws \<le> es" and "length pre + length ws = es \<or> c \<notin> set whitespace"
  shows "skip_ws (pre @ ws @ c # r) es (length pre) = length pre + length ws"
  using assms
proof (induction ws arbitrary: pre)
  case Nil
  then show ?case by (subst skip_ws.simps) (auto simp: chr_in_simps)
next
  case (Cons x ws)
  then have "skip_ws (pre @ (x # ws) @ c # r) es (length pre) = skip_ws ((pre @ [x]) @ ws @ c # r) es (length (pre @ [x]))"
    by (subst skip_ws.simps) (auto simp: chr_in_simps)
  also have "\<dots> = length (pre @ [x]) + length ws" using Cons by (intro Cons.IH) auto
  finally show ?case by simp
qed

definition valid_tok :: "byte \<times> byte list \<Rightarrow> bool" where
  "valid_tok t \<longleftrightarrow> (if fst t = chr CHR ''a'' then word (snd t) else snd t = [fst t] \<and> fst t \<in> set symbols)"

lemma space_simps [simp]: "\<not> word_char 32" "32 \<in> set whitespace" "32 \<noteq> chr CHR ''>''"
  by (simp_all add: word_char_def whitespace_def)

lemma symbol_cases: "k \<in> set symbols \<longleftrightarrow> k \<in> set (bytes_of ''|();&<'') \<or> k = chr CHR ''>''"
  by (auto simp: symbols_def bytes_of_def)

lemma symbol_no_space: "k \<in> set symbols \<Longrightarrow> k \<notin> set whitespace \<and> k \<noteq> 0"
  by (auto simp: symbols_def bytes_of_def whitespace_def)

text \<open>The tokens of a text that is printed with a space after every token.\<close>

lemma text_toks:
  assumes "\<forall>t\<in>set ts. valid_tok t" and "set ws \<subseteq> set whitespace" and "b = pre @ text_of ts @ ws @ 0 # r"
    and "es = length pre + length (text_of ts) + length ws"
  shows "toks b es (length pre) ts"
  using assms(1,3,4)
proof (induction ts arbitrary: pre)
  case Nil
  then show ?case using assms(2) by (auto simp: text_of_def intro!: skip_ws_over)
next
  case (Cons t ts)
  obtain k w where t: "t = (k, w)" by force
  let ?s = "length pre" and ?e = "length pre + length w" and ?r = "text_of ts @ ws @ 0 # r"
  have b: "b = pre @ w @ 32 # ?r" and es: "?e < es" using Cons.prems(2,3) t by (simp_all add: text_of_def)
  have v: "valid_tok (k, w)" using Cons.prems(1) t by simp
  then obtain c w' where w: "w = c # w'" "c \<notin> set whitespace" "c \<noteq> 0"
    using symbol_no_space by (cases w) (auto simp: valid_tok_def word_def word_char_def split: if_splits)
  have sk: "skip_ws b es ?s = ?s" using skip_ws_over [of "[]" pre es c "w' @ 32 # ?r"] es w b by simp
  have bs: "b ! ?s = c" using b w by simp
  have be: "b ! ?e = 32" unfolding b by (simp add: nth_append)
  have te: "token_end b es ?s = (k, ?e)"
  proof (cases "k = chr CHR ''a''")
    case True
    then have wc: "\<forall>x\<in>set w. word_char x" using v by (simp add: valid_tok_def word_def)
    then have "c \<notin> set symbols" "c \<noteq> 0" using w by (simp_all add: word_char_def)
    moreover have "skip_word b es ?s = ?e" unfolding b using wc es by (intro skip_word_over) auto
    ultimately show ?thesis using True bs by (simp add: token_end_def symbol_cases)
  next
    case False
    then have "w = [k]" "k \<in> set symbols" using v by (simp_all add: valid_tok_def)
    then show ?thesis using bs be w by (auto simp: token_end_def Let_def symbol_cases)
  qed
  have nxt: "toks b es (skip_ws b es ?e) ts"
  proof -
    have "toks b es (length (pre @ w @ [32])) ts" using Cons.prems t by (intro Cons.IH) (simp_all add: text_of_def)
    moreover have "skip_ws b es ?e = skip_ws b es (Suc ?e)" using be es by (subst skip_ws.simps) (simp add: chr_in_simps)
    ultimately show ?thesis using toks_skip [of "Suc ?e" es b ts] es by simp
  qed
  have g: "good b es (?s, ?e) w \<and> word_char c" if "k = chr CHR ''a''"
    using that v es be w by (auto simp: good_def valid_tok_def word_def b)
  have "gettoken b es ?s = (k, ?s, ?e, skip_ws b es ?e)" by (simp add: gettoken_def sk te Let_def)
  then show ?case using nxt g v es bs w sk by (auto simp: t valid_tok_def)
qed

lemma valid_tok_simps [simp]:
  "valid_tok (40, [40])" "valid_tok (41, [41])" "valid_tok (124, [124])" "valid_tok (59, [59])" "valid_tok (38, [38])"
  "valid_tok (60, [60])" "valid_tok (62, [62])" "valid_tok (97, w) \<longleftrightarrow> word w"
  by (simp_all add: valid_tok_def symbols_def bytes_of_def)

lemma scmd_tokens_valid: "printable c \<Longrightarrow> list_all valid_tok (scmd_tokens c lev)"
  by (induction c arbitrary: lev) (simp_all add: parens_def list_all_iff ball_Un)

section \<open>Spans after \<open>nulterminate\<close>\<close>

definition cut :: "byte list \<Rightarrow> byte list \<Rightarrow> bool" where
  "cut b b' \<longleftrightarrow> length b' = length b \<and> (\<forall>i<length b. b' ! i = b ! i \<or> b' ! i = 0 \<and> \<not> word_char (b ! i))"

lemma cut_refl: "cut b b"
  by (simp add: cut_def)

lemma cut_upd: "cut b b' \<Longrightarrow> \<not> word_char (b ! e) \<Longrightarrow> cut b (b'[e := 0])"
  by (cases "e < length b'") (auto simp: cut_def nth_list_update)

lemma cut_fold: "cut b b' \<Longrightarrow> list_all2 (good b es) as ws \<Longrightarrow> cut b (fold (\<lambda>(q, e) b. b[e := 0]) as b')"
proof (induction as arbitrary: b' ws)
  case (Cons a as)
  then obtain w ws' where "good b es a w" "list_all2 (good b es) as ws'" by (auto simp: list_all2_Cons1)
  moreover have "cut b (b'[snd a := 0])" using Cons.prems(1) calculation(1) by (auto simp: good_def intro: cut_upd)
  ultimately show ?case using Cons.IH by (auto simp: case_prod_beta)
qed simp

lemma cut_nulterminate: "denotes b es cmd c \<Longrightarrow> cut b b' \<Longrightarrow> cut b (nulterminate cmd b')"
proof (induction b es cmd c arbitrary: b' rule: denotes.induct)
  case (2 b es c f mode fd c' w mode' fd')
  then show ?case by (auto simp: good_def intro!: cut_upd)
qed (auto intro: cut_fold)

lemma upd_keeps_NUL: "b ! i = 0 \<Longrightarrow> i < length b \<Longrightarrow> b[e := 0] ! i = 0" for b :: "byte list"
  by (cases "e = i") auto

lemma fold_keeps_NUL: "b ! i = 0 \<Longrightarrow> i < length b \<Longrightarrow> fold (\<lambda>(q, e) b. b[e := 0]) as b ! i = 0" for b :: "byte list"
  by (induction as arbitrary: b) (auto simp: upd_keeps_NUL)

lemma nulterminate_length [simp]: "length (nulterminate cmd b) = length b"
proof (induction cmd arbitrary: b)
  case (Exec as)
  show ?case by (induction as arbitrary: b) (auto split: prod.splits)
qed auto

lemma nulterminate_keeps_NUL: "b ! i = 0 \<Longrightarrow> i < length b \<Longrightarrow> nulterminate cmd b ! i = 0"
  by (induction cmd arbitrary: b) (simp_all add: fold_keeps_NUL upd_keeps_NUL)

lemma good_cut:
  assumes "good b es (q, e) w" and "cut b b'" and "b' ! e = 0" and "es < length b"
  shows "arg_str b' (q, e) = w"
proof -
  have w: "\<forall>x\<in>set w. word_char x" "q + length w = e" "e < length b" "take (length w) (drop q b) = w"
    using assms(1,4) by (auto simp: good_def word_def)
  have "b' ! (q + i) = w ! i" if "i < length w" for i
  proof -
    have "w ! i = take (length w) (drop q b) ! i" by (simp only: w(4))
    also have "\<dots> = b ! (q + i)" using w(2,3) that by simp
    finally have "w ! i = b ! (q + i)" .
    moreover have "word_char (w ! i)" using w(1) that by simp
    moreover have "q + i < length b" using w(2,3) that by simp
    ultimately show ?thesis using assms(2) unfolding cut_def by metis
  qed
  then have "take (length w) (drop q b') = w"
    using w(2,3) assms(2) by (intro nth_equalityI) (auto simp: cut_def)
  moreover have "drop (length w) (drop q b') = 0 # drop (Suc e) b'"
    using w(2,3) assms(2,3) Cons_nth_drop_Suc [of e b'] by (simp add: cut_def add.commute)
  ultimately have "drop q b' = w @ 0 # drop (Suc e) b'" using append_take_drop_id [of "length w" "drop q b'"] by simp
  moreover have "\<forall>x\<in>set w. x \<noteq> 0" using w(1) by (auto simp: word_char_def)
  ultimately show ?thesis using cstr_line by (simp add: arg_str_def)
qed

fun spans :: "cmd \<Rightarrow> span set" where
  "spans (Exec as) = set as"
| "spans (Redir c f mode fd) = insert f (spans c)"
| "spans (Pipe l r) = spans l \<union> spans r"
| "spans (List l r) = spans l \<union> spans r"
| "spans (Back c) = spans c"

text \<open>A command with the strings that its pointers denote in the buffer \<open>b\<close>.\<close>

fun strings :: "byte list \<Rightarrow> cmd \<Rightarrow> scmd" where
  "strings b (Exec as) = SExec (map (arg_str b) as)"
| "strings b (Redir c f mode fd) = SRedir (strings b c) (arg_str b f) mode fd"
| "strings b (Pipe l r) = SPipe (strings b l) (strings b r)"
| "strings b (List l r) = SList (strings b l) (strings b r)"
| "strings b (Back c) = SBack (strings b c)"

lemma nulterminate_spans: "(q, e) \<in> spans cmd \<Longrightarrow> e < length b \<Longrightarrow> nulterminate cmd b ! e = 0"
proof (induction cmd arbitrary: b)
  case (Exec as)
  then show ?case by (induction as arbitrary: b) (auto intro: fold_keeps_NUL)
qed (auto intro: nulterminate_keeps_NUL upd_keeps_NUL)

lemma denotes_strings:
  "denotes b es cmd c \<Longrightarrow> es < length b \<Longrightarrow> cut b b' \<Longrightarrow> \<forall>(q, e)\<in>spans cmd. b' ! e = 0 \<Longrightarrow> strings b' cmd = c"
proof (induction b es cmd c rule: denotes.induct)
  case (1 b es as ws)
  have "map (arg_str b') as = ws"
    using 1 by (induction as arbitrary: ws) (auto simp: list_all2_Cons1 intro: good_cut)
  then show ?case by simp
qed (auto intro: good_cut)

lemma nulterminate_strings:
  assumes "denotes b es cmd c" and "es < length b"
  shows "strings (nulterminate cmd b) cmd = c"
proof (rule denotes_strings [OF assms cut_nulterminate [OF assms(1) cut_refl]])
  have "e < length b" if "(q, e) \<in> spans cmd" for q e
    using assms that
  proof (induction b es cmd c rule: denotes.induct)
    case (1 b es as ws)
    then show ?case by (auto simp: list_all2_conv_all_nth in_set_conv_nth good_def)
  qed (auto simp: good_def)
  then show "\<forall>(q, e)\<in>spans cmd. nulterminate cmd b ! e = 0" using nulterminate_spans by blast
qed

section \<open>The parser reads what is printed\<close>

lemma head_in_simps [simp]:
  "\<not> head_in cs []" "head_in cs ((k, w) # ts) \<longleftrightarrow> k \<in> set (bytes_of cs)"
  by (simp_all add: head_in_def)

lemma pbind_assoc: "pbind (pbind m f) g = pbind m (\<lambda>c s. pbind (f c s) g)"
  by (cases "(m, f)" rule: pbind.cases) simp_all

lemma pbind_Ret: "pbind m (\<lambda>c s. Some (Inr (c, s))) = m"
  by (cases "(m, \<lambda>c s. Some (Inr (c, s)) :: parsed)" rule: pbind.cases) simp_all

lemma peek_yes:
  assumes "toks b es s ((k, w) # ts)" and "b ! es = 0" and "k \<in> set (bytes_of cs)" and "set (bytes_of cs) \<subseteq> set symbols"
  obtains s' where "peek b es s cs = (True, s')" "toks b es s' ((k, w) # ts)" "s \<le> s'"
proof -
  have "head_in cs ((k, w) # ts)" using assms(3) by simp
  then show ?thesis using that by - (rule peek_toks [OF assms(1,2,4)], simp)
qed

lemma peek_no:
  assumes "toks b es s ts" and "b ! es = 0" and "\<not> head_in cs ts" and "set (bytes_of cs) \<subseteq> set symbols"
  obtains s' where "peek b es s cs = (False, s')" "toks b es s' ts" "s \<le> s'"
  using that assms(3) by - (rule peek_toks [OF assms(1,2,4)], simp)

lemmas chars = symbols_def bytes_of_def

declare toks.simps [simp del]

definition stops :: "string \<Rightarrow> (byte \<times> byte list) list \<Rightarrow> bool" where
  "stops cs R \<longleftrightarrow> R = [] \<or> head_in cs R"

definition reads :: "byte list \<Rightarrow> nat \<Rightarrow> nat \<Rightarrow> parsed \<Rightarrow> scmd \<Rightarrow> (byte \<times> byte list) list \<Rightarrow> bool" where
  "reads b es s r c R \<longleftrightarrow> (\<exists>cmd s'. r = Some (Inr (cmd, s')) \<and> denotes b es cmd c \<and> toks b es s' R \<and> s \<le> s')"

lemma redirs_stop:
  assumes "toks b es s R" and "b ! es = 0" and "\<not> head_in ''<>'' R" and "0 < n"
  obtains s' where "parseredirs n b es ret s = Some (Inr (ret, s'))" "toks b es s' R" "s \<le> s'"
proof -
  obtain m where "n = Suc m" using assms(4) by (cases n) auto
  moreover obtain s' where "peek b es s ''<>'' = (False, s')" "toks b es s' R" "s \<le> s'"
    by (rule peek_no [OF assms(1-3)]) (simp add: chars)
  ultimately show ?thesis using that [of s'] by simp
qed

lemma redirs_step:
  assumes "toks b es s (sym_tok (if fd = 0 then CHR ''<'' else CHR ''>'') # word_tok f # R)" and "b ! es = 0" and "es - s < n"
    and "(mode, fd) \<in> {(O_RDONLY, 0), (O_WRONLY_CREATE, 1)}"
  obtains q e s' m where "parseredirs n b es ret s = parseredirs m b es (Redir ret (q, e) mode fd) s'" "toks b es s' R"
    "good b es (q, e) f" "s \<le> s'" "es - s' < m"
proof -
  obtain m where n: "n = Suc m" using assms(3) by (cases n) auto
  let ?k = "chr (if fd = 0 then CHR ''<'' else CHR ''>'')"
  obtain s1 where p: "peek b es s ''<>'' = (True, s1)" "toks b es s1 ((?k, [?k]) # word_tok f # R)" "s \<le> s1"
    by (rule peek_yes [OF assms(1,2), of "''<>''"]) (simp_all add: chars)
  obtain q1 e1 s2 where g1: "gettoken b es s1 = (?k, q1, e1, s2)" "toks b es s2 (word_tok f # R)" "s1 < s2" "s2 \<le> es"
    by (rule toks_next [OF p(2) assms(2)])
  obtain q e s3 where g2: "gettoken b es s2 = (chr CHR ''a'', q, e, s3)" "toks b es s3 R" "s2 < s3" "s3 \<le> es" "good b es (q, e) f"
    by (rule toks_next [OF g1(2) assms(2)]) simp
  have "parseredirs n b es ret s = parseredirs m b es (Redir ret (q, e) mode fd) s3"
    using assms(4) by (auto simp: n p(1) g1(1) g2(1))
  then show ?thesis using that g2 g1(3) p(3) assms(3) n by auto
qed

lemma loop_stop:
  assumes "toks b es s R" and "b ! es = 0" and "stops ''|)&;'' R" and "0 < n"
  obtains s' where "parseexec_loop n b es argc ret s = Some (Inr (ret, s'))" "toks b es s' R" "s \<le> s'"
proof -
  obtain m where n: "n = Suc m" using assms(4) by (cases n) auto
  obtain s1 where p: "peek b es s ''|)&;'' = (head_in ''|)&;'' R, s1)" "toks b es s1 R" "s \<le> s1"
    by (rule peek_toks [OF assms(1,2), of "''|)&;''"]) (simp add: chars)
  show ?thesis
  proof (cases "R = []")
    case True
    then have "skip_ws b es s1 = es" "s1 \<le> es" using p(2) by (auto simp: toks.simps)
    moreover have "skip_ws b es es = es" by (subst skip_ws.simps) simp
    ultimately have "gettoken b es s1 = (0, es, es, es)" "toks b es es []" "s \<le> es"
      using assms(2) p(3) by (auto simp: gettoken_def token_end_def Let_def toks.simps)
    then show ?thesis using that [of es] True p(1) n by simp
  next
    case False
    then show ?thesis using that [of s1] assms(3) p n by (simp add: stops_def)
  qed
qed

lemma exec_words:
  assumes "b ! es = 0"
  shows "toks b es s (map word_tok ws @ R) \<Longrightarrow> es - s < n \<Longrightarrow> argc + length ws < MAXARGS \<Longrightarrow>
   \<exists>n' s' as. pbind (parseredirs n b es (Exec as0) s) (\<lambda>ret s. parseexec_loop n b es argc ret s) =
       pbind (parseredirs n' b es (Exec (as0 @ as)) s') (\<lambda>ret s. parseexec_loop n' b es (argc + length ws) ret s) \<and>
     list_all2 (good b es) as ws \<and> toks b es s' R \<and> es - s' < n' \<and> s \<le> s'"
proof (induction ws arbitrary: s n argc as0)
  case Nil
  then show ?case by (intro exI [of _ n] exI [of _ s] exI [of _ "[]"]) simp
next
  case (Cons w ws)
  obtain m where n: "n = Suc m" using Cons.prems(2) by (cases n) auto
  let ?ts = "word_tok w # map word_tok ws @ R"
  have t: "toks b es s ?ts" using Cons.prems(1) by simp
  obtain s1 where r: "parseredirs n b es (Exec as0) s = Some (Inr (Exec as0, s1))" "toks b es s1 ?ts" "s \<le> s1"
    by (rule redirs_stop [OF t assms, of n "Exec as0"]) (use Cons.prems(2) in \<open>auto simp: bytes_of_def\<close>)
  obtain s2 where p: "peek b es s1 ''|)&;'' = (False, s2)" "toks b es s2 ?ts" "s1 \<le> s2"
    by (rule peek_no [OF r(2) assms, of "''|)&;''"]) (simp_all add: chars)
  obtain q e s3 where g: "gettoken b es s2 = (chr CHR ''a'', q, e, s3)" "toks b es s3 (map word_tok ws @ R)" "s2 < s3" "s3 \<le> es"
    "good b es (q, e) w"
    by (rule toks_next [OF p(2) assms]) simp
  have step: "pbind (parseredirs n b es (Exec as0) s) (\<lambda>ret s. parseexec_loop n b es argc ret s) =
    pbind (parseredirs m b es (Exec (as0 @ [(q, e)])) s3) (\<lambda>ret s. parseexec_loop m b es (argc + 1) ret s)"
    using Cons.prems(3) unfolding r(1) by (simp add: n p(1) g(1))
  have lt: "es - s3 < m" using g(3,4) p(3) r(3) Cons.prems(2) n by linarith
  obtain n' s' as where ih: "pbind (parseredirs m b es (Exec (as0 @ [(q, e)])) s3) (\<lambda>ret s. parseexec_loop m b es (argc + 1) ret s) =
       pbind (parseredirs n' b es (Exec ((as0 @ [(q, e)]) @ as)) s') (\<lambda>ret s. parseexec_loop n' b es (argc + 1 + length ws) ret s)"
     "list_all2 (good b es) as ws" "toks b es s' R" "es - s' < n'" "s3 \<le> s'"
    using Cons.IH [OF g(2) lt, of "argc + 1" "as0 @ [(q, e)]"] Cons.prems(3) by auto
  show ?case
    by (intro exI [of _ n'] exI [of _ s'] exI [of _ "(q, e) # as"]) (use step ih g p(3) r(3) in simp)
qed

text \<open>
  What each routine of the parser does on the tokens of a command followed by \<open>R\<close>. A simple command is
  followed by the redirections of the commands around it: \<open>exec_ok\<close> leaves \<open>parseexec\<close> at a call of
  \<open>parseredirs\<close>, after which \<open>k\<close> only closes the command.
\<close>

definition closes :: "byte list \<Rightarrow> nat \<Rightarrow> (cmd \<Rightarrow> nat \<Rightarrow> parsed) \<Rightarrow> bool" where
  "closes b es k \<longleftrightarrow> (\<forall>ret s1 R'. toks b es s1 R' \<longrightarrow> stops ''|)&;'' R' \<longrightarrow> (\<exists>s2. k ret s1 = Some (Inr (ret, s2)) \<and> toks b es s2 R' \<and> s1 \<le> s2))"

definition exec_ok :: "byte list \<Rightarrow> nat \<Rightarrow> scmd \<Rightarrow> bool" where
  "exec_ok b es c \<longleftrightarrow> (\<forall>s R n. toks b es s (scmd_tokens c 3 @ R) \<longrightarrow> \<not> head_in ''('' R \<longrightarrow> 4 * (es - s) + 2 \<le> n \<longrightarrow>
     (\<exists>ret s' n' k. parseexec n b es s = pbind (parseredirs n' b es ret s') k \<and> denotes b es ret c \<and> toks b es s' R \<and>
        s \<le> s' \<and> es - s' < n' \<and>
        closes b es k))"

definition pipe_ok :: "byte list \<Rightarrow> nat \<Rightarrow> scmd \<Rightarrow> bool" where
  "pipe_ok b es c \<longleftrightarrow> (\<forall>s R n. toks b es s (scmd_tokens c 2 @ R) \<longrightarrow> stops '')&;'' R \<longrightarrow> 4 * (es - s) + 3 \<le> n \<longrightarrow>
     reads b es s (parsepipe n b es s) c R)"

definition back_ok :: "byte list \<Rightarrow> nat \<Rightarrow> scmd \<Rightarrow> bool" where
  "back_ok b es c \<longleftrightarrow> (\<forall>s R n. toks b es s (scmd_tokens c 1 @ R) \<longrightarrow> stops '')&;'' R \<longrightarrow> 4 * (es - s) + 3 \<le> n \<longrightarrow>
     (\<exists>cmd s' n'. pbind (parsepipe n b es s) (parse_backs n b es) = parse_backs n' b es cmd s' \<and> denotes b es cmd c \<and>
        toks b es s' R \<and> s \<le> s' \<and> es - s' < n'))"

definition line_ok :: "byte list \<Rightarrow> nat \<Rightarrow> scmd \<Rightarrow> bool" where
  "line_ok b es c \<longleftrightarrow> (\<forall>s R n. toks b es s (scmd_tokens c 0 @ R) \<longrightarrow> stops '')'' R \<longrightarrow> 4 * (es - s) + 4 \<le> n \<longrightarrow>
     reads b es s (parseline n b es s) c R)"

lemma exec_ok_words:
  assumes "b ! es = 0" and "length ws < MAXARGS"
  shows "exec_ok b es (SExec ws)"
  unfolding exec_ok_def
proof (intro allI impI)
  fix s R n
  assume t: "toks b es s (scmd_tokens (SExec ws) 3 @ R)" and R: "\<not> head_in ''('' R" and n: "4 * (es - s) + 2 \<le> n"
  obtain m where m: "n = Suc m" "es - s < m" using n by (cases n) auto
  have "\<not> head_in ''('' (map word_tok ws @ R)" using R by (cases ws) (simp_all add: chars)
  then obtain s1 where p: "peek b es s ''('' = (False, s1)" "toks b es s1 (map word_tok ws @ R)" "s \<le> s1"
    using t by - (rule peek_no [of b es s "map word_tok ws @ R" "''(''"], simp_all add: chars assms(1))
  have lt: "es - s1 < m" using m(2) p(3) by linarith
  obtain n' s' as where w: "pbind (parseredirs m b es (Exec []) s1) (\<lambda>ret s. parseexec_loop m b es 0 ret s) =
       pbind (parseredirs n' b es (Exec as) s') (\<lambda>ret s. parseexec_loop n' b es (length ws) ret s)"
     "list_all2 (good b es) as ws" "toks b es s' R" "es - s' < n'" "s1 \<le> s'"
    using exec_words [OF assms(1) p(2) lt, of 0 "[]"] assms(2) by auto
  have "parseexec n b es s = pbind (parseredirs n' b es (Exec as) s') (parseexec_loop n' b es (length ws))"
    using w(1) by (simp add: m(1) p(1))
  moreover have "\<exists>s2. parseexec_loop n' b es (length ws) ret s1 = Some (Inr (ret, s2)) \<and> toks b es s2 R' \<and> s1 \<le> s2"
    if "toks b es s1 R'" "stops ''|)&;'' R'" for ret s1 R'
    by (rule loop_stop [OF that(1) assms(1) that(2), of n' "length ws" ret]) (use w(4) in auto)
  ultimately show "\<exists>ret s' n' k. parseexec n b es s = pbind (parseredirs n' b es ret s') k \<and> denotes b es ret (SExec ws) \<and> toks b es s' R \<and>
        s \<le> s' \<and> es - s' < n' \<and>
        closes b es k"
    using w p(3) unfolding closes_def by (intro exI [of _ "Exec as"] exI [of _ s'] exI [of _ n'] exI [of _ "parseexec_loop n' b es (length ws)"]) auto
qed

lemma exec_okD:
  assumes "exec_ok b es c" and "toks b es s (scmd_tokens c 3 @ R)" and "\<not> head_in ''('' R" and "4 * (es - s) + 2 \<le> n"
  obtains ret s' n' k where "parseexec n b es s = pbind (parseredirs n' b es ret s') k" "denotes b es ret c" "toks b es s' R"
    "s \<le> s'" "es - s' < n'"
    "closes b es k"
  using assms unfolding exec_ok_def by metis

lemma exec_ok_redir:
  assumes "b ! es = 0" and "exec_ok b es c" and "(mode, fd) \<in> {(O_RDONLY, 0), (O_WRONLY_CREATE, 1)}"
  shows "exec_ok b es (SRedir c f mode fd)"
  unfolding exec_ok_def
proof (intro allI impI)
  fix s R n
  let ?R = "sym_tok (if fd = 0 then CHR ''<'' else CHR ''>'') # word_tok f # R"
  assume t: "toks b es s (scmd_tokens (SRedir c f mode fd) 3 @ R)" and n: "4 * (es - s) + 2 \<le> n"
  have t': "toks b es s (scmd_tokens c 3 @ ?R)" using t by simp
  have h: "\<not> head_in ''('' ?R" by (simp add: chars)
  obtain ret s' n' k where e: "parseexec n b es s = pbind (parseredirs n' b es ret s') k" "denotes b es ret c" "toks b es s' ?R"
    "s \<le> s'" "es - s' < n'"
    and k: "closes b es k"
    by (rule exec_okD [OF assms(2) t' h n])
  obtain q e s2 m where r: "parseredirs n' b es ret s' = parseredirs m b es (Redir ret (q, e) mode fd) s2" "toks b es s2 R"
    "good b es (q, e) f" "s' \<le> s2" "es - s2 < m"
    by (rule redirs_step [OF e(3) assms(1) e(5) assms(3)])
  show "\<exists>ret s' n' k. parseexec n b es s = pbind (parseredirs n' b es ret s') k \<and> denotes b es ret (SRedir c f mode fd) \<and> toks b es s' R \<and>
        s \<le> s' \<and> es - s' < n' \<and>
        closes b es k"
    using r e k by (intro exI [of _ "Redir ret (q, e) mode fd"] exI [of _ s2] exI [of _ m] exI [of _ k]) auto
qed

lemma exec_done:
  assumes "b ! es = 0" and "exec_ok b es c" and "toks b es s (scmd_tokens c 3 @ R)" and "stops ''|)&;'' R" and "4 * (es - s) + 2 \<le> n"
  shows "reads b es s (parseexec n b es s) c R"
proof -
  have h: "\<not> head_in ''('' R" "\<not> head_in ''<>'' R" using assms(4) by (cases R; auto simp: stops_def chars)+
  obtain ret s' n' k where e: "parseexec n b es s = pbind (parseredirs n' b es ret s') k" "denotes b es ret c" "toks b es s' R"
    "s \<le> s'" "es - s' < n'"
    and k: "closes b es k"
    by (rule exec_okD [OF assms(2,3) h(1) assms(5)])
  obtain s2 where r: "parseredirs n' b es ret s' = Some (Inr (ret, s2))" "toks b es s2 R" "s' \<le> s2"
    by (rule redirs_stop [OF e(3) assms(1) h(2), of n' ret]) (use e(5) in auto)
  obtain s3 where "k ret s2 = Some (Inr (ret, s3))" "toks b es s3 R" "s2 \<le> s3" using k r(2) assms(4) unfolding closes_def by blast
  then show ?thesis using e r unfolding reads_def by auto
qed

lemma exec_ok_block:
  assumes "b ! es = 0" and "line_ok b es c" and "scmd_tokens c 3 = parens True (scmd_tokens c 0)"
  shows "exec_ok b es c"
  unfolding exec_ok_def
proof (intro allI impI)
  fix s R n
  let ?R = "sym_tok CHR '')'' # R" and ?c = "scmd_tokens c 0"
  assume t: "toks b es s (scmd_tokens c 3 @ R)" and n: "4 * (es - s) + 2 \<le> n"
  have t': "toks b es s (sym_tok CHR ''('' # ?c @ ?R)" using t assms(3) by (simp add: parens_def)
  obtain m where m: "n = Suc (Suc m)" "4 * (es - s) \<le> m" using n by (cases n; cases "n - 1") auto
  obtain s1 where p1: "peek b es s ''('' = (True, s1)" "toks b es s1 (sym_tok CHR ''('' # ?c @ ?R)" "s \<le> s1"
    by (rule peek_yes [OF t' assms(1), of "''(''"]) (simp_all add: chars)
  obtain s2 where p2: "peek b es s1 ''('' = (True, s2)" "toks b es s2 (sym_tok CHR ''('' # ?c @ ?R)" "s1 \<le> s2"
    by (rule peek_yes [OF p1(2) assms(1), of "''(''"]) (simp_all add: chars)
  obtain k q e s3 where g3: "gettoken b es s2 = (k, q, e, s3)" "toks b es s3 (?c @ ?R)" "s2 < s3" "s3 \<le> es"
    by (rule toks_next [OF p2(2) assms(1)])
  have "stops '')'' ?R" by (simp add: stops_def chars)
  moreover have "4 * (es - s3) + 4 \<le> m" using m(2) g3(3,4) p1(3) p2(3) by linarith
  ultimately obtain cmd s4 where l: "parseline m b es s3 = Some (Inr (cmd, s4))" "denotes b es cmd c" "toks b es s4 ?R" "s3 \<le> s4"
    using assms(2) g3(2) unfolding line_ok_def reads_def by blast
  obtain s5 where p5: "peek b es s4 '')'' = (True, s5)" "toks b es s5 ?R" "s4 \<le> s5"
    by (rule peek_yes [OF l(3) assms(1), of "'')''"]) (simp_all add: chars)
  obtain k q e s6 where g6: "gettoken b es s5 = (k, q, e, s6)" "toks b es s6 R" "s5 < s6" "s6 \<le> es"
    by (rule toks_next [OF p5(2) assms(1)])
  have "parseexec n b es s = pbind (parseredirs m b es cmd s6) (\<lambda>c s. Some (Inr (c, s)))"
    unfolding pbind_Ret by (simp add: m(1) p1(1) p2(1) g3(1) l(1) p5(1) g6(1))
  moreover have "s \<le> s6" "es - s6 < m" using p1(3) p2(3) g3(3) l(4) p5(3) g6(3,4) m(2) by linarith+
  ultimately show "\<exists>ret s' n' k. parseexec n b es s = pbind (parseredirs n' b es ret s') k \<and> denotes b es ret c \<and> toks b es s' R \<and>
        s \<le> s' \<and> es - s' < n' \<and>
        closes b es k"
    using l(2) g6(2) unfolding closes_def
    by (intro exI [of _ cmd] exI [of _ s6] exI [of _ m] exI [of _ "\<lambda>c s. Some (Inr (c, s))"]) auto
qed

lemma stops_mono: "stops cs R \<Longrightarrow> set (bytes_of cs) \<subseteq> set (bytes_of cs') \<Longrightarrow> stops cs' R"
  by (auto simp: stops_def head_in_def)

lemma stops_not: "stops cs R \<Longrightarrow> set (bytes_of cs) \<inter> set (bytes_of cs') = {} \<Longrightarrow> \<not> head_in cs' R"
  by (auto simp: stops_def head_in_def)

lemma pipe_ok_exec:
  assumes "b ! es = 0" and "exec_ok b es c" and "scmd_tokens c 2 = scmd_tokens c 3"
  shows "pipe_ok b es c"
  unfolding pipe_ok_def
proof (intro allI impI)
  fix s R n
  assume t: "toks b es s (scmd_tokens c 2 @ R)" and R: "stops '')&;'' R" and n: "4 * (es - s) + 3 \<le> n"
  obtain m where m: "n = Suc m" "4 * (es - s) + 2 \<le> m" using n by (cases n) auto
  have "reads b es s (parseexec m b es s) c R"
    using t assms(3) m(2) stops_mono [OF R, of "''|)&;''"] by (intro exec_done [OF assms(1,2)]) (simp_all add: chars)
  then obtain cmd s1 where e: "parseexec m b es s = Some (Inr (cmd, s1))" "denotes b es cmd c" "toks b es s1 R" "s \<le> s1"
    unfolding reads_def by blast
  have "\<not> head_in ''|'' R" using stops_not [OF R] by (simp add: chars)
  then obtain s2 where "peek b es s1 ''|'' = (False, s2)" "toks b es s2 R" "s1 \<le> s2"
    using e(3) by - (rule peek_no [of b es s1 R "''|''"], simp_all add: assms(1) chars)
  then show "reads b es s (parsepipe n b es s) c R" using e m(1) by (auto simp: reads_def)
qed

lemma pipe_ok_pipe:
  assumes "b ! es = 0" and "exec_ok b es l" and "pipe_ok b es r"
  shows "pipe_ok b es (SPipe l r)"
  unfolding pipe_ok_def
proof (intro allI impI)
  fix s R n
  let ?R = "sym_tok CHR ''|'' # scmd_tokens r 2 @ R"
  assume t: "toks b es s (scmd_tokens (SPipe l r) 2 @ R)" and R: "stops '')&;'' R" and n: "4 * (es - s) + 3 \<le> n"
  obtain m where m: "n = Suc m" "4 * (es - s) + 2 \<le> m" using n by (cases n) auto
  have "reads b es s (parseexec m b es s) l ?R"
    using t m(2) by (intro exec_done [OF assms(1,2)]) (simp_all add: parens_def stops_def chars)
  then obtain cmd s1 where e: "parseexec m b es s = Some (Inr (cmd, s1))" "denotes b es cmd l" "toks b es s1 ?R" "s \<le> s1"
    unfolding reads_def by blast
  obtain s2 where p: "peek b es s1 ''|'' = (True, s2)" "toks b es s2 ?R" "s1 \<le> s2"
    by (rule peek_yes [OF e(3) assms(1), of "''|''"]) (simp_all add: chars)
  obtain k q e' s3 where g: "gettoken b es s2 = (k, q, e', s3)" "toks b es s3 (scmd_tokens r 2 @ R)" "s2 < s3" "s3 \<le> es"
    by (rule toks_next [OF p(2) assms(1)])
  have "4 * (es - s3) + 3 \<le> m" using m(2) g(3,4) p(3) e(4) by linarith
  then obtain cmd' s4 where r: "parsepipe m b es s3 = Some (Inr (cmd', s4))" "denotes b es cmd' r" "toks b es s4 R" "s3 \<le> s4"
    using assms(3) g(2) R unfolding pipe_ok_def reads_def by blast
  then show "reads b es s (parsepipe n b es s) (SPipe l r) R" using e p g m(1) by (auto simp: reads_def)
qed

lemma back_ok_pipe:
  assumes "pipe_ok b es c" and "scmd_tokens c 1 = scmd_tokens c 2"
  shows "back_ok b es c"
  unfolding back_ok_def
proof (intro allI impI)
  fix s R n
  assume t: "toks b es s (scmd_tokens c 1 @ R)" and R: "stops '')&;'' R" and n: "4 * (es - s) + 3 \<le> n"
  then obtain cmd s1 where "parsepipe n b es s = Some (Inr (cmd, s1))" "denotes b es cmd c" "toks b es s1 R" "s \<le> s1"
    using assms unfolding pipe_ok_def reads_def by fastforce
  then show "\<exists>cmd s' n'. pbind (parsepipe n b es s) (parse_backs n b es) = parse_backs n' b es cmd s' \<and> denotes b es cmd c \<and>
        toks b es s' R \<and> s \<le> s' \<and> es - s' < n'"
    using n by (intro exI [of _ cmd] exI [of _ s1] exI [of _ n]) auto
qed

lemma back_ok_back:
  assumes "b ! es = 0" and "back_ok b es c"
  shows "back_ok b es (SBack c)"
  unfolding back_ok_def
proof (intro allI impI)
  fix s R n
  let ?R = "sym_tok CHR ''&'' # R"
  assume t: "toks b es s (scmd_tokens (SBack c) 1 @ R)" and n: "4 * (es - s) + 3 \<le> n"
  have t': "toks b es s (scmd_tokens c 1 @ ?R)" using t by (simp add: parens_def)
  have "stops '')&;'' ?R" by (simp add: stops_def chars)
  then obtain cmd s1 n' where h: "pbind (parsepipe n b es s) (parse_backs n b es) = parse_backs n' b es cmd s1" "denotes b es cmd c"
    "toks b es s1 ?R" "s \<le> s1" "es - s1 < n'"
    using assms(2) t' n unfolding back_ok_def by blast
  obtain m where m: "n' = Suc m" using h(5) by (cases n') auto
  obtain s2 where p: "peek b es s1 ''&'' = (True, s2)" "toks b es s2 ?R" "s1 \<le> s2"
    by (rule peek_yes [OF h(3) assms(1), of "''&''"]) (simp_all add: chars)
  obtain k q e s3 where g: "gettoken b es s2 = (k, q, e, s3)" "toks b es s3 R" "s2 < s3" "s3 \<le> es"
    by (rule toks_next [OF p(2) assms(1)])
  have "parse_backs n' b es cmd s1 = parse_backs m b es (Back cmd) s3" by (simp add: m p(1) g(1))
  moreover have "s \<le> s3" "es - s3 < m" using h(4,5) p(3) g(3,4) m by linarith+
  ultimately show "\<exists>cmd s' n'. pbind (parsepipe n b es s) (parse_backs n b es) = parse_backs n' b es cmd s' \<and> denotes b es cmd (SBack c) \<and>
        toks b es s' R \<and> s \<le> s' \<and> es - s' < n'"
    using h(1,2) g(2) by (intro exI [of _ "Back cmd"] exI [of _ s3] exI [of _ m]) auto
qed

text \<open>The part of \<open>parseline\<close> before the test for \<open>;\<close>.\<close>

lemma line_start:
  assumes "b ! es = 0" and "back_ok b es c" and "toks b es s (scmd_tokens c 1 @ R)" and "stops '');'' R" and "4 * (es - s) + 4 \<le> n"
  obtains m cmd s' where "n = Suc m" "4 * (es - s) + 3 \<le> m" "denotes b es cmd c" "toks b es s' R" "s \<le> s'"
    "\<And>f. pbind (parsepipe m b es s) (\<lambda>cmd s. pbind (parse_backs m b es cmd s) f) = f cmd s'"
proof -
  obtain m where m: "n = Suc m" "4 * (es - s) + 3 \<le> m" using assms(5) by (cases n) auto
  have "stops '')&;'' R" using stops_mono [OF assms(4)] by (simp add: chars)
  then obtain cmd s1 n' where h: "pbind (parsepipe m b es s) (parse_backs m b es) = parse_backs n' b es cmd s1" "denotes b es cmd c"
    "toks b es s1 R" "s \<le> s1" "es - s1 < n'"
    using assms(2,3) m(2) unfolding back_ok_def by blast
  obtain n'' where n': "n' = Suc n''" using h(5) by (cases n') auto
  have "\<not> head_in ''&'' R" using stops_not [OF assms(4)] by (simp add: chars)
  then obtain s2 where p: "peek b es s1 ''&'' = (False, s2)" "toks b es s2 R" "s1 \<le> s2"
    using h(3) by - (rule peek_no [of b es s1 R "''&''"], simp_all add: assms(1) chars)
  have "pbind (parsepipe m b es s) (\<lambda>cmd s. pbind (parse_backs m b es cmd s) f) = pbind (parse_backs n' b es cmd s1) f" for f
    unfolding pbind_assoc [symmetric] h(1) ..
  then have "pbind (parsepipe m b es s) (\<lambda>cmd s. pbind (parse_backs m b es cmd s) f) = f cmd s2" for f by (simp add: n' p(1))
  then show ?thesis using that [OF m h(2) p(2)] h(4) p(3) by simp
qed

lemma line_ok_back:
  assumes "b ! es = 0" and "back_ok b es c" and "scmd_tokens c 0 = scmd_tokens c 1"
  shows "line_ok b es c"
  unfolding line_ok_def
proof (intro allI impI)
  fix s R n
  assume t: "toks b es s (scmd_tokens c 0 @ R)" and R: "stops '')'' R" and n: "4 * (es - s) + 4 \<le> n"
  have t': "toks b es s (scmd_tokens c 1 @ R)" using t assms(3) by simp
  have R': "stops '');'' R" using stops_mono [OF R] by (simp add: chars)
  obtain m cmd s1 where l: "n = Suc m" "denotes b es cmd c" "toks b es s1 R" "s \<le> s1"
    "\<And>f. pbind (parsepipe m b es s) (\<lambda>cmd s. pbind (parse_backs m b es cmd s) f) = f cmd s1"
    using line_start [OF assms(1,2) t' R' n] by metis
  have "\<not> head_in '';'' R" using stops_not [OF R] by (simp add: chars)
  then obtain s2 where "peek b es s1 '';'' = (False, s2)" "toks b es s2 R" "s1 \<le> s2"
    using l(3) by - (rule peek_no [of b es s1 R "'';''"], simp_all add: assms(1) chars)
  then show "reads b es s (parseline n b es s) c R" using l(1-4) by (auto simp: reads_def l(5))
qed

lemma line_ok_list:
  assumes "b ! es = 0" and "back_ok b es l" and "line_ok b es r"
  shows "line_ok b es (SList l r)"
  unfolding line_ok_def
proof (intro allI impI)
  fix s R n
  let ?R = "sym_tok CHR '';'' # scmd_tokens r 0 @ R"
  assume t: "toks b es s (scmd_tokens (SList l r) 0 @ R)" and R: "stops '')'' R" and n: "4 * (es - s) + 4 \<le> n"
  have t': "toks b es s (scmd_tokens l 1 @ ?R)" using t by (simp add: parens_def)
  have R': "stops '');'' ?R" by (simp add: stops_def chars)
  obtain m cmd s1 where h: "n = Suc m" "4 * (es - s) + 3 \<le> m" "denotes b es cmd l" "toks b es s1 ?R" "s \<le> s1"
    "\<And>f. pbind (parsepipe m b es s) (\<lambda>cmd s. pbind (parse_backs m b es cmd s) f) = f cmd s1"
    using line_start [OF assms(1,2) t' R' n] by metis
  obtain s2 where p: "peek b es s1 '';'' = (True, s2)" "toks b es s2 ?R" "s1 \<le> s2"
    by (rule peek_yes [OF h(4) assms(1), of "'';''"]) (simp_all add: chars)
  obtain k q e s3 where g: "gettoken b es s2 = (k, q, e, s3)" "toks b es s3 (scmd_tokens r 0 @ R)" "s2 < s3" "s3 \<le> es"
    by (rule toks_next [OF p(2) assms(1)])
  have "4 * (es - s3) + 4 \<le> m" using h(2,5) p(3) g(3,4) by linarith
  then obtain cmd' s4 where "parseline m b es s3 = Some (Inr (cmd', s4))" "denotes b es cmd' r" "toks b es s4 R" "s3 \<le> s4"
    using assms(3) g(2) R unfolding line_ok_def reads_def by blast
  then show "reads b es s (parseline n b es s) (SList l r) R" using h(1,3,5) p g by (auto simp: reads_def h(6))
qed

lemma all_ok:
  assumes "b ! es = 0"
  shows "printable c \<Longrightarrow> exec_ok b es c \<and> pipe_ok b es c \<and> back_ok b es c \<and> line_ok b es c"
proof (induction c)
  case (SExec ws)
  have e: "exec_ok b es (SExec ws)" using SExec by (intro exec_ok_words assms) simp
  have p: "pipe_ok b es (SExec ws)" by (rule pipe_ok_exec [OF assms e]) simp
  have k: "back_ok b es (SExec ws)" by (rule back_ok_pipe [OF p]) simp
  have "line_ok b es (SExec ws)" by (rule line_ok_back [OF assms k]) simp
  then show ?case using e p k by simp
next
  case (SRedir c f m d)
  have e: "exec_ok b es (SRedir c f m d)" using SRedir by (intro exec_ok_redir assms) auto
  have p: "pipe_ok b es (SRedir c f m d)" by (rule pipe_ok_exec [OF assms e]) simp
  have k: "back_ok b es (SRedir c f m d)" by (rule back_ok_pipe [OF p]) simp
  have "line_ok b es (SRedir c f m d)" by (rule line_ok_back [OF assms k]) simp
  then show ?case using e p k by simp
next
  case (SPipe l r)
  have p: "pipe_ok b es (SPipe l r)" using SPipe by (intro pipe_ok_pipe assms) auto
  have k: "back_ok b es (SPipe l r)" by (rule back_ok_pipe [OF p]) (simp add: parens_def)
  have n: "line_ok b es (SPipe l r)" by (rule line_ok_back [OF assms k]) (simp add: parens_def)
  have "exec_ok b es (SPipe l r)" by (rule exec_ok_block [OF assms n]) (simp add: parens_def)
  then show ?case using p k n by simp
next
  case (SList l r)
  have n: "line_ok b es (SList l r)" using SList by (intro line_ok_list assms) auto
  have e: "exec_ok b es (SList l r)" by (rule exec_ok_block [OF assms n]) (simp add: parens_def)
  have p: "pipe_ok b es (SList l r)" by (rule pipe_ok_exec [OF assms e]) (simp add: parens_def)
  have "back_ok b es (SList l r)" by (rule back_ok_pipe [OF p]) (simp add: parens_def)
  then show ?case using e p n by simp
next
  case (SBack c)
  have k: "back_ok b es (SBack c)" using SBack by (intro back_ok_back assms) auto
  have n: "line_ok b es (SBack c)" by (rule line_ok_back [OF assms k]) (simp add: parens_def)
  have e: "exec_ok b es (SBack c)" by (rule exec_ok_block [OF assms n]) (simp add: parens_def)
  have "pipe_ok b es (SBack c)" by (rule pipe_ok_exec [OF assms e]) (simp add: parens_def)
  then show ?case using e k n by simp
qed

lemma text_no_NUL: "list_all valid_tok ts \<Longrightarrow> 0 \<notin> set (text_of ts)"
  by (induction ts) (auto simp: text_of_def valid_tok_def word_def symbol_no_space split: if_splits dest: symbol_no_space)

lemma strlen_exact: "0 \<notin> set t \<Longrightarrow> strlen (t @ 0 # r) = Some (length t)"
  by (induction t) auto

text \<open>
  C5. Parsing inverts printing. Every command whose words are made of ordinary characters, with at most
  nine arguments for each program, is read back from its text: for the text followed by any white space,
  in any buffer, the parser returns a command whose strings, after \<open>nulterminate\<close> has cut the line into
  them, are exactly those of the command that was printed, with the same structure of pipes, lists,
  background commands, parentheses and redirections.
\<close>

theorem parsecmd_inverts_printing:
  assumes "printable c" and "set ws \<subseteq> set whitespace"
  shows "\<exists>cmd b. parsecmd (text_of (scmd_tokens c 0) @ ws @ 0 # r) = Some (Inr (cmd, b)) \<and> strings b cmd = c"
proof -
  let ?t = "text_of (scmd_tokens c 0) @ ws"
  let ?b = "?t @ 0 # r" and ?es = "length ?t"
  have v: "list_all valid_tok (scmd_tokens c 0)" by (rule scmd_tokens_valid [OF assms(1)])
  have "0 \<notin> set ws" using assms(2) by (auto simp: whitespace_def)
  then have es: "strlen ?b = Some ?es" using text_no_NUL [OF v] by (intro strlen_exact) simp
  have z: "?b ! ?es = 0" by (simp add: nth_append)
  have "toks ?b ?es (length ([] :: byte list)) (scmd_tokens c 0)"
    by (rule text_toks [where ws = ws and r = r]) (use v assms(2) in \<open>simp_all add: list_all_iff\<close>)
  then have t: "toks ?b ?es 0 (scmd_tokens c 0 @ [])" by simp
  have "line_ok ?b ?es c" using all_ok [OF z assms(1)] by blast
  then obtain cmd s where l: "parseline (4 * ?es + 4) ?b ?es 0 = Some (Inr (cmd, s))" "denotes ?b ?es cmd c" "toks ?b ?es s []"
    using t unfolding line_ok_def reads_def stops_def by fastforce
  have "peek ?b ?es s [] = (False, ?es)" using l(3) z by (simp add: toks.simps peek_def)
  then have "parsecmd ?b = Some (Inr (cmd, nulterminate cmd ?b))"
    unfolding parsecmd_def es option.case l(1) sum.case prod.case by simp
  moreover have "strings (nulterminate cmd ?b) cmd = c" by (rule nulterminate_strings [OF l(2)]) simp
  ultimately show ?thesis by auto
qed

lemma parsecmd_inverts_printing_witness:
  "\<exists>cmd b. parsecmd (bytes_of ''( ls -l | wc ) > out & ; echo hi '' @ [10] @ 0 # [7, 7]) = Some (Inr (cmd, b)) \<and>
     strings b cmd = SList (SBack (SRedir (SPipe (SExec [bytes_of ''ls'', bytes_of ''-l'']) (SExec [bytes_of ''wc''])) (bytes_of ''out'') 0x201 1))
       (SExec [bytes_of ''echo'', bytes_of ''hi''])"
  (is "\<exists>cmd b. parsecmd ?text = Some (Inr (cmd, b)) \<and> strings b cmd = ?c")
proof -
  have "printable ?c" by (simp add: word_def word_char_def chars whitespace_def)
  moreover have "?text = text_of (scmd_tokens ?c 0) @ [10] @ 0 # [7, 7]" by (simp add: text_of_def parens_def bytes_of_def)
  ultimately show ?thesis using parsecmd_inverts_printing [of ?c "[10]" "[7, 7]"] by (simp add: whitespace_def)
qed

end
