(* ===== verification/Spec2Isabelle.thy ===== *)
theory Spec2Isabelle
  imports Spinlock Strings Kalloc Vm Proc BinSem Semaphore BoundedBuffer Ide Bio Log Inode Console Fs File Threads
    Exec Sysfile Trap Ulib Grep Shell ShellParse
begin

text \<open>
  A verification library of the teaching kernel in \<open>src/assignment2\<close>: xv6 for the x86 extended with kernel
  threads, binary semaphores in the kernel, and counting semaphores and a bounded buffer in user space.

  \<^bold>\<open>Parts of the program and their theories.\<close> Every theory models the files named here, in the order of
  their code, and proves what its component promises.

  \<^item> \<open>Prelude\<close>: the outcome of kernel code, \<open>kres\<close>. A routine returns a value and a state (\<open>Ret\<close>), stops
    the kernel (\<open>Panic\<close>), gives up the CPU inside \<open>sched\<close> (\<open>Asleep\<close>), busy-waits for ever (\<open>Spins\<close>), or does
    something the C language leaves undefined (\<open>Undef\<close>). \<open>bind\<close>, \<open>kfor\<close> and \<open>first_index\<close> compose routines the
    way statements, loops and searches of the code do. A routine that sleeps is cut at its sleep: what
    follows is a definition named \<open>\<dots>_resume\<close> (or \<open>\<dots>_loop\<close> when it starts again at a loop's test).
  \<^item> \<open>Spinlock\<close> (\<open>spinlock.c\<close>): \<open>acquire\<close>, \<open>release\<close>, \<open>pushcli\<close>, \<open>popcli\<close>, and their interleaving on several
    CPUs.
  \<^item> \<open>Strings\<close> (\<open>string.c\<close>, \<open>x86.h\<close>), \<open>Kalloc\<close> (\<open>kalloc.c\<close>), \<open>Vm\<close> (\<open>vm.c\<close>), \<open>UserMem\<close> (access of the kernel to
    user addresses through the page table).
  \<^item> \<open>Proc\<close> (\<open>proc.c\<close>): process table, scheduler, \<open>sleep\<close>, \<open>wakeup\<close>, \<open>kill\<close>, \<open>allocproc\<close>; \<open>BinSem\<close>: the binary
    semaphores of \<open>proc.c\<close>; \<open>Threads\<close>: \<open>fork\<close>, \<open>exit\<close>, \<open>wait\<close> and the threads of \<open>proc.c\<close>.
  \<^item> \<open>Semaphore\<close> (\<open>semaphore.c\<close>) and \<open>BoundedBuffer\<close> (\<open>boundedbuffer.c\<close>): the user-level libraries as step
    relations over statements and system calls of any number of threads.
  \<^item> \<open>Ide\<close> (\<open>ide.c\<close>, \<open>memide.c\<close>), \<open>Bio\<close> (\<open>bio.c\<close>), \<open>Log\<close> (\<open>log.c\<close>), \<open>Inode\<close> and \<open>Fs\<close> (\<open>fs.c\<close>), \<open>File\<close> (\<open>file.c\<close>,
    \<open>pipe.c\<close>): the storage stack, each layer over the one before.
  \<^item> \<open>Console\<close> (\<open>console.c\<close>, \<open>kbd.c\<close>, \<open>uart.c\<close>), \<open>Exec\<close> (\<open>exec.c\<close>), \<open>Sysfile\<close> (\<open>sysfile.c\<close>, the arguments of
    \<open>syscall.c\<close>), \<open>Trap\<close> (\<open>sysproc.c\<close>, \<open>syscall.c\<close>, \<open>trap.c\<close>).
  \<^item> \<open>Ulib\<close> (\<open>ulib.c\<close>, \<open>printf.c\<close>), \<open>Grep\<close> (\<open>grep.c\<close>) and \<open>Shell\<close> (\<open>sh.c\<close>): user programs. What they write is
    the list of their calls of \<open>write\<close>; what they read is a list of bytes, or of the portions in which the
    bytes arrive; the commands of the shell are run as trees of system calls.

  \<^bold>\<open>State.\<close> The state is a chain of extensible records, one per component: \<open>machine\<close> (the CPU and the spin
  locks), \<open>kmem_state\<close> (memory, free list), \<open>vm_state\<close>, \<open>ptable_state\<close> (process table, semaphores),
  \<open>ide_state\<close> (buffers, disk queue, disk), \<open>log_state\<close>, \<open>fs_state\<close>, \<open>con_state\<close>, \<open>file_state\<close>, \<open>thread_state\<close>
  and \<open>sys_state\<close>. A routine is polymorphic in the rest of the record, so that it runs unchanged in the
  state of every later component. Machine integers are words of their width and wrap; \<open>int\<close> variables that
  the code only counts with are \<open>int\<close>. Pointers into the tables of the kernel are indices, other pointers
  are addresses.

  \<^bold>\<open>What the lemmas show.\<close>

  \<^item> \<open>Spinlock\<close>: mutual exclusion over all interleavings of several CPUs; \<open>acquire\<close> and \<open>release\<close> balance the
    interrupt state.
  \<^item> \<open>Strings\<close>, \<open>Kalloc\<close>: the routines agree with list specifications; the free list implements a stack of
    pages, for a client of the \<open>page_allocator\<close> contract.
  \<^item> \<open>BinSem\<close>: mutual exclusion and first-in first-out hand-off of binary semaphores through \<open>sleep\<close>,
    \<open>wakeup\<close> and the scheduler; a schedule on which a waiter is lost.
  \<^item> \<open>Semaphore\<close>, \<open>BoundedBuffer\<close>: counting and first-in first-out delivery, for all interleavings.
  \<^item> \<open>Ide\<close>: \<open>iderw_eq\<close> is the closed form of a disk request, sleep and interrupt included; the driver and
    the in-memory disk are two instances of the contract \<open>block_device\<close>.
  \<^item> \<open>Bio\<close>: the pointers are a ring whose order is the order of use (\<open>ring_unlink\<close>, \<open>ring_link\<close>); \<open>bcache_ok\<close> is
    the invariant of the cache, \<open>blk\<close> the contents of a sector as its clients see them; \<open>fetched_ok\<close>,
    \<open>bwrite_blk\<close>, \<open>brelse_cache\<close> and \<open>overwrite_block\<close> say what each operation does to both.
  \<^item> \<open>Log\<close>: \<open>wrote\<close> describes a routine by the list of disk writes it makes; \<open>install_trans_wrote\<close>,
    \<open>write_head_wrote\<close> and \<open>commit_trans_ok\<close> give the writes of a commit, \<open>recover_ok\<close> those of a recovery,
    and \<open>crash_recover\<close> joins them: after a crash between any two writes of a commit, recovery gives the
    file system blocks of before or of after the transaction.
  \<^item> \<open>Console\<close>: the cursor stays on the screen, numbers are printed as their digits.
  \<^item> \<open>File\<close>: the ring of a pipe, with its 32-bit counters that wrap, implements a queue of bytes, the
    contract \<open>byte_queue\<close>; what is written comes out in order, and a pipe without a reader refuses.
  \<^item> \<open>Threads\<close>, \<open>Sysfile\<close>, \<open>Trap\<close>: \<open>exit\<close> ends all threads of a process (\<open>exit_rel\<close> is what its loop may
    change); the last thread that leaves by \<open>thread_exit\<close> is never reaped; a full table, a bad pointer, an
    unknown system call and a fault of a user program are refused and harm nothing else (\<open>con_frame\<close> is the
    frame of the routines that only print).
  \<^item> \<open>Ulib\<close>, \<open>Grep\<close>, \<open>Shell\<close>: \<open>gets\<close> stays in its array, \<open>atoi\<close> inverts \<open>printint\<close>, the matcher decides the
    language of its pattern, \<open>grep\<close> prints the matching lines of a short input and leaves its buffer on
    some longer ones, and the parser of the shell returns on every line.
  \<^item> \<open>ShellParse\<close>: the parser of the shell, with \<open>nulterminate\<close>, inverts printing.

  \<^bold>\<open>Fuel and bounds.\<close> The two loops of \<open>bget\<close> have the number of buffers as fuel; \<open>bwalk_path\<close> shows that
  this is enough on a well-formed ring, and a malformed one makes the walk \<open>Spins\<close>. The wait of \<open>iderw\<close>
  has fuel for the number of requests that can be queued. The parser of the shell has a bound on the depth
  of its calls; \<open>parse_ends\<close> shows that four for each character are enough. All other loops recurse on a decreasing
  argument of the code.

  \<^bold>\<open>Not modelled.\<close> The boot loader and the assembly entry code, the interrupt controllers, the local APIC
  and the multiprocessor tables (hardware set-up without state of their own in the kernel), the segment
  registers (\<open>seginit\<close>), \<open>mkfs\<close>, \<open>umalloc.c\<close>, and the user programs other than the semaphore and buffer
  libraries, \<open>grep\<close> and \<open>sh\<close>, most of which are tests that only make system calls. The kernel image
  and the first user program are parameters of the state. The debugging call stack inside a lock is left
  out. Code that runs on one CPU between two scheduling points is one step; other CPUs interleave at lock
  operations in \<open>Spinlock\<close> and at system calls in \<open>BinSem\<close>, \<open>Semaphore\<close> and \<open>BoundedBuffer\<close>.
\<close>

end
